(* ===== verification/Prelude.thy ===== *)
theory Prelude
  imports Main "HOL-Library.Word"
begin

text \<open>
  Shared vocabulary of the development: bytes and Go strings, the big-endian and
  variable-length integers of \<^verbatim>\<open>encoding/binary\<close>, Go times, and the contract of a
  machine whose steps keep an invariant, which several components instantiate.
\<close>

unbundle bit_operations_syntax

subsection \<open>Types\<close>

type_synonym byte = "8 word"
type_synonym bytes = "byte list"

text \<open>Nanoseconds since the Unix epoch; durations are differences of these.\<close>

type_synonym gotime = int
type_synonym duration = int

text \<open>A Go string is a byte sequence; \<open>lit\<close> gives the bytes of an ASCII literal.\<close>

definition lit :: "string \<Rightarrow> bytes" where
  "lit s = map of_char s"

text \<open>The zero \<^verbatim>\<open>time.Time\<close> is 1 January of year 1, UTC.\<close>

definition zero_time :: gotime where
  "zero_time = - 62135596800000000000"

text \<open>The instants a \<^verbatim>\<open>time.Time\<close> holds: 64-bit seconds.\<close>

definition time_ok :: "gotime \<Rightarrow> bool" where
  "time_ok t \<longleftrightarrow> - (2 ^ 63) * 1000000000 \<le> t \<and> t < 2 ^ 63 * 1000000000"

definition second :: duration where
  "second = 1000000000"

definition hour :: duration where
  "hour = 3600 * second"

subsection \<open>Fixed-width and variable-length integers\<close>

text \<open>\<open>be_put n x\<close> is \<open>x\<close> in \<open>n\<close> big-endian bytes; \<open>be_get\<close> reads such bytes back.\<close>

fun be_put :: "nat \<Rightarrow> nat \<Rightarrow> bytes" where
  "be_put 0 x = []"
| "be_put (Suc n) x = be_put n (x div 256) @ [of_nat x]"

definition be_get :: "bytes \<Rightarrow> nat" where
  "be_get bs = foldl (\<lambda>a b. 256 * a + unat b) 0 bs"

definition put_uint16 :: "16 word \<Rightarrow> bytes" where
  "put_uint16 w = be_put 2 (unat w)"

definition put_uint32 :: "32 word \<Rightarrow> bytes" where
  "put_uint32 w = be_put 4 (unat w)"

definition put_uint64 :: "64 word \<Rightarrow> bytes" where
  "put_uint64 w = be_put 8 (unat w)"

text \<open>The readers take the first 2, 4 or 8 bytes of a slice at least that long.\<close>

definition get_uint16 :: "bytes \<Rightarrow> 16 word" where
  "get_uint16 bs = of_nat (be_get (take 2 bs))"

definition get_uint32 :: "bytes \<Rightarrow> 32 word" where
  "get_uint32 bs = of_nat (be_get (take 4 bs))"

definition get_uint64 :: "bytes \<Rightarrow> 64 word" where
  "get_uint64 bs = of_nat (be_get (take 8 bs))"

text \<open>\<^verbatim>\<open>binary.AppendUvarint\<close>: seven bits per byte, least significant first.\<close>

fun uvarint :: "nat \<Rightarrow> bytes" where
  "uvarint n = (if n < 128 then [of_nat n] else of_nat (n mod 128 + 128) # uvarint (n div 128))"

declare uvarint.simps [simp del]

text \<open>A Go slice expression \<open>b[i:j]\<close> with \<open>i \<le> j \<le> len(b)\<close>.\<close>

definition slice :: "'a list \<Rightarrow> nat \<Rightarrow> nat \<Rightarrow> 'a list" where
  "slice b i j = take (j - i) (drop i b)"

subsection \<open>Facts about integers in bytes\<close>

named_theorems byte_simps \<open>lengths and round trips of integers in bytes\<close>

lemma length_lit [simp, byte_simps]: "length (lit s) = length s"
  by (simp add: lit_def)

lemma length_be_put [simp, byte_simps]: "length (be_put n x) = n"
  by (induction n arbitrary: x) simp_all

lemma be_put_2: "be_put 2 x = [of_nat (x div 256), of_nat x]"
  unfolding numeral_2_eq_2 by simp

lemma be_put_add: "be_put (m + n) x = be_put m (x div 256 ^ n) @ be_put n x"
  by (induction n arbitrary: x) (simp_all add: div_mult2_eq)

lemma be_put_4: "be_put 4 x = be_put 2 (x div 65536) @ be_put 2 x"
  using be_put_add [of 2 2 x] by simp

lemma be_put_8: "be_put 8 x = be_put 4 (x div 4294967296) @ be_put 4 x"
  using be_put_add [of 4 4 x] by simp

lemma be_get_Nil [simp]: "be_get [] = 0"
  by (simp add: be_get_def)

lemma be_get_snoc [simp]: "be_get (bs @ [b]) = 256 * be_get bs + unat b"
  by (simp add: be_get_def)

lemma be_get_be_put: "be_get (be_put n x) = x mod 256 ^ n"
proof (induction n arbitrary: x)
  case 0
  then show ?case by simp
next
  case (Suc n)
  have "be_get (be_put (Suc n) x) = 256 * (x div 256 mod 256 ^ n) + x mod 256"
    by (simp add: Suc.IH unat_of_nat)
  also have "\<dots> = x mod (256 * 256 ^ n)"
    by (simp add: mod_mult2_eq)
  finally show ?case by simp
qed

lemma unat_bound: "unat (w :: 'a::len word) < 2 ^ LENGTH('a)"
  by simp

lemma unat_byte: "unat (b :: byte) < 256"
  using unat_bound [of b] by simp

lemma be_get_less: "be_get bs < 256 ^ length bs"
proof (induction bs rule: rev_induct)
  case Nil
  then show ?case by simp
next
  case (snoc b bs)
  have "unat b < 256" using unat_byte [of b] by simp
  with snoc show ?case by simp
qed

lemma of_nat_byte_eq: "(of_nat m :: byte) = of_nat n \<longleftrightarrow> m mod 256 = n mod 256"
  by (simp add: word_of_nat_eq_iff take_bit_eq_mod)

lemma of_nat_byte_unat: "(of_nat (256 * a + unat b) :: byte) = b"
proof -
  have "(of_nat (256 * a + unat b) :: byte) = of_nat (unat b)"
    by (subst of_nat_byte_eq) simp
  then show ?thesis by simp
qed

lemma be_put_be_get: "be_put (length bs) (be_get bs) = bs"
proof (induction bs rule: rev_induct)
  case Nil
  then show ?case by simp
next
  case (snoc b bs)
  have b: "unat b < 256" using unat_byte [of b] by simp
  then have "(256 * be_get bs + unat b) div 256 = be_get bs" by simp
  moreover have "(of_nat (256 * be_get bs + unat b) :: byte) = b"
    by (rule of_nat_byte_unat)
  ultimately show ?case using snoc by simp
qed

lemma be_put_inject: "x < 256 ^ n \<Longrightarrow> y < 256 ^ n \<Longrightarrow> be_put n x = be_put n y \<Longrightarrow> x = y"
  by (metis be_get_be_put mod_less)

lemma length_put_uint [simp, byte_simps]:
  "length (put_uint16 a) = 2" "length (put_uint32 b) = 4" "length (put_uint64 c) = 8"
  by (simp_all add: put_uint16_def put_uint32_def put_uint64_def)

lemma get_put_uint16 [simp, byte_simps]: "get_uint16 (put_uint16 w @ rest) = w"
proof -
  have "unat w < 65536" using unat_bound [of w] by simp
  then show ?thesis
    by (simp add: get_uint16_def put_uint16_def be_get_be_put)
qed

lemma get_put_uint32 [simp, byte_simps]: "get_uint32 (put_uint32 w @ rest) = w"
proof -
  have "unat w < 4294967296" using unat_bound [of w] by simp
  then show ?thesis
    by (simp add: get_uint32_def put_uint32_def be_get_be_put)
qed

lemma get_put_uint64 [simp, byte_simps]: "get_uint64 (put_uint64 w @ rest) = w"
proof -
  have "unat w < 18446744073709551616" using unat_bound [of w] by simp
  then show ?thesis
    by (simp add: get_uint64_def put_uint64_def be_get_be_put)
qed

lemmas get_put_uint_exact [simp, byte_simps] =
  get_put_uint16 [where rest = "[]", simplified]
  get_put_uint32 [where rest = "[]", simplified]
  get_put_uint64 [where rest = "[]", simplified]

lemma uvarint_less: "n < 128 \<Longrightarrow> uvarint n = [of_nat n]"
  by (simp add: uvarint.simps)

lemma uvarint_ge: "128 \<le> n \<Longrightarrow> uvarint n = of_nat (n mod 128 + 128) # uvarint (n div 128)"
  by (subst uvarint.simps) simp

lemma unat_of_nat_byte: "n < 256 \<Longrightarrow> unat (of_nat n :: byte) = n"
  by (simp add: unat_of_nat)

lemma uvarint_prefix_free:
  "uvarint m @ xs = uvarint n @ ys \<Longrightarrow> m = n \<and> xs = ys"
proof (induction m arbitrary: n rule: uvarint.induct)
  case (1 m)
  show ?case
  proof (cases "m < 128"; cases "n < 128")
    assume "m < 128" "n < 128"
    with "1.prems" show ?thesis by (simp add: uvarint_less of_nat_byte_eq)
  next
    assume m: "m < 128" and n: "\<not> n < 128"
    with "1.prems" have "(of_nat m :: byte) = of_nat (n mod 128 + 128)"
      by (simp add: uvarint_less uvarint_ge)
    then have "m mod 256 = (n mod 128 + 128) mod 256" by (simp only: of_nat_byte_eq)
    with m show ?thesis by simp
  next
    assume m: "\<not> m < 128" and n: "n < 128"
    with "1.prems" have "(of_nat (m mod 128 + 128) :: byte) = of_nat n"
      by (simp add: uvarint_less uvarint_ge)
    then have "(m mod 128 + 128) mod 256 = n mod 256" by (simp only: of_nat_byte_eq)
    with n show ?thesis by simp
  next
    assume m: "\<not> m < 128" and n: "\<not> n < 128"
    with "1.prems" have hd: "(of_nat (m mod 128 + 128) :: byte) = of_nat (n mod 128 + 128)"
      and tl: "uvarint (m div 128) @ xs = uvarint (n div 128) @ ys"
      by (simp_all add: uvarint_ge)
    from hd have "(m mod 128 + 128) mod 256 = (n mod 128 + 128) mod 256"
      by (simp only: of_nat_byte_eq)
    then have "m mod 128 = n mod 128" by simp
    moreover have "m div 128 = n div 128 \<and> xs = ys"
      using "1.IH" [OF m tl] .
    ultimately show ?thesis by (metis mult_div_mod_eq)
  qed
qed

lemma length_slice [simp]: "j \<le> length b \<Longrightarrow> length (slice b i j) = j - i"
  by (simp add: slice_def)

subsection \<open>Machines\<close>

text \<open>The contract of a component that reacts to events one at a time: each reaction keeps its
  invariant. Then every run keeps it, and every state passed on the way has it.\<close>

locale machine =
  fixes step :: "'s \<Rightarrow> 'e \<Rightarrow> 's"
    and inv :: "'s \<Rightarrow> bool"
  assumes keeps: "inv s \<Longrightarrow> inv (step s e)"
begin

lemma run: "inv s \<Longrightarrow> inv (foldl step s es)"
  by (induction es arbitrary: s) (simp_all add: keeps)

end

end
