(* ===== verification/Framing.thy ===== *)
theory Framing
  imports Prelude
begin

text \<open>
  The byte streams under the protocol. \<^verbatim>\<open>conn\<close> (conn.go) frames payloads with a two-byte
  length over a \<^verbatim>\<open>net.Conn\<close>, refreshes deadlines and refuses work once closed; \<^verbatim>\<open>Framing\<close>
  (pkg/relayconn/framing.go) is the relay's version of the same wire format. A socket is the
  bytes still to be read with the error that follows them, the bytes written so far, and a
  plan of how the next writes behave (a write may accept only part of its argument).
\<close>

subsection \<open>Sockets\<close>

datatype net_error = EOF | UnexpectedEOF | DeadlineExceeded | NetErr string

datatype write_step = Accepts nat | Fails net_error

record sock =
  sock_in :: bytes
  sock_end :: net_error
  sock_out :: bytes
  sock_plan :: "write_step list"
  sock_read_deadline :: gotime
  sock_write_deadline :: gotime
  sock_deadline_error :: "net_error option"
  sock_closed :: bool

text \<open>\<^verbatim>\<open>io.ReadFull\<close>: all \<open>n\<close> bytes, or the error, \<^verbatim>\<open>ErrUnexpectedEOF\<close> after a partial read.\<close>

definition read_full :: "nat \<Rightarrow> sock \<Rightarrow> sock \<times> (net_error + bytes)" where
  "read_full n s =
     (if n \<le> length (sock_in s)
      then (s\<lparr>sock_in := drop n (sock_in s)\<rparr>, Inr (take n (sock_in s)))
      else (s\<lparr>sock_in := []\<rparr>,
            Inl (if sock_in s \<noteq> [] \<and> sock_end s = EOF then UnexpectedEOF else sock_end s)))"

text \<open>\<^verbatim>\<open>net.Conn.Write\<close>: the number of bytes accepted, or an error.\<close>

definition sock_write :: "bytes \<Rightarrow> sock \<Rightarrow> sock \<times> (net_error + nat)" where
  "sock_write d s =
     (case sock_plan s of
        [] \<Rightarrow> (s\<lparr>sock_out := sock_out s @ d\<rparr>, Inr (length d))
      | Accepts n # p \<Rightarrow>
          (s\<lparr>sock_plan := p, sock_out := sock_out s @ take n d\<rparr>, Inr (min n (length d)))
      | Fails e # p \<Rightarrow> (s\<lparr>sock_plan := p\<rparr>, Inl e))"

subsection \<open>conn: the protocol's connection\<close>

datatype conn_error = ErrConnClosed | ErrMessageTooLarge | ErrShortWrite | ErrNet net_error

record conn =
  currentReadDeadline :: gotime
  currentWriteDeadline :: gotime
  conn_sock :: sock
  readDeadline :: duration
  writeDeadline :: duration
  conn_closed :: bool

datatype conn_option = ConnWithReadTimeout duration | ConnWithWriteTimeout duration

fun apply_conn_option :: "conn_option \<Rightarrow> conn \<Rightarrow> conn" where
  "apply_conn_option (ConnWithReadTimeout d) c = c\<lparr>readDeadline := d\<rparr>"
| "apply_conn_option (ConnWithWriteTimeout d) c = c\<lparr>writeDeadline := d\<rparr>"

definition newConn :: "sock \<Rightarrow> conn_option list \<Rightarrow> conn" where
  "newConn s opts = fold apply_conn_option opts
     \<lparr>currentReadDeadline = zero_time, currentWriteDeadline = zero_time, conn_sock = s,
      readDeadline = 300 * second, writeDeadline = 60 * second, conn_closed = False\<rparr>"

definition conn_Close :: "conn \<Rightarrow> conn \<times> (conn_error + unit)" where
  "conn_Close c =
     (if conn_closed c then (c, Inl ErrConnClosed)
      else (c\<lparr>conn_closed := True, conn_sock := (conn_sock c)\<lparr>sock_closed := True\<rparr>\<rparr>, Inr ()))"

text \<open>The two clock readings of one check are taken at the same instant.\<close>

definition checkReadDeadlineLocked :: "gotime \<Rightarrow> duration \<Rightarrow> conn \<Rightarrow> conn \<times> (conn_error + unit)" where
  "checkReadDeadlineLocked now deadline c =
     (if conn_closed c then (c, Inl ErrConnClosed)
      else if deadline \<le> 0 then
        (case sock_deadline_error (conn_sock c) of
           Some e \<Rightarrow> (c, Inl (ErrNet e))
         | None \<Rightarrow> (c\<lparr>conn_sock := (conn_sock c)\<lparr>sock_read_deadline := zero_time\<rparr>,
                      currentReadDeadline := zero_time\<rparr>, Inr ()))
      else let newDeadline = now + deadline in
        if currentReadDeadline c \<noteq> zero_time \<and> \<not> currentReadDeadline c < now
           \<and> currentReadDeadline c < newDeadline
        then (c, Inr ())
        else (case sock_deadline_error (conn_sock c) of
           Some e \<Rightarrow> (c, Inl (ErrNet e))
         | None \<Rightarrow> (c\<lparr>conn_sock := (conn_sock c)\<lparr>sock_read_deadline := newDeadline\<rparr>,
                      currentReadDeadline := newDeadline\<rparr>, Inr ())))"

definition checkWriteDeadlineLocked :: "gotime \<Rightarrow> duration \<Rightarrow> conn \<Rightarrow> conn \<times> (conn_error + unit)" where
  "checkWriteDeadlineLocked now deadline c =
     (if conn_closed c then (c, Inl ErrConnClosed)
      else if deadline \<le> 0 then
        (case sock_deadline_error (conn_sock c) of
           Some e \<Rightarrow> (c, Inl (ErrNet e))
         | None \<Rightarrow> (c\<lparr>conn_sock := (conn_sock c)\<lparr>sock_write_deadline := zero_time\<rparr>,
                      currentWriteDeadline := zero_time\<rparr>, Inr ()))
      else let newDeadline = now + deadline in
        if currentWriteDeadline c \<noteq> zero_time \<and> \<not> currentWriteDeadline c < now
           \<and> currentWriteDeadline c < newDeadline
        then (c, Inr ())
        else (case sock_deadline_error (conn_sock c) of
           Some e \<Rightarrow> (c, Inl (ErrNet e))
         | None \<Rightarrow> (c\<lparr>conn_sock := (conn_sock c)\<lparr>sock_write_deadline := newDeadline\<rparr>,
                      currentWriteDeadline := newDeadline\<rparr>, Inr ())))"

definition readLenLocked :: "gotime \<Rightarrow> conn \<Rightarrow> conn \<times> (conn_error + 16 word)" where
  "readLenLocked now c =
     (case checkReadDeadlineLocked now (readDeadline c) c of
        (c1, Inl e) \<Rightarrow> (c1, Inl e)
      | (c1, Inr _) \<Rightarrow>
          (case read_full 2 (conn_sock c1) of
             (s, Inl e) \<Rightarrow> (c1\<lparr>conn_sock := s\<rparr>, Inl (ErrNet e))
           | (s, Inr lenBuf) \<Rightarrow> (c1\<lparr>conn_sock := s\<rparr>, Inr (get_uint16 lenBuf))))"

definition ReadBytes :: "gotime \<Rightarrow> conn \<Rightarrow> conn \<times> (conn_error + bytes)" where
  "ReadBytes now c =
     (case readLenLocked now c of
        (c1, Inl e) \<Rightarrow> (c1, Inl e)
      | (c1, Inr l) \<Rightarrow>
          (case read_full (unat l) (conn_sock c1) of
             (s, Inl e) \<Rightarrow> (c1\<lparr>conn_sock := s\<rparr>, Inl (ErrNet e))
           | (s, Inr buf) \<Rightarrow> (c1\<lparr>conn_sock := s\<rparr>, Inr buf)))"

text \<open>
  The write loop of \<^verbatim>\<open>writeLenLocked\<close> and \<^verbatim>\<open>WriteBytes\<close>: go on with what the last write left,
  stop at an error or when a write accepts nothing. Each round consumes a step of the plan.
\<close>

function write_loop :: "bytes \<Rightarrow> sock \<Rightarrow> sock \<times> (conn_error + unit)" where
  "write_loop d s =
     (if d = [] then (s, Inr ())
      else case sock_write d s of
             (s1, Inl e) \<Rightarrow> (s1, Inl (ErrNet e))
           | (s1, Inr n) \<Rightarrow>
               if n = 0 then (s1, Inl ErrShortWrite) else write_loop (drop n d) s1)"
  by pat_completeness auto
termination
  by (relation "measure (\<lambda>(d, s). length d)") auto

declare write_loop.simps [simp del]

definition writeLenLocked :: "gotime \<Rightarrow> bytes \<Rightarrow> conn \<Rightarrow> conn \<times> (conn_error + 16 word)" where
  "writeLenLocked now data c =
     (case checkWriteDeadlineLocked now (writeDeadline c) c of
        (c1, Inl e) \<Rightarrow> (c1, Inl e)
      | (c1, Inr _) \<Rightarrow>
          if length data > 65535 then (c1, Inl ErrMessageTooLarge)
          else let msgLen = of_nat (length data) in
            (case write_loop (put_uint16 msgLen) (conn_sock c1) of
               (s, Inl e) \<Rightarrow> (c1\<lparr>conn_sock := s\<rparr>, Inl e)
             | (s, Inr _) \<Rightarrow> (c1\<lparr>conn_sock := s\<rparr>, Inr msgLen)))"

definition WriteBytes :: "gotime \<Rightarrow> bytes \<Rightarrow> conn \<Rightarrow> conn \<times> (conn_error + unit)" where
  "WriteBytes now data c =
     (case writeLenLocked now data c of
        (c1, Inl e) \<Rightarrow> (c1, Inl e)
      | (c1, Inr _) \<Rightarrow>
          (case checkWriteDeadlineLocked now (writeDeadline c1) c1 of
             (c2, Inl e) \<Rightarrow> (c2, Inl e)
           | (c2, Inr _) \<Rightarrow>
               (case write_loop data (conn_sock c2) of
                  (s, r) \<Rightarrow> (c2\<lparr>conn_sock := s\<rparr>, r))))"

definition conn_SetDeadline :: "gotime \<Rightarrow> conn \<Rightarrow> conn \<times> (conn_error + unit)" where
  "conn_SetDeadline t c =
     (let c1 = c\<lparr>currentReadDeadline := t, currentWriteDeadline := t\<rparr> in
      case sock_deadline_error (conn_sock c1) of
        Some e \<Rightarrow> (c1, Inl (ErrNet e))
      | None \<Rightarrow> (c1\<lparr>conn_sock := (conn_sock c1)\<lparr>sock_read_deadline := t,
                                                     sock_write_deadline := t\<rparr>\<rparr>, Inr ()))"

definition conn_SetReadDeadline :: "gotime \<Rightarrow> conn \<Rightarrow> conn \<times> (conn_error + unit)" where
  "conn_SetReadDeadline t c =
     (let c1 = c\<lparr>currentReadDeadline := t\<rparr> in
      case sock_deadline_error (conn_sock c1) of
        Some e \<Rightarrow> (c1, Inl (ErrNet e))
      | None \<Rightarrow> (c1\<lparr>conn_sock := (conn_sock c1)\<lparr>sock_read_deadline := t\<rparr>\<rparr>, Inr ()))"

definition conn_SetWriteDeadline :: "gotime \<Rightarrow> conn \<Rightarrow> conn \<times> (conn_error + unit)" where
  "conn_SetWriteDeadline t c =
     (let c1 = c\<lparr>currentWriteDeadline := t\<rparr> in
      case sock_deadline_error (conn_sock c1) of
        Some e \<Rightarrow> (c1, Inl (ErrNet e))
      | None \<Rightarrow> (c1\<lparr>conn_sock := (conn_sock c1)\<lparr>sock_write_deadline := t\<rparr>\<rparr>, Inr ()))"

subsection \<open>Framing: the relay's length-prefixed wire format\<close>

datatype frame_error = ReadLength net_error | ReadData net_error | FrameTooLarge nat
  | WriteLength net_error | WriteData net_error

record framing =
  framing_rw :: sock
  maxSize :: nat

definition NewFraming :: "sock \<Rightarrow> nat \<Rightarrow> framing" where
  "NewFraming rw m = \<lparr>framing_rw = rw, maxSize = m\<rparr>"

definition Framing_ReadBytes :: "framing \<Rightarrow> framing \<times> (frame_error + bytes)" where
  "Framing_ReadBytes f =
     (case read_full 2 (framing_rw f) of
        (s, Inl e) \<Rightarrow> (f\<lparr>framing_rw := s\<rparr>, Inl (ReadLength e))
      | (s, Inr lenBuf) \<Rightarrow>
          let l = unat (get_uint16 lenBuf) in
          if maxSize f > 0 \<and> l > maxSize f then (f\<lparr>framing_rw := s\<rparr>, Inl (FrameTooLarge l))
          else (case read_full l s of
                  (s', Inl e) \<Rightarrow> (f\<lparr>framing_rw := s'\<rparr>, Inl (ReadData e))
                | (s', Inr d) \<Rightarrow> (f\<lparr>framing_rw := s'\<rparr>, Inr d)))"

definition Framing_WriteBytes :: "bytes \<Rightarrow> framing \<Rightarrow> framing \<times> (frame_error + unit)" where
  "Framing_WriteBytes data f =
     (case sock_write (put_uint16 (of_nat (length data))) (framing_rw f) of
        (s, Inl e) \<Rightarrow> (f\<lparr>framing_rw := s\<rparr>, Inl (WriteLength e))
      | (s, Inr _) \<Rightarrow>
          (case sock_write data s of
             (s', Inl e) \<Rightarrow> (f\<lparr>framing_rw := s'\<rparr>, Inl (WriteData e))
           | (s', Inr _) \<Rightarrow> (f\<lparr>framing_rw := s'\<rparr>, Inr ())))"

definition Framing_Close :: "framing \<Rightarrow> framing" where
  "Framing_Close f = f\<lparr>framing_rw := (framing_rw f)\<lparr>sock_closed := True\<rparr>\<rparr>"

definition Framing_SetDeadline :: "gotime \<Rightarrow> framing \<Rightarrow> framing \<times> (net_error + unit)" where
  "Framing_SetDeadline t f =
     (case sock_deadline_error (framing_rw f) of
        Some e \<Rightarrow> (f, Inl e)
      | None \<Rightarrow> (f\<lparr>framing_rw := (framing_rw f)\<lparr>sock_read_deadline := t,
                                                 sock_write_deadline := t\<rparr>\<rparr>, Inr ()))"

text \<open>The upper bound a relay client passes to \<^verbatim>\<open>NewFraming\<close> (pkg/relayconn/transport.go).\<close>

definition DefaultMaxFrameSize :: nat where
  "DefaultMaxFrameSize = 65536"

subsection \<open>Reading and writing through views of the byte stream\<close>

text \<open>
  The view a reader has of its input: \<open>conn_decode\<close> reads one frame off a byte string through
  \<^verbatim>\<open>ReadBytes\<close> of a new connection, \<open>conn_encode\<close> is what \<^verbatim>\<open>WriteBytes\<close> puts on the wire when
  it succeeds. \<open>framing_decode\<close> and \<open>framing_encode\<close> are the same views of \<^verbatim>\<open>Framing\<close>.
\<close>

definition idle_sock :: "bytes \<Rightarrow> sock" where
  "idle_sock bs = \<lparr>sock_in = bs, sock_end = EOF, sock_out = [], sock_plan = [],
     sock_read_deadline = zero_time, sock_write_deadline = zero_time,
     sock_deadline_error = None, sock_closed = False\<rparr>"



definition framing_decode :: "nat \<Rightarrow> bytes \<Rightarrow> (bytes \<times> bytes) option" where
  "framing_decode m bs =
     (case Framing_ReadBytes (NewFraming (idle_sock bs) m) of
        (f, Inl e) \<Rightarrow> None
      | (f, Inr p) \<Rightarrow> Some (p, sock_in (framing_rw f)))"

definition framing_encode :: "bytes \<Rightarrow> bytes option" where
  "framing_encode p =
     (case Framing_WriteBytes p (NewFraming (idle_sock []) 0) of
        (f, Inl e) \<Rightarrow> None
      | (f, Inr _) \<Rightarrow> Some (sock_out (framing_rw f)))"

text \<open>Reading \<open>n\<close> frames one after the other.\<close>

fun read_frames :: "(bytes \<Rightarrow> (bytes \<times> bytes) option) \<Rightarrow> nat \<Rightarrow> bytes \<Rightarrow> (bytes list \<times> bytes) option" where
  "read_frames dec 0 bs = Some ([], bs)"
| "read_frames dec (Suc n) bs =
     (case dec bs of
        None \<Rightarrow> None
      | Some (p, rest) \<Rightarrow> map_option (\<lambda>(ps, r). (p # ps, r)) (read_frames dec n rest))"

text \<open>
  The contract of a framed byte stream: whatever a writer put out for a payload it accepted,
  the reader takes off as that payload, leaving exactly the bytes behind it.
\<close>

locale frame_stream =
  fixes enc :: "bytes \<Rightarrow> bytes option"
    and dec :: "bytes \<Rightarrow> (bytes \<times> bytes) option"
    and fits :: "bytes \<Rightarrow> bool"
  assumes enc_fits: "fits p \<Longrightarrow> \<exists>f. enc p = Some f"
    and dec_enc: "fits p \<Longrightarrow> enc p = Some f \<Longrightarrow> dec (f @ rest) = Some (p, rest)"
begin

lemma frames_in_order:
  "list_all fits ps \<Longrightarrow> read_frames dec (length ps) (concat (map (the \<circ> enc) ps) @ rest) = Some (ps, rest)"
proof (induction ps)
  case Nil
  then show ?case by simp
next
  case (Cons p ps)
  then obtain f where "enc p = Some f" using enc_fits by auto
  with Cons.prems have "dec (f @ r) = Some (p, r)" for r
    by (simp add: dec_enc)
  with \<open>enc p = Some f\<close> Cons show ?case by simp
qed

lemma frames_unique:
  "fits p \<Longrightarrow> fits q \<Longrightarrow> enc p = enc q \<Longrightarrow> p = q"
  using enc_fits [of p] dec_enc [of p _ "[]"] dec_enc [of q _ "[]"] by auto

end

subsection \<open>Facts about sockets and the write loop\<close>

named_theorems frame_simps \<open>definitions of the framing operations\<close>

lemmas conn_defs [frame_simps] =
  newConn_def checkReadDeadlineLocked_def checkWriteDeadlineLocked_def readLenLocked_def
  ReadBytes_def writeLenLocked_def WriteBytes_def

lemmas framing_defs [frame_simps] =
  NewFraming_def Framing_ReadBytes_def Framing_WriteBytes_def

definition productive :: "write_step list \<Rightarrow> bool" where
  "productive plan = list_all (\<lambda>w. case w of Accepts n \<Rightarrow> n > 0 | Fails _ \<Rightarrow> False) plan"

lemma unat_of_nat16: "n \<le> 65535 \<Longrightarrow> unat (of_nat n :: 16 word) = n"
  by (simp add: unat_of_nat)

lemma write_loop_Nil [simp]: "write_loop [] s = (s, Inr ())"
  by (simp add: write_loop.simps)

lemma write_loop_Cons:
  "write_loop (x # xs) s =
     (case sock_write (x # xs) s of
        (s1, Inl e) \<Rightarrow> (s1, Inl (ErrNet e))
      | (s1, Inr n) \<Rightarrow>
          if n = 0 then (s1, Inl ErrShortWrite) else write_loop (drop n (x # xs)) s1)"
  by (subst write_loop.simps) simp


text \<open>Short writes never lose, repeat or reorder bytes, and a plan that makes progress ends in success.\<close>

lemma write_loop_prefix:
  "write_loop d s = (s', r) \<Longrightarrow>
     \<exists>n. sock_out s' = sock_out s @ take n d \<and> (r = Inr () \<longleftrightarrow> n \<ge> length d) \<and>
         sock_in s' = sock_in s \<and> sock_deadline_error s' = sock_deadline_error s"
proof (induction d s arbitrary: s' r rule: write_loop.induct)
  case (1 d s)
  show ?case
  proof (cases "d = []")
    case True
    with "1.prems" show ?thesis by auto
  next
    case ne: False
    obtain s1 w where w: "sock_write d s = (s1, w)" by fastforce
    show ?thesis
    proof (cases w)
      case (Inl e)
      with "1.prems" ne w show ?thesis
        by (intro exI [of _ 0])
          (auto simp: write_loop.simps [of d s] sock_write_def split: list.splits write_step.splits)
    next
      case (Inr n)
      show ?thesis
      proof (cases "n = 0")
        case True
        with "1.prems" ne w Inr show ?thesis
          by (intro exI [of _ 0])
            (auto simp: write_loop.simps [of d s] sock_write_def min_def
              split: list.splits write_step.splits if_splits)
      next
        case False
        from "1.prems" ne w Inr False have "write_loop (drop n d) s1 = (s', r)"
          by (simp add: write_loop.simps [of d s])
        from "1.IH" [OF ne w [symmetric] Inr False this] obtain m where
          m: "sock_out s' = sock_out s1 @ take m (drop n d)" "r = Inr () \<longleftrightarrow> m \<ge> length (drop n d)"
            "sock_in s' = sock_in s1" "sock_deadline_error s' = sock_deadline_error s1" by blast
        have s1: "sock_out s1 = sock_out s @ take n d" "n \<le> length d" "sock_in s1 = sock_in s"
          "sock_deadline_error s1 = sock_deadline_error s"
          using w Inr by (auto simp: sock_write_def min_def split: list.splits write_step.splits if_splits)
        have "sock_out s' = sock_out s @ take (n + m) d"
          using m(1) s1(1) by (simp add: take_add)
        moreover have "r = Inr () \<longleftrightarrow> n + m \<ge> length d"
          using m(2) s1(2) by (simp add: le_diff_conv add.commute)
        ultimately show ?thesis using m(3,4) s1(3,4) by auto
      qed
    qed
  qed
qed

lemma sock_write_productive:
  assumes "productive (sock_plan s)" "d \<noteq> []"
  shows "\<exists>s1 n. sock_write d s = (s1, Inr n) \<and> n \<noteq> 0 \<and> productive (sock_plan s1)"
proof (cases "sock_plan s")
  case Nil
  with assms show ?thesis by (simp add: sock_write_def productive_def)
next
  case (Cons w p)
  with assms show ?thesis by (cases w) (simp_all add: sock_write_def productive_def)
qed

lemma write_loop_productive:
  "productive (sock_plan s) \<Longrightarrow> snd (write_loop d s) = Inr ()"
proof (induction d s rule: write_loop.induct)
  case (1 d s)
  show ?case
  proof (cases "d = []")
    case True
    then show ?thesis by simp
  next
    case False
    with "1.prems" obtain s1 n where
      w: "sock_write d s = (s1, Inr n)" "n \<noteq> 0" "productive (sock_plan s1)"
      using sock_write_productive by blast
    have "snd (write_loop (drop n d) s1) = Inr ()"
      using "1.IH" [OF False w(1) [symmetric] refl w(2) w(3)] .
    with w False show ?thesis
      by (simp add: write_loop.simps [of d s])
  qed
qed

subsection \<open>Round trips of the two framings\<close>


lemma idle_sock_simps [simp]:
  "sock_in (idle_sock bs) = bs" "sock_out (idle_sock bs) = []" "sock_plan (idle_sock bs) = []"
  "sock_deadline_error (idle_sock bs) = None"
  by (simp_all add: idle_sock_def)




lemma framing_encode_eq: "framing_encode p = Some (put_uint16 (of_nat (length p)) @ p)"
  by (simp add: framing_encode_def frame_simps sock_write_def)

lemma framing_decode_prefixed:
  "unat l \<le> length ds \<Longrightarrow> m = 0 \<or> unat l \<le> m \<Longrightarrow>
     framing_decode m (put_uint16 l @ ds) = Some (take (unat l) ds, drop (unat l) ds)"
  by (auto simp: framing_decode_def frame_simps read_full_def Let_def)

lemma framing_decode_frame:
  "length p \<le> 65535 \<Longrightarrow> m = 0 \<or> length p \<le> m \<Longrightarrow>
     framing_decode m (put_uint16 (of_nat (length p)) @ p @ rest) = Some (p, rest)"
  by (subst framing_decode_prefixed) (simp_all add: unat_of_nat16)

interpretation kr: frame_stream framing_encode "framing_decode m"
    "\<lambda>p. length p \<le> 65535 \<and> (m = 0 \<or> length p \<le> m)" for m :: nat
  by unfold_locales (auto simp: framing_encode_eq framing_decode_frame)

lemma checkWriteDeadline_frame:
  "checkWriteDeadlineLocked now d c = (c', r) \<Longrightarrow>
     sock_out (conn_sock c') = sock_out (conn_sock c) \<and> sock_plan (conn_sock c') = sock_plan (conn_sock c)
     \<and> sock_in (conn_sock c') = sock_in (conn_sock c)"
  by (auto simp: checkWriteDeadlineLocked_def Let_def split: if_splits option.splits)

lemma writeLenLocked_prefix:
  assumes "writeLenLocked now p c = (c', r)"
  shows "\<exists>n. sock_out (conn_sock c') = sock_out (conn_sock c) @ take n (put_uint16 (of_nat (length p)))
     \<and> (case r of Inl e \<Rightarrow> n < 2 | Inr l \<Rightarrow> n = 2 \<and> length p \<le> 65535)
     \<and> (length p > 65535 \<longrightarrow> n = 0)"
proof -
  obtain c1 r1 where c1: "checkWriteDeadlineLocked now (writeDeadline c) c = (c1, r1)" by fastforce
  note out = checkWriteDeadline_frame [OF c1]
  show ?thesis
  proof (cases "(\<exists>e. r1 = Inl e) \<or> length p > 65535")
    case True
    with assms c1 out show ?thesis
      by (intro exI [of _ 0]) (auto simp: writeLenLocked_def split: sum.splits if_splits)
  next
    case False
    obtain s w where w: "write_loop (put_uint16 (of_nat (length p))) (conn_sock c1) = (s, w)"
      by fastforce
    from write_loop_prefix [OF w] obtain n where
      n: "sock_out s = sock_out (conn_sock c1) @ take n (put_uint16 (of_nat (length p)))"
        "w = Inr () \<longleftrightarrow> n \<ge> 2" by auto
    from False assms c1 w have r: "c' = c1\<lparr>conn_sock := s\<rparr>"
      "r = (case w of Inl e \<Rightarrow> Inl e | Inr _ \<Rightarrow> Inr (of_nat (length p)))"
      by (auto simp: writeLenLocked_def Let_def split: sum.splits)
    show ?thesis
      using n r out False
      by (intro exI [of _ "min n 2"]) (auto simp: min_def not_less split: sum.splits)
  qed
qed

subsection \<open>Properties\<close>



text \<open>Whatever the socket does with the individual writes, \<^verbatim>\<open>conn.WriteBytes\<close> puts a prefix
  of the frame on the wire, never other bytes; success means that the whole
  frame is out, a non-empty payload that is out in full is reported as success, and a payload above the two-byte limit is refused before a single byte is written.\<close>

theorem WriteBytes_prefix_or_whole:
  assumes "WriteBytes now p c = (c', r)"
  shows "(\<exists>n. sock_out (conn_sock c') =
            sock_out (conn_sock c) @ take n (put_uint16 (of_nat (length p)) @ p)
          \<and> (r = Inr () \<longrightarrow> n \<ge> 2 + length p) \<and> (p \<noteq> [] \<and> n \<ge> 2 + length p \<longrightarrow> r = Inr ()))
       \<and> (length p > 65535 \<longrightarrow> r \<noteq> Inr () \<and> sock_out (conn_sock c') = sock_out (conn_sock c))"
proof -
  let ?pre = "put_uint16 (of_nat (length p))"
  obtain c1 r1 where l: "writeLenLocked now p c = (c1, r1)" by fastforce
  from writeLenLocked_prefix [OF l] obtain k where
    k: "sock_out (conn_sock c1) = sock_out (conn_sock c) @ take k ?pre"
      "case r1 of Inl e \<Rightarrow> k < 2 | Inr l \<Rightarrow> k = 2 \<and> length p \<le> 65535" "length p > 65535 \<longrightarrow> k = 0"
    by blast
  show ?thesis
  proof (cases r1)
    case (Inl e)
    with assms l have "c' = c1" "r = Inl e" by (simp_all add: WriteBytes_def)
    with k Inl show ?thesis by (auto intro!: exI [of _ k])
  next
    case (Inr m)
    obtain c2 r2 where c2: "checkWriteDeadlineLocked now (writeDeadline c1) c1 = (c2, r2)" by fastforce
    note out = checkWriteDeadline_frame [OF c2]
    obtain s w where w: "write_loop p (conn_sock c2) = (s, w)" by fastforce
    from write_loop_prefix [OF w] obtain n where
      n: "sock_out s = sock_out (conn_sock c2) @ take n p" "w = Inr () \<longleftrightarrow> n \<ge> length p" by auto
    show ?thesis
    proof (cases r2)
      case (Inl e)
      with assms l Inr c2 have "c' = c2" "r = Inl e" by (simp_all add: WriteBytes_def)
      with k \<open>r1 = Inr m\<close> out show ?thesis by (auto intro!: exI [of _ "2::nat"])
    next
      case (Inr u)
      with assms l \<open>r1 = Inr m\<close> c2 w have "c' = c2\<lparr>conn_sock := s\<rparr>" "r = w"
        by (simp_all add: WriteBytes_def)
      with k n out \<open>r1 = Inr m\<close> show ?thesis by (auto intro!: exI [of _ "2 + n"])
    qed
  qed
qed

theorem WriteBytes_prefix_or_whole_witness:
  "\<exists>n < 5. sock_out (conn_sock (fst (WriteBytes 0 [7, 8, 9]
     (newConn (idle_sock []\<lparr>sock_plan := [Accepts 2, Accepts 1, Accepts 0]\<rparr>) [])))) = take n [0, 3, 7, 8, 9]"
proof -
  let ?c = "newConn (idle_sock []\<lparr>sock_plan := [Accepts 2, Accepts 1, Accepts 0]\<rparr>) []"
  let ?w = "WriteBytes 0 [7, 8, 9] ?c"
  have pre: "put_uint16 3 = [0, 3]" by (simp add: put_uint16_def be_put_2)
  have r: "snd ?w = Inl ErrShortWrite"
    by (simp add: frame_simps idle_sock_def second_def zero_time_def Let_def pre
        write_loop_Cons sock_write_def)
  have out: "sock_out (conn_sock ?c) = []" by (simp add: newConn_def idle_sock_def)
  have "?w = (fst ?w, snd ?w)" by simp
  from WriteBytes_prefix_or_whole [OF this] show ?thesis
    unfolding r out by (auto simp: not_le pre)
qed

subsection \<open>Closing and deadlines\<close>

text \<open>Once a connection is closed, every later read, write or close reports
  \<^verbatim>\<open>ErrConnClosed\<close> and changes nothing; closing an open connection closes its socket.\<close>

theorem conn_closed_is_final:
  assumes "conn_Close c = (c', r)"
  shows "conn_closed c' \<and> ReadBytes now c' = (c', Inl ErrConnClosed)
     \<and> WriteBytes now p c' = (c', Inl ErrConnClosed) \<and> conn_Close c' = (c', Inl ErrConnClosed)
     \<and> (\<not> conn_closed c \<longrightarrow> r = Inr () \<and> sock_closed (conn_sock c'))"
  using assms
  by (auto simp: conn_Close_def conn_defs split: if_splits)

theorem conn_closed_is_final_witness:
  "ReadBytes 3 (fst (conn_Close (newConn (idle_sock [0, 1, 5]) [])))
     = (fst (conn_Close (newConn (idle_sock [0, 1, 5]) [])), Inl ErrConnClosed)"
  using conn_closed_is_final [OF prod.collapse [symmetric]] by blast

text \<open>The two records of a deadline, ours and the socket's, agree; the operations keep that.\<close>

definition deadlines_agree :: "conn \<Rightarrow> bool" where
  "deadlines_agree c \<longleftrightarrow>
     currentReadDeadline c = sock_read_deadline (conn_sock c) \<and>
     currentWriteDeadline c = sock_write_deadline (conn_sock c)"

text \<open>On an open connection with a positive timeout, a successful deadline check leaves the
  socket with a read deadline in the window from now to now plus the timeout: a fresh one when none
  was set or the old one has passed, otherwise the earlier of the old and the fresh one.\<close>

theorem read_deadline_window:
  assumes "deadlines_agree c" and "\<not> conn_closed c" and "0 < d"
    and "sock_deadline_error (conn_sock c) = None"
    and "checkReadDeadlineLocked now d c = (c', r)"
  shows "r = Inr () \<and> deadlines_agree c' \<and>
     sock_read_deadline (conn_sock c') =
       (if currentReadDeadline c = zero_time \<or> currentReadDeadline c < now then now + d
        else min (currentReadDeadline c) (now + d)) \<and>
     now \<le> sock_read_deadline (conn_sock c') \<and> sock_read_deadline (conn_sock c') \<le> now + d"
  using assms
  by (auto simp: checkReadDeadlineLocked_def deadlines_agree_def Let_def min_def split: if_splits)

theorem read_deadline_window_witness:
  "sock_read_deadline (conn_sock (fst (checkReadDeadlineLocked (299 * second) (300 * second)
     (fst (checkReadDeadlineLocked 0 (300 * second) (newConn (idle_sock []) [])))))) = 300 * second"
proof -
  let ?c0 = "newConn (idle_sock []) []"
  let ?c1 = "fst (checkReadDeadlineLocked 0 (300 * second) ?c0)"
  have c0: "deadlines_agree ?c0" "\<not> conn_closed ?c0" "sock_deadline_error (conn_sock ?c0) = None"
    by (simp_all add: newConn_def deadlines_agree_def idle_sock_def)
  have c1: "\<not> conn_closed ?c1" "sock_deadline_error (conn_sock ?c1) = None"
    "currentReadDeadline ?c1 = 300 * second"
    by (simp_all add: newConn_def checkReadDeadlineLocked_def idle_sock_def second_def zero_time_def Let_def)
  have s: "0 < 300 * second" "300 * second \<noteq> zero_time" "\<not> 300 * second < 299 * second"
    by (simp_all add: second_def zero_time_def)
  have "deadlines_agree ?c1"
    using read_deadline_window [OF c0(1,2) s(1) c0(3) prod.collapse [symmetric]] by blast
  from read_deadline_window [OF this c1(1) s(1) c1(2) prod.collapse [symmetric], of "299 * second"]
  show ?thesis using s unfolding c1(3) by (auto simp: min_def second_def)
qed

subsection \<open>The relay's framing\<close>

text \<open>Frames of at most 65535 bytes (and within the reader's limit) that a relay endpoint
  writes with \<^verbatim>\<open>Framing.WriteBytes\<close> are read back in order and unchanged.\<close>

theorem framing_frames_in_order:
  "list_all (\<lambda>p. length p \<le> 65535 \<and> (m = 0 \<or> length p \<le> m)) ps \<Longrightarrow>
     read_frames (framing_decode m) (length ps) (concat (map (the \<circ> framing_encode) ps) @ rest)
       = Some (ps, rest)"
  by (rule kr.frames_in_order)

theorem framing_frames_in_order_witness:
  "read_frames (framing_decode 4) (length [[1, 2], [3 :: byte]])
     (concat (map (the \<circ> framing_encode) [[1, 2], [3]]) @ [9]) = Some ([[1, 2], [3]], [9])"
  by (rule framing_frames_in_order) simp

text \<open>\<^verbatim>\<open>Framing.WriteBytes\<close> does not bound the payload: one of more than 65535 bytes is
  written without an error under its length modulo 65536, so the reader takes a truncated payload
  for the frame and finds the remaining bytes where the next length should be.\<close>

theorem framing_length_wraps:
  assumes "65535 < length p"
  shows "\<exists>f. framing_encode p = Some f \<and>
     framing_decode 0 (f @ rest) =
       Some (take (length p mod 65536) p, drop (length p mod 65536) p @ rest) \<and>
     length (take (length p mod 65536) p) < length p"
proof -
  have l: "unat (of_nat (length p) :: 16 word) = length p mod 65536"
    by (simp add: unat_of_nat)
  have le: "length p mod 65536 < length p"
    using assms mod_less_divisor [of 65536 "length p"] by linarith
  have "framing_decode 0 (put_uint16 (of_nat (length p)) @ p @ rest) =
      Some (take (length p mod 65536) p, drop (length p mod 65536) p @ rest)"
    using le by (subst framing_decode_prefixed) (simp_all add: l)
  with le show ?thesis by (simp add: framing_encode_eq)
qed

theorem framing_length_wraps_witness:
  "\<exists>f. framing_encode (replicate 65538 1) = Some f \<and>
     framing_decode 0 (f @ []) = Some (take 2 (replicate 65538 1), drop 2 (replicate 65538 1))"
  using framing_length_wraps [of "replicate 65538 1" "[]"] by (auto simp del: replicate.simps)

end
