(* ===== verification/Routes.thy ===== *)
theory Routes
  imports Prelude
begin

text \<open>
  Route identifiers (routes.go) and their protobuf enumeration (internal/box/pb/box.pb.go). Both
  are open 32-bit enumerations: a value that no constant names can arrive from the wire, so a route
  is an integer and each \<^verbatim>\<open>switch\<close> keeps its default.
\<close>

type_synonym route = int
type_synonym pb_route = int

definition RouteInvalid :: route where "RouteInvalid = 0"
definition RouteIdentity :: route where "RouteIdentity = 1"
definition RouteRequestHandshake :: route where "RouteRequestHandshake = 2"
definition RouteAcceptHandshake :: route where "RouteAcceptHandshake = 3"
definition RouteFinalizeHandshake :: route where "RouteFinalizeHandshake = 4"
definition RouteSendChallenge :: route where "RouteSendChallenge = 5"
definition RouteVerifyChallenge :: route where "RouteVerifyChallenge = 6"
definition RouteExchangeMessages :: route where "RouteExchangeMessages = 7"
definition RouteCloseTransport :: route where "RouteCloseTransport = 8"
definition RoutePing :: route where "RoutePing = 9"
definition RoutePong :: route where "RoutePong = 10"
definition RouteResumeRequest :: route where "RouteResumeRequest = 11"
definition RouteResumeAccept :: route where "RouteResumeAccept = 12"
definition RouteSessionData :: route where "RouteSessionData = 13"

definition ROUTE_INVALID :: pb_route where "ROUTE_INVALID = 0"
definition ROUTE_IDENTITY :: pb_route where "ROUTE_IDENTITY = 1"
definition ROUTE_REQUEST_HANDSHAKE :: pb_route where "ROUTE_REQUEST_HANDSHAKE = 2"
definition ROUTE_ACCEPT_HANDSHAKE :: pb_route where "ROUTE_ACCEPT_HANDSHAKE = 3"
definition ROUTE_FINALIZE_HANDSHAKE :: pb_route where "ROUTE_FINALIZE_HANDSHAKE = 4"
definition ROUTE_SEND_CHALLENGE :: pb_route where "ROUTE_SEND_CHALLENGE = 5"
definition ROUTE_VERIFY_CHALLENGE :: pb_route where "ROUTE_VERIFY_CHALLENGE = 6"
definition ROUTE_EXCHANGE_MESSAGES :: pb_route where "ROUTE_EXCHANGE_MESSAGES = 7"
definition ROUTE_CLOSE_TRANSPORT :: pb_route where "ROUTE_CLOSE_TRANSPORT = 8"
definition ROUTE_PING :: pb_route where "ROUTE_PING = 9"
definition ROUTE_PONG :: pb_route where "ROUTE_PONG = 10"
definition ROUTE_RESUME_REQUEST :: pb_route where "ROUTE_RESUME_REQUEST = 11"
definition ROUTE_RESUME_ACCEPT :: pb_route where "ROUTE_RESUME_ACCEPT = 12"
definition ROUTE_SESSION_DATA :: pb_route where "ROUTE_SESSION_DATA = 13"

definition route_String :: "route \<Rightarrow> string" where
  "route_String r =
     (if r = RouteIdentity then ''Identity''
      else if r = RouteRequestHandshake then ''RequestHandshake''
      else if r = RouteAcceptHandshake then ''AcceptHandshake''
      else if r = RouteFinalizeHandshake then ''FinalizeHandshake''
      else if r = RouteSendChallenge then ''SendChallenge''
      else if r = RouteVerifyChallenge then ''VerifyChallenge''
      else if r = RouteExchangeMessages then ''ExchangeMessages''
      else if r = RouteCloseTransport then ''CloseTransport''
      else if r = RoutePing then ''Ping''
      else if r = RoutePong then ''Pong''
      else if r = RouteResumeRequest then ''ResumeRequest''
      else if r = RouteResumeAccept then ''ResumeAccept''
      else if r = RouteSessionData then ''SessionData''
      else ''Invalid'')"

definition IsValid :: "route \<Rightarrow> bool" where
  "IsValid r \<longleftrightarrow> r > RouteInvalid \<and> r \<le> RouteSessionData"

definition ToProto :: "route \<Rightarrow> pb_route" where
  "ToProto r =
     (if r = RouteIdentity then ROUTE_IDENTITY
      else if r = RouteRequestHandshake then ROUTE_REQUEST_HANDSHAKE
      else if r = RouteAcceptHandshake then ROUTE_ACCEPT_HANDSHAKE
      else if r = RouteFinalizeHandshake then ROUTE_FINALIZE_HANDSHAKE
      else if r = RouteSendChallenge then ROUTE_SEND_CHALLENGE
      else if r = RouteVerifyChallenge then ROUTE_VERIFY_CHALLENGE
      else if r = RouteExchangeMessages then ROUTE_EXCHANGE_MESSAGES
      else if r = RouteCloseTransport then ROUTE_CLOSE_TRANSPORT
      else if r = RoutePing then ROUTE_PING
      else if r = RoutePong then ROUTE_PONG
      else if r = RouteResumeRequest then ROUTE_RESUME_REQUEST
      else if r = RouteResumeAccept then ROUTE_RESUME_ACCEPT
      else if r = RouteSessionData then ROUTE_SESSION_DATA
      else ROUTE_INVALID)"

definition RouteFromProto :: "pb_route \<Rightarrow> route" where
  "RouteFromProto r =
     (if r = ROUTE_IDENTITY then RouteIdentity
      else if r = ROUTE_REQUEST_HANDSHAKE then RouteRequestHandshake
      else if r = ROUTE_ACCEPT_HANDSHAKE then RouteAcceptHandshake
      else if r = ROUTE_FINALIZE_HANDSHAKE then RouteFinalizeHandshake
      else if r = ROUTE_SEND_CHALLENGE then RouteSendChallenge
      else if r = ROUTE_VERIFY_CHALLENGE then RouteVerifyChallenge
      else if r = ROUTE_EXCHANGE_MESSAGES then RouteExchangeMessages
      else if r = ROUTE_CLOSE_TRANSPORT then RouteCloseTransport
      else if r = ROUTE_PING then RoutePing
      else if r = ROUTE_PONG then RoutePong
      else if r = ROUTE_RESUME_REQUEST then RouteResumeRequest
      else if r = ROUTE_RESUME_ACCEPT then RouteResumeAccept
      else if r = ROUTE_SESSION_DATA then RouteSessionData
      else RouteInvalid)"

lemmas route_consts [simp] =
  RouteInvalid_def RouteIdentity_def RouteRequestHandshake_def RouteAcceptHandshake_def
  RouteFinalizeHandshake_def RouteSendChallenge_def RouteVerifyChallenge_def RouteExchangeMessages_def
  RouteCloseTransport_def RoutePing_def RoutePong_def RouteResumeRequest_def
  RouteResumeAccept_def RouteSessionData_def

lemmas pb_route_consts =
  ROUTE_INVALID_def ROUTE_IDENTITY_def ROUTE_REQUEST_HANDSHAKE_def
  ROUTE_ACCEPT_HANDSHAKE_def ROUTE_FINALIZE_HANDSHAKE_def ROUTE_SEND_CHALLENGE_def
  ROUTE_VERIFY_CHALLENGE_def ROUTE_EXCHANGE_MESSAGES_def ROUTE_CLOSE_TRANSPORT_def
  ROUTE_PING_def ROUTE_PONG_def ROUTE_RESUME_REQUEST_def
  ROUTE_RESUME_ACCEPT_def ROUTE_SESSION_DATA_def

lemma IsValid_iff: "IsValid r \<longleftrightarrow> r \<in> {1, 2, 3, 4, 5, 6, 7, 8, 9, 10, 11, 12, 13}"
  by (simp add: IsValid_def) presburger

lemma ToProto_eq: "ToProto r = (if IsValid r then r else 0)"
  by (auto simp: ToProto_def IsValid_iff pb_route_consts)

lemma RouteFromProto_eq: "RouteFromProto p = (if IsValid p then p else 0)"
  by (auto simp: RouteFromProto_def IsValid_iff pb_route_consts)

lemma RouteFromProto_ToProto: "RouteFromProto (ToProto r) = (if IsValid r then r else RouteInvalid)"
  by (simp add: ToProto_eq RouteFromProto_eq IsValid_def)

text \<open>Conversion to the protobuf enumeration and back is the identity on the thirteen routes
  and the invalid route elsewhere; an enumeration value from the wire that names no route is read
  as the invalid one; and the printed names tell the valid routes apart from each other and from
  the invalid one.\<close>

theorem route_conversions:
  "RouteFromProto (ToProto r) = (if IsValid r then r else RouteInvalid) \<and>
   ToProto (RouteFromProto p) = (if IsValid p then p else ROUTE_INVALID) \<and>
   (IsValid (RouteFromProto p) \<longleftrightarrow> IsValid p) \<and>
   (route_String r = route_String q \<longleftrightarrow> r = q \<or> \<not> IsValid r \<and> \<not> IsValid q)"
proof -
  have "route_String r = route_String q \<longleftrightarrow> r = q \<or> \<not> IsValid r \<and> \<not> IsValid q"
    by (auto simp: route_String_def IsValid_iff)
  then show ?thesis
    by (simp add: RouteFromProto_ToProto) (simp add: ToProto_eq RouteFromProto_eq IsValid_def pb_route_consts)
qed

end
