(* ===== verification/Version.thy ===== *)
theory Version
  imports Prelude
begin

text \<open>
  Semantic versions and the compatibility check of the introduction (version.go), with the
  parts of \<^verbatim>\<open>strings.SplitN\<close> and \<^verbatim>\<open>strconv.Atoi\<close> the code relies on.
\<close>

subsection \<open>Splitting and integers\<close>

text \<open>\<^verbatim>\<open>strings.SplitN(s, sep, n)\<close> for \<open>n > 0\<close>: at most \<open>n\<close> pieces, the last one unsplit.\<close>

fun split_n :: "nat \<Rightarrow> char \<Rightarrow> string \<Rightarrow> string list" where
  "split_n 0 sep s = []"
| "split_n (Suc 0) sep s = [s]"
| "split_n (Suc (Suc n)) sep s =
     (case dropWhile (\<lambda>c. c \<noteq> sep) s of
        [] \<Rightarrow> [s]
      | _ # rest \<Rightarrow> takeWhile (\<lambda>c. c \<noteq> sep) s # split_n (Suc n) sep rest)"

definition is_digit :: "char \<Rightarrow> bool" where
  "is_digit c \<longleftrightarrow> (48 :: nat) \<le> of_char c \<and> of_char c \<le> (57 :: nat)"

definition digit_val :: "char \<Rightarrow> int" where
  "digit_val c = int (of_char c) - 48" \<comment> \<open>\<^verbatim>\<open>ch - '0'\<close>\<close>

definition digits_val :: "string \<Rightarrow> int" where
  "digits_val ds = foldl (\<lambda>a c. 10 * a + digit_val c) 0 ds"

text \<open>\<^verbatim>\<open>strconv.Atoi\<close>: an optional sign and decimal digits, within the range of a 64-bit \<^verbatim>\<open>int\<close>.\<close>

definition atoi :: "string \<Rightarrow> int option" where
  "atoi s =
     (let neg = (s \<noteq> [] \<and> hd s = CHR ''-'');
          ds = (if s \<noteq> [] \<and> (hd s = CHR ''-'' \<or> hd s = CHR ''+'') then tl s else s);
          v = (if neg then - digits_val ds else digits_val ds)
      in if ds = [] \<or> \<not> list_all is_digit ds then None
         else if - (2 ^ 63) \<le> v \<and> v < 2 ^ 63 then Some v else None)"

subsection \<open>The program\<close>

record semver =
  major :: int
  minor :: int
  patch :: int

datatype version_error = EmptyVersion | InvalidSemver string | InvalidMajor string
  | InvalidMinor string | InvalidPatch string

definition parseSemver :: "string \<Rightarrow> version_error + semver" where
  "parseSemver v =
     (if v = '''' then Inl EmptyVersion
      else case split_n 3 CHR ''.'' v of
        [a, b, c] \<Rightarrow>
          (case atoi a of None \<Rightarrow> Inl (InvalidMajor v)
           | Some major' \<Rightarrow>
          (case atoi b of None \<Rightarrow> Inl (InvalidMinor v)
           | Some minor' \<Rightarrow>
          (case atoi c of None \<Rightarrow> Inl (InvalidPatch v)
           | Some patch' \<Rightarrow> Inr \<lparr>major = major', minor = minor', patch = patch'\<rparr>)))
      | _ \<Rightarrow> Inl (InvalidSemver v))"

datatype mismatch = UnparsableRemote version_error | MajorMismatch int int | MinorMismatch int int

text \<open>The outcome of a check: \<^verbatim>\<open>ErrVersionMismatch\<close> with its cause, or acceptance, which logs a
  warning (\<open>True\<close>) when the minor versions differ.\<close>

definition checkVersion :: "semver \<Rightarrow> string \<Rightarrow> mismatch + bool" where
  "checkVersion localSemver remote =
     (case parseSemver remote of
        Inl e \<Rightarrow> Inl (UnparsableRemote e)
      | Inr rv \<Rightarrow>
          if major localSemver \<noteq> major rv then Inl (MajorMismatch (major localSemver) (major rv))
          else if major localSemver = 0 \<and> minor localSemver \<noteq> minor rv
          then Inl (MinorMismatch (minor localSemver) (minor rv))
          else Inr (minor localSemver \<noteq> minor rv))"

definition AppVersion :: string where
  "AppVersion = ''0.7.0''"

text \<open>\<^verbatim>\<open>init\<close>: parse the own version at start-up, panic (\<open>None\<close>) if that fails.\<close>

definition init_localSemver :: "semver option" where
  "init_localSemver = (case parseSemver AppVersion of Inl e \<Rightarrow> None | Inr v \<Rightarrow> Some v)"

subsection \<open>Printing, and the round trip with parsing\<close>

text \<open>Decimal digits of a natural number, as \<^verbatim>\<open>strconv.Itoa\<close> prints them.\<close>

fun itoa :: "nat \<Rightarrow> string" where
  "itoa n = (if n < 10 then [char_of (48 + n)] else itoa (n div 10) @ [char_of (48 + n mod 10)])"

declare itoa.simps [simp del]

definition print_semver :: "nat \<Rightarrow> nat \<Rightarrow> nat \<Rightarrow> string" where
  "print_semver a b c = itoa a @ ''.'' @ itoa b @ ''.'' @ itoa c"

lemma digit_char:
  assumes "d < 10"
  shows "is_digit (char_of (48 + d)) \<and> digit_val (char_of (48 + d)) = int d
    \<and> char_of (48 + d) \<notin> {CHR ''.'', CHR ''-'', CHR ''+''} \<and> CHR ''.'' \<noteq> char_of (48 + d)"
proof -
  have c: "of_char (char_of (48 + d) :: char) = 48 + d"
    using assms by simp
  have "(char_of (48 + d) :: char) \<noteq> k" if "of_char k < (48 :: nat)" for k
    using c that by auto
  then have "(char_of (48 + d) :: char) \<notin> {CHR ''.'', CHR ''-'', CHR ''+''}" by simp
  with c assms show ?thesis by (auto simp: is_digit_def digit_val_def)
qed

lemma itoa_digits:
  "list_all is_digit (itoa n) \<and> digits_val (itoa n) = int n \<and> itoa n \<noteq> [] \<and> CHR ''.'' \<notin> set (itoa n)
    \<and> hd (itoa n) \<noteq> CHR ''-'' \<and> hd (itoa n) \<noteq> CHR ''+''"
proof (induction n rule: itoa.induct)
  case (1 n)
  show ?case
  proof (cases "n < 10")
    case True
    then show ?thesis
      using digit_char [of n] by (simp add: itoa.simps [of n] digits_val_def)
  next
    case False
    have d: "n mod 10 < 10" by simp
    have "int n = 10 * int (n div 10) + int (n mod 10)" by presburger
    with False "1.IH" digit_char [OF d] show ?thesis
      by (simp add: itoa.simps [of n] digits_val_def)
  qed
qed

lemma atoi_itoa: "n < 2 ^ 63 \<Longrightarrow> atoi (itoa n) = Some (int n)"
  using itoa_digits [of n] by (auto simp: atoi_def Let_def)

lemma split_n_sep:
  assumes "sep \<notin> set a"
  shows "split_n (Suc (Suc n)) sep (a @ sep # b) = a # split_n (Suc n) sep b"
proof -
  have "takeWhile (\<lambda>c. c \<noteq> sep) (a @ sep # b) = a" "dropWhile (\<lambda>c. c \<noteq> sep) (a @ sep # b) = sep # b"
    using assms by (induction a) auto
  then show ?thesis by simp
qed

lemma parse_print:
  assumes "a < 2 ^ 63" "b < 2 ^ 63" "c < 2 ^ 63"
  shows "parseSemver (print_semver a b c) = Inr \<lparr>major = int a, minor = int b, patch = int c\<rparr>"
proof -
  have three: "split_n 3 CHR ''.'' s = split_n (Suc (Suc (Suc 0))) CHR ''.'' s" for s
    by (simp only: numeral_3_eq_3)
  have "split_n 3 CHR ''.'' (print_semver a b c) = [itoa a, itoa b, itoa c]"
    unfolding print_semver_def three
    using itoa_digits [of a] itoa_digits [of b] by (simp add: split_n_sep del: split_n.simps(3))
  moreover have "print_semver a b c \<noteq> ''''"
    using itoa_digits [of a] by (simp add: print_semver_def)
  ultimately show ?thesis
    using assms by (simp add: parseSemver_def atoi_itoa)
qed

definition compatible :: "semver \<Rightarrow> semver \<Rightarrow> bool" where
  "compatible v w \<longleftrightarrow> major v = major w \<and> (major v = 0 \<longrightarrow> minor v = minor w)"

lemma checkVersion_Inr_iff:
  "(\<exists>b. checkVersion v s = Inr b) \<longleftrightarrow> (\<exists>w. parseSemver s = Inr w \<and> compatible v w)"
  by (auto simp: checkVersion_def compatible_def split: sum.splits if_splits)

subsection \<open>Properties\<close>

text \<open>Two peers always reach the same verdict on each other's version: the one running
  \<open>a.b.c\<close> accepts \<open>x.y.z\<close> exactly when the one running \<open>x.y.z\<close> accepts \<open>a.b.c\<close>, namely when
  the major versions agree and, before 1.0, the minor versions too; what either one prints the other
  one parses back.\<close>

theorem version_check_agrees:
  assumes "a < 2 ^ 63" "b < 2 ^ 63" "c < 2 ^ 63" "x < 2 ^ 63" "y < 2 ^ 63" "z < 2 ^ 63"
  shows "parseSemver (print_semver a b c) = Inr \<lparr>major = int a, minor = int b, patch = int c\<rparr> \<and>
    ((\<exists>w. checkVersion \<lparr>major = int a, minor = int b, patch = int c\<rparr> (print_semver x y z) = Inr w)
      \<longleftrightarrow> a = x \<and> (a = 0 \<longrightarrow> b = y)) \<and>
    ((\<exists>w. checkVersion \<lparr>major = int x, minor = int y, patch = int z\<rparr> (print_semver a b c) = Inr w)
      \<longleftrightarrow> a = x \<and> (a = 0 \<longrightarrow> b = y))"
  using assms by (auto simp: checkVersion_Inr_iff parse_print compatible_def)

theorem version_check_agrees_witness:
  "(\<exists>w. checkVersion \<lparr>major = int 0, minor = int 7, patch = int 0\<rparr> (print_semver 0 7 4) = Inr w) \<and>
   \<not> (\<exists>w. checkVersion \<lparr>major = int 0, minor = int 7, patch = int 0\<rparr> (print_semver 0 6 0) = Inr w)"
  using version_check_agrees [of 0 7 0 0 7 4] version_check_agrees [of 0 7 0 0 6 0] by simp

end
