(* ===== verification/Padding.thy ===== *)
theory Padding
  imports Prelude
begin

text \<open>
  Size limits (kamune.go) and the bucketed padding of an envelope (serde.go): how many padding
  bytes \<^verbatim>\<open>padSignedTransport\<close> adds for a given unpadded size and a given random draw.
\<close>

subsection \<open>Constants\<close>

definition MaxUint16 :: nat where "MaxUint16 = 65535"
definition reservedProtocolOverhead :: nat where "reservedProtocolOverhead = 4 * 1024"
definition encryptionOverhead :: nat where "encryptionOverhead = 40"
definition frameTargetSize :: nat where "frameTargetSize = MaxUint16 - encryptionOverhead"
definition maxTransportSize :: nat where "maxTransportSize = MaxUint16 - reservedProtocolOverhead"

definition paddingBuckets :: "nat list" where
  "paddingBuckets = [512, 1024, 4 * 1024, 16 * 1024, 32 * 1024, frameTargetSize]"

definition bumpProbabilities :: "nat list" where
  "bumpProbabilities = [80, 15, 4, 1]"

lemmas size_consts = MaxUint16_def reservedProtocolOverhead_def encryptionOverhead_def
  frameTargetSize_def maxTransportSize_def

subsection \<open>Choosing the bucket\<close>

text \<open>\<^verbatim>\<open>varintSize\<close>: bytes of a base-128 varint; the loop shifts by seven bits per round.\<close>

fun varintSize :: "nat \<Rightarrow> nat" where
  "varintSize n = (if n \<ge> 128 then Suc (varintSize (n div 128)) else 1)"

declare varintSize.simps [simp del]

fun natural_index :: "nat list \<Rightarrow> nat \<Rightarrow> nat \<Rightarrow> nat option" where
  "natural_index [] i baseSize = None"
| "natural_index (sz # sizes) i baseSize =
     (if baseSize \<le> sz then Some i else natural_index sizes (Suc i) baseSize)"

definition naturalBucketIndex :: "nat \<Rightarrow> nat" where
  "naturalBucketIndex baseSize =
     (case natural_index paddingBuckets 0 baseSize of
        Some i \<Rightarrow> i | None \<Rightarrow> length paddingBuckets - 1)"

text \<open>\<^verbatim>\<open>selectBump\<close> on the number \<open>n\<close> drawn by \<^verbatim>\<open>mathrand.IntN(total)\<close>.\<close>

fun bump_scan :: "nat list \<Rightarrow> nat \<Rightarrow> nat \<Rightarrow> nat option" where
  "bump_scan [] i n = None"
| "bump_scan (p # ps) i n = (if n < p then Some i else bump_scan ps (Suc i) (n - p))"

definition bump_total :: nat where
  "bump_total = sum_list bumpProbabilities"

lemma bump_total_pos [simp]: "0 < bump_total"
  by (simp add: bump_total_def bumpProbabilities_def)

definition selectBump :: "nat \<Rightarrow> nat" where
  "selectBump n =
     (case bump_scan bumpProbabilities 0 n of
        Some i \<Rightarrow> i | None \<Rightarrow> length bumpProbabilities - 1)"

definition selectBucketSize :: "nat \<Rightarrow> nat \<Rightarrow> nat" where
  "selectBucketSize n baseSize =
     (let idx = naturalBucketIndex baseSize + selectBump n;
          idx' = (if idx \<ge> length paddingBuckets then length paddingBuckets - 1 else idx)
      in paddingBuckets ! idx')"

subsection \<open>The length of the padding\<close>

text \<open>
  The fixed-point search of \<^verbatim>\<open>padSignedTransport\<close>: at most four rounds, each recomputing the
  length with the overhead of the last guess. Subtraction on \<^typ>\<open>nat\<close> stops at 0, as
  \<^verbatim>\<open>max(target-baseSize-overhead, 0)\<close> does.
\<close>

fun pad_rounds :: "nat \<Rightarrow> nat \<Rightarrow> nat \<Rightarrow> nat \<Rightarrow> nat" where
  "pad_rounds 0 target baseSize padLen = padLen"
| "pad_rounds (Suc k) target baseSize padLen =
     (let overhead = 1 + varintSize padLen;
          newPadLen = target - baseSize - overhead
      in if newPadLen = padLen then padLen else pad_rounds k target baseSize newPadLen)"

definition pad_len :: "nat \<Rightarrow> nat \<Rightarrow> nat" where
  "pad_len target baseSize =
     (if baseSize \<ge> target then 0
      else pad_rounds 4 target baseSize (target - baseSize - 4))"

text \<open>
  What a bytes field of number below 16 with \<open>n\<close> bytes adds to a protobuf message: nothing when
  it is empty, else its tag, its length and its contents.
\<close>

definition bytes_field_size :: "nat \<Rightarrow> nat" where
  "bytes_field_size n = (if n = 0 then 0 else 1 + varintSize n + n)"

definition padded_size :: "nat \<Rightarrow> nat \<Rightarrow> nat" where
  "padded_size target baseSize = baseSize + bytes_field_size (pad_len target baseSize)"

subsection \<open>Facts\<close>

lemma varintSize_1: "n < 128 \<Longrightarrow> varintSize n = 1"
  by (simp add: varintSize.simps)

lemma varintSize_2: "128 \<le> n \<Longrightarrow> n < 16384 \<Longrightarrow> varintSize n = 2"
  by (subst varintSize.simps) (simp add: varintSize_1 div_less_iff_less_mult)

lemma varintSize_3: "16384 \<le> n \<Longrightarrow> n < 2097152 \<Longrightarrow> varintSize n = 3"
  by (subst varintSize.simps)
    (simp add: varintSize_2 div_less_iff_less_mult less_eq_div_iff_mult_less_eq)

lemmas varintSize_ranges = varintSize_1 varintSize_2 varintSize_3

text \<open>\<^verbatim>\<open>varintSize\<close> is the length of the encoding.\<close>

lemma length_uvarint: "length (uvarint n) = varintSize n"
proof (induction n rule: uvarint.induct)
  case (1 n)
  then show ?case
    by (cases "n < 128") (simp_all add: uvarint_less uvarint_ge varintSize.simps [of n])
qed

lemma pad_rounds_numeral:
  "pad_rounds (numeral k) target baseSize padLen =
     (if target - baseSize - (1 + varintSize padLen) = padLen then padLen
      else pad_rounds (pred_numeral k) target baseSize (target - baseSize - (1 + varintSize padLen)))"
  by (simp add: numeral_eq_Suc Let_def)

lemma pad_rounds_stop:
  "target - baseSize - (1 + varintSize p) = p \<Longrightarrow> pad_rounds k target baseSize p = p"
  by (cases k) simp_all

lemma pad_rounds_go:
  "target - baseSize - (1 + varintSize p) = q \<Longrightarrow> target - baseSize - (1 + varintSize q) = q \<Longrightarrow>
     pad_rounds (Suc k) target baseSize p = q"
  using pad_rounds_stop [of target baseSize q k] by simp

text \<open>The search as a function of the gap between the target and the unpadded size.\<close>

definition gap_padding :: "nat \<Rightarrow> nat" where
  "gap_padding d =
     (if d \<le> 2 then 0 else if d \<le> 129 then d - 2 else if d = 130 then 127
      else if d \<le> 16386 then d - 3 else if d = 16387 then 16383 else d - 4)"

lemma pad_rounds_gap:
  assumes "0 < d" "d \<le> 2097155"
  shows "pad_rounds 4 d 0 (d - 4) = gap_padding d"
proof -
  have four: "pad_rounds 4 d 0 p = pad_rounds (Suc 3) d 0 p" for p by simp
  consider "d \<le> 2" | "3 \<le> d" "d \<le> 129" | "d = 130" | "d = 131" | "132 \<le> d" "d \<le> 16386"
    | "d = 16387" | "16388 \<le> d" by linarith
  then show ?thesis
  proof cases
    case 1
    then show ?thesis
      by (subst pad_rounds_stop) (simp_all add: gap_padding_def varintSize_1)
  next
    case 2
    then show ?thesis unfolding four
      by (subst pad_rounds_go [where q = "d - 2"]) (simp_all add: gap_padding_def varintSize_1)
  next
    case 3
    then show ?thesis
      by (simp add: gap_padding_def pad_rounds_numeral varintSize_ranges)
  next
    case 4
    then show ?thesis
      by (simp add: gap_padding_def pad_rounds_numeral varintSize_ranges)
  next
    case 5
    then show ?thesis unfolding four
      by (subst pad_rounds_go [where q = "d - 3"]) (simp_all add: gap_padding_def varintSize_2)
  next
    case 6
    then show ?thesis
      by (simp add: gap_padding_def pad_rounds_numeral varintSize_ranges)
  next
    case 7
    with assms show ?thesis
      by (subst pad_rounds_stop) (simp_all add: gap_padding_def varintSize_3)
  qed
qed

lemma pad_rounds_shift: "pad_rounds k target baseSize p = pad_rounds k (target - baseSize) 0 p"
  by (induction k arbitrary: p) (simp_all add: Let_def)

lemma pad_len_gap:
  "baseSize < target \<Longrightarrow> target - baseSize \<le> 2097155 \<Longrightarrow>
     pad_len target baseSize = gap_padding (target - baseSize)"
  using pad_rounds_gap [of "target - baseSize"]
  by (simp add: pad_len_def pad_rounds_shift [of _ target baseSize])

lemma gap_padding_size:
  "0 < d \<Longrightarrow> d \<le> 2097155 \<Longrightarrow>
     bytes_field_size (gap_padding d) =
       (if d = 1 \<or> d = 2 then 0 else if d = 130 \<or> d = 16387 then d - 1 else d)"
  by (simp add: bytes_field_size_def gap_padding_def varintSize_ranges) linarith

lemma selectBump_eq:
  "selectBump n = (if n < 80 then 0 else if n < 95 then 1 else if n < 99 then 2 else 3)"
  by (simp add: selectBump_def bumpProbabilities_def) linarith

lemma selectBump_le: "selectBump n \<le> 3"
  by (simp add: selectBump_eq)

lemma buckets_sorted: "i \<le> j \<Longrightarrow> j < 6 \<Longrightarrow> paddingBuckets ! i \<le> paddingBuckets ! j"
proof -
  have "sorted paddingBuckets" by (simp add: paddingBuckets_def size_consts)
  then show "i \<le> j \<Longrightarrow> j < 6 \<Longrightarrow> paddingBuckets ! i \<le> paddingBuckets ! j"
    by (simp add: sorted_nth_mono paddingBuckets_def)
qed

lemma naturalBucketIndex_fits:
  assumes "baseSize \<le> frameTargetSize"
  shows "naturalBucketIndex baseSize < 6 \<and> baseSize \<le> paddingBuckets ! naturalBucketIndex baseSize"
  using assms by (simp add: naturalBucketIndex_def paddingBuckets_def size_consts)

lemma length_paddingBuckets [simp]: "length paddingBuckets = 6"
  by (simp add: paddingBuckets_def)

lemma selectBucketSize_mem: "selectBucketSize n baseSize \<in> set paddingBuckets"
  by (simp add: selectBucketSize_def Let_def)

lemma selectBucketSize_fits:
  assumes "baseSize \<le> frameTargetSize"
  shows "baseSize \<le> selectBucketSize n baseSize"
proof -
  let ?i = "naturalBucketIndex baseSize"
  let ?j = "if 6 \<le> ?i + selectBump n then 5 else ?i + selectBump n"
  have i: "?i < 6" "baseSize \<le> paddingBuckets ! ?i" using naturalBucketIndex_fits [OF assms] by auto
  have "?i \<le> ?j" "?j < 6" using i by auto
  then have "paddingBuckets ! ?i \<le> paddingBuckets ! ?j" by (rule buckets_sorted)
  with i(2) have "baseSize \<le> paddingBuckets ! ?j" by linarith
  then show ?thesis by (simp add: selectBucketSize_def Let_def split: if_splits)
qed

lemma bucket_le: "t \<in> set paddingBuckets \<Longrightarrow> t \<le> frameTargetSize"
  by (auto simp: paddingBuckets_def size_consts)

lemma padded_size_eq:
  assumes "baseSize \<le> t" "t \<le> frameTargetSize"
  shows "padded_size t baseSize =
    (if t - baseSize \<in> {1, 2} then baseSize else if t - baseSize \<in> {130, 16387} then t - 1 else t)"
proof (cases "baseSize = t")
  case True
  then show ?thesis by (simp add: padded_size_def pad_len_def bytes_field_size_def)
next
  case False
  with assms have d: "baseSize < t" "0 < t - baseSize" "t - baseSize \<le> 2097155"
    by (auto simp: size_consts)
  show ?thesis
    using d by (auto simp: padded_size_def pad_len_gap gap_padding_size)
qed

subsection \<open>Properties\<close>

text \<open>C32. Every envelope that fits the largest bucket is padded to one of the six bucket sizes
  that is at least its own size: the padded envelope never exceeds the bucket and is exactly as long,
  except when the gap is 1 or 2 (no padding field fits, the envelope stays as it is) or 130 or 16387
  (the length prefix of the padding changes width there, and one byte is missing).\<close>

theorem padding_reaches_bucket:
  assumes "baseSize \<le> frameTargetSize" and "n < bump_total"
  shows "let t = selectBucketSize n baseSize in
     t \<in> set paddingBuckets \<and> baseSize \<le> t \<and>
     padded_size t baseSize =
       (if t - baseSize \<in> {1, 2} then baseSize else if t - baseSize \<in> {130, 16387} then t - 1 else t) \<and>
     padded_size t baseSize \<le> t \<and> t - 2 \<le> padded_size t baseSize"
proof -
  define t where "t = selectBucketSize n baseSize"
  have t: "t \<in> set paddingBuckets" "baseSize \<le> t" "t \<le> frameTargetSize"
    using selectBucketSize_mem selectBucketSize_fits [OF assms(1)] bucket_le
    by (auto simp: t_def)
  from padded_size_eq [OF t(2,3)] t(1,2) show ?thesis
    unfolding t_def [symmetric] Let_def by auto
qed

theorem padding_reaches_bucket_witness:
  "padded_size (selectBucketSize 79 382) 382 = 511 \<and> padded_size (selectBucketSize 80 382) 382 = 1024"
proof -
  have s: "selectBucketSize 79 382 = 512" "selectBucketSize 80 382 = 1024"
    by (simp_all add: selectBucketSize_def selectBump_eq naturalBucketIndex_def paddingBuckets_def Let_def)
  have h: "382 \<le> frameTargetSize" "79 < bump_total" "80 < bump_total"
    by (simp_all add: size_consts bump_total_def bumpProbabilities_def)
  from padding_reaches_bucket [OF h(1,2)] padding_reaches_bucket [OF h(1,3)] show ?thesis
    by (simp add: s Let_def)
qed

text \<open>Drawing \<open>n\<close> uniformly below the total of the table, \<^verbatim>\<open>selectBump\<close> returns the
  bumps 0, 1, 2, 3 for exactly 80, 15, 4 and 1 of the 100 draws, and nothing else.\<close>

theorem bump_distribution:
  "bump_total = 100 \<and> (\<forall>n. selectBump n \<le> 3) \<and>
   map (\<lambda>i. card {n. n < bump_total \<and> selectBump n = i}) [0, 1, 2, 3] = bumpProbabilities"
proof -
  have total: "bump_total = 100" by (simp add: bump_total_def bumpProbabilities_def)
  have "{n. n < bump_total \<and> selectBump n = 0} = {0..<80}"
    "{n. n < bump_total \<and> selectBump n = 1} = {80..<95}"
    "{n. n < bump_total \<and> selectBump n = 2} = {95..<99}"
    "{n. n < bump_total \<and> selectBump n = 3} = {99..<100}"
    unfolding total by (auto simp: selectBump_eq split: if_splits)
  then show ?thesis by (simp add: total selectBump_le bumpProbabilities_def)
qed

end
