(* ===== verification/Process.thy ===== *)
theory Process
  imports Framing
begin

text \<open>
  Protocol code as processes. A handshake function of the source is a sequence of calls on its
  connection, the clock and the random source; here it is the tree of these calls (\<open>io\<close>), each
  branching on the result of the call. Two semantics are given to the same tree:

  \<^item> \<open>run\<close> replays a process against a list of events, that is against any peer, network, clock and
    random source, an adversary included: safety properties quantify over the events;
  \<^item> \<open>duet\<close> is the step relation of two processes joined by two reliable ordered queues, and
    \<open>settles\<close> the total-correctness judgement that, whatever the random draws and clock readings,
    the two end with results in a given relation. \<open>settles\<close> is proved stable under every step, so
    it does not depend on how the two are scheduled.
\<close>

subsection \<open>Processes\<close>

datatype 'r io =
    Return 'r
  | Write bytes "conn_error option \<Rightarrow> 'r io"
  | Read "conn_error + bytes \<Rightarrow> 'r io"
  | SetDeadline gotime "'r io"
  | CloseConn "conn_error option \<Rightarrow> 'r io"
  | Random nat "bytes \<Rightarrow> 'r io"
  | IntN nat "nat \<Rightarrow> 'r io"
  | Now "gotime \<Rightarrow> 'r io"
  | Hang

primrec io_bind :: "'a io \<Rightarrow> ('a \<Rightarrow> 'b io) \<Rightarrow> 'b io" where
  "io_bind (Return x) f = f x"
| "io_bind (Write b k) f = Write b (\<lambda>e. io_bind (k e) f)"
| "io_bind (Read k) f = Read (\<lambda>r. io_bind (k r) f)"
| "io_bind (SetDeadline t k) f = SetDeadline t (io_bind k f)"
| "io_bind (CloseConn k) f = CloseConn (\<lambda>e. io_bind (k e) f)"
| "io_bind (Random n k) f = Random n (\<lambda>b. io_bind (k b) f)"
| "io_bind (IntN n k) f = IntN n (\<lambda>i. io_bind (k i) f)"
| "io_bind (Now k) f = Now (\<lambda>t. io_bind (k t) f)"
| "io_bind Hang f = Hang"

text \<open>\<^const>\<open>Hang\<close> is a call that never returns, a deadlock.\<close>

text \<open>Sequencing of a fallible call: an error of the first ends the whole, as the
  \<^verbatim>\<open>if err != nil\<close> returns of the source do.\<close>

definition io_try :: "('e + 'a) io \<Rightarrow> ('a \<Rightarrow> ('e + 'b) io) \<Rightarrow> ('e + 'b) io" where
  "io_try p f = io_bind p (\<lambda>r. case r of Inl e \<Rightarrow> Return (Inl e) | Inr x \<Rightarrow> f x)"

lemma io_bind_assoc: "io_bind (io_bind p f) g = io_bind p (\<lambda>x. io_bind (f x) g)"
  by (induction p) auto

lemma io_bind_Return [simp]: "io_bind p Return = p"
  by (induction p) auto

lemma io_try_simps [simp]:
  "io_try (Return (Inl e)) f = Return (Inl e)"
  "io_try (Return (Inr x)) f = f x"
  "io_try (Write b k) f = Write b (\<lambda>e. io_try (k e) f)"
  "io_try (Read k1) f = Read (\<lambda>r. io_try (k1 r) f)"
  "io_try (SetDeadline t p) f = SetDeadline t (io_try p f)"
  "io_try (CloseConn k) f = CloseConn (\<lambda>e. io_try (k e) f)"
  "io_try (Random n k2) f = Random n (\<lambda>b. io_try (k2 b) f)"
  "io_try (IntN n k3) f = IntN n (\<lambda>i. io_try (k3 i) f)"
  "io_try (Now k4) f = Now (\<lambda>t'. io_try (k4 t') f)"
  "io_try Hang f = Hang"
  by (simp_all add: io_try_def)

lemma io_try_bind: "io_try (io_bind p f) g = io_bind p (\<lambda>x. io_try (f x) g)"
  by (simp add: io_try_def io_bind_assoc)

lemma io_try_prod: "io_try (case x of (a, b) \<Rightarrow> h a b) g = (case x of (a, b) \<Rightarrow> io_try (h a b) g)"
  by (cases x) simp

lemma io_try_assoc: "io_try (io_try p f) g = io_try p (\<lambda>x. io_try (f x) g)"
  unfolding io_try_def io_bind_assoc
  by (rule arg_cong [where f = "io_bind p"]) (auto split: sum.splits)

subsection \<open>Replaying a process against events\<close>

datatype event =
    EWrite bytes "conn_error option"
  | ERead "conn_error + bytes"
  | ESetDeadline gotime
  | EClose "conn_error option"
  | ERandom bytes
  | EIntN nat
  | ENow gotime

text \<open>The result of the process and the events it did not consume; \<^const>\<open>None\<close> when the events are
  not a behaviour of it (a call it does not make, a draw out of range) or end before it returns.\<close>

fun run :: "'r io \<Rightarrow> event list \<Rightarrow> ('r \<times> event list) option" where
  "run (Return r) es = Some (r, es)"
| "run (Write b k) (EWrite b' e # es) = (if b' = b then run (k e) es else None)"
| "run (Read k) (ERead r # es) = run (k r) es"
| "run (SetDeadline t k) (ESetDeadline t' # es) = (if t' = t then run k es else None)"
| "run (CloseConn k) (EClose e # es) = run (k e) es"
| "run (Random n k) (ERandom bs # es) = (if length bs = n then run (k bs) es else None)"
| "run (IntN n k) (EIntN i # es) = (if i < n then run (k i) es else None)"
| "run (Now k) (ENow t # es) = (if time_ok t then run (k t) es else None)"
| "run _ _ = None"

lemma run_Write:
  "run (Write b k) es = Some z \<longleftrightarrow> (\<exists>e es'. es = EWrite b e # es' \<and> run (k e) es' = Some z)"
  by (cases "(Write b k, es)" rule: run.cases) auto

lemma run_Read:
  "run (Read k) es = Some z \<longleftrightarrow> (\<exists>r es'. es = ERead r # es' \<and> run (k r) es' = Some z)"
  by (cases "(Read k, es)" rule: run.cases) auto

lemma run_SetDeadline:
  "run (SetDeadline t p) es = Some z \<longleftrightarrow> (\<exists>es'. es = ESetDeadline t # es' \<and> run p es' = Some z)"
  by (cases "(SetDeadline t p, es)" rule: run.cases) auto

lemma run_CloseConn:
  "run (CloseConn k) es = Some z \<longleftrightarrow> (\<exists>e es'. es = EClose e # es' \<and> run (k e) es' = Some z)"
  by (cases "(CloseConn k, es)" rule: run.cases) auto

lemma run_Random:
  "run (Random n k) es = Some z \<longleftrightarrow>
     (\<exists>bs es'. es = ERandom bs # es' \<and> length bs = n \<and> run (k bs) es' = Some z)"
  by (cases "(Random n k, es)" rule: run.cases) auto

lemma run_IntN:
  "run (IntN n k) es = Some z \<longleftrightarrow> (\<exists>i es'. es = EIntN i # es' \<and> i < n \<and> run (k i) es' = Some z)"
  by (cases "(IntN n k, es)" rule: run.cases) auto

lemma run_Now:
  "run (Now k) es = Some z \<longleftrightarrow> (\<exists>t es'. es = ENow t # es' \<and> time_ok t \<and> run (k t) es' = Some z)"
  by (cases "(Now k, es)" rule: run.cases) auto

lemmas run_iffs = run_Write run_Read run_SetDeadline run_CloseConn run_Random run_IntN run_Now

lemma run_suffix: "run p es = Some (r, es') \<Longrightarrow> \<exists>pre. es = pre @ es'"
  by (induction p es rule: run.induct) (auto split: if_splits)

lemma run_Hang [simp]: "run Hang es = None"
  by (cases es) auto

lemma run_bind:
  "run (io_bind p f) es = (case run p es of None \<Rightarrow> None | Some (x, es') \<Rightarrow> run (f x) es')"
  by (induction p es rule: run.induct) auto

lemma run_bind_Some:
  "run (io_bind p f) es = Some z \<longleftrightarrow> (\<exists>x es'. run p es = Some (x, es') \<and> run (f x) es' = Some z)"
  by (simp add: run_bind split: option.splits)

lemma run_try:
  "run (io_try p f) es = Some (Inr y, es'') \<longleftrightarrow>
     (\<exists>x es'. run p es = Some (Inr x, es') \<and> run (f x) es' = Some (Inr y, es''))"
  by (auto simp: io_try_def run_bind split: option.splits sum.splits)

lemma run_try_Inl:
  "run (io_try p f) es = Some (Inl e, es'') \<longleftrightarrow>
     run p es = Some (Inl e, es'') \<or>
     (\<exists>x es'. run p es = Some (Inr x, es') \<and> run (f x) es' = Some (Inl e, es''))"
  by (auto simp: io_try_def run_bind split: option.splits sum.splits)

subsection \<open>Two processes and their queues\<close>

text \<open>What a process with inbox \<open>q\<close> can do next on a network that delivers: nothing when it has
  returned or waits on an empty inbox, otherwise one of a set of successors (the process, its
  inbox, what it put on the wire).\<close>

fun moves :: "'r io \<Rightarrow> bytes list \<Rightarrow> ('r io \<times> bytes list \<times> bytes list) set option" where
  "moves (Return r) q = None"
| "moves (Write b k) q = Some {(k None, q, [b])}"
| "moves (Read k) [] = None"
| "moves (Read k) (m # q) = Some {(k (Inr m), q, [])}"
| "moves (SetDeadline t k) q = Some {(k, q, [])}"
| "moves (CloseConn k) q = Some {(k None, q, [])}"
| "moves (Random n k) q = Some ((\<lambda>bs. (k bs, q, [])) ` {bs. length bs = n})"
| "moves (IntN n k) q = Some ((\<lambda>i. (k i, q, [])) ` {..<n})"
| "moves (Now k) q = Some ((\<lambda>t. (k t, q, [])) ` Collect time_ok)"
| "moves Hang q = None"

text \<open>A configuration: the two processes and the inbox of each.\<close>

type_synonym ('a, 'b) config = "('a io \<times> bytes list) \<times> ('b io \<times> bytes list)"

inductive duet :: "('a, 'b) config \<Rightarrow> ('a, 'b) config \<Rightarrow> bool" where
  left: "moves p q = Some S \<Longrightarrow> (p', q', out) \<in> S \<Longrightarrow>
     duet ((p, q), (r, s)) ((p', q'), (r, s @ out))"
| right: "moves r s = Some S \<Longrightarrow> (r', s', out) \<in> S \<Longrightarrow>
     duet ((p, q), (r, s)) ((p, q @ out), (r', s'))"

inductive settles :: "('a \<Rightarrow> 'b \<Rightarrow> bool) \<Rightarrow> ('a, 'b) config \<Rightarrow> bool" for Q where
  finish: "Q a b \<Longrightarrow> settles Q ((Return a, []), (Return b, []))"
| go_left: "moves p q = Some S \<Longrightarrow> S \<noteq> {} \<Longrightarrow>
     (\<And>p' q' out. (p', q', out) \<in> S \<Longrightarrow> settles Q ((p', q'), (r, s @ out))) \<Longrightarrow>
     settles Q ((p, q), (r, s))"
| go_right: "moves r s = Some S \<Longrightarrow> S \<noteq> {} \<Longrightarrow>
     (\<And>r' s' out. (r', s', out) \<in> S \<Longrightarrow> settles Q ((p, q @ out), (r', s'))) \<Longrightarrow>
     settles Q ((p, q), (r, s))"

inductive_cases duetE: "duet ((p, q), (r, s)) c"

text \<open>Both have returned, with results in the relation and nothing left unread.\<close>

definition settled :: "('a \<Rightarrow> 'b \<Rightarrow> bool) \<Rightarrow> ('a, 'b) config \<Rightarrow> bool" where
  "settled Q c \<longleftrightarrow> (\<exists>a b. c = ((Return a, []), (Return b, [])) \<and> Q a b)"

text \<open>More in the inbox never takes a move away.\<close>

lemma moves_more:
  assumes "moves p q = Some S"
  shows "moves p (q @ out) = Some ((\<lambda>(p', q', w). (p', q' @ out, w)) ` S)"
  using assms by (cases "(p, q)" rule: moves.cases) (auto simp: image_image)

lemma moves_more_mem:
  assumes "moves p q = Some S" "(p', q', w) \<in> S"
  obtains T where "moves p (q @ out) = Some T" "(p', q' @ out, w) \<in> T"
  using moves_more [OF assms(1)] assms(2) by force

lemma settles_step:
  assumes "settles Q c" and "duet c c'"
  shows "settles Q c'"
  using assms
proof (induction arbitrary: c' rule: settles.induct)
  case (finish a b)
  then show ?case by (auto elim: duetE)
next
  case (go_left p q S r s)
  from go_left.prems consider
      (1) S' p' q' out where "c' = ((p', q'), (r, s @ out))" "moves p q = Some S'" "(p', q', out) \<in> S'"
    | (2) S' r' s' out where "c' = ((p, q @ out), (r', s'))" "moves r s = Some S'" "(r', s', out) \<in> S'"
    by (rule duetE) auto
  then show ?case
  proof cases
    case 1
    with go_left show ?thesis by simp
  next
    case 2
    note mr = moves_more [OF go_left.hyps(1), of out]
    have "settles Q ((p', q' @ out), (r', s' @ w))" if "(p', q', w) \<in> S" for p' q' w
    proof -
      obtain T where "moves r (s @ w) = Some T" "(r', s' @ w, out) \<in> T"
        using moves_more_mem [OF 2(2,3)] by blast
      then have "duet ((p', q'), (r, s @ w)) ((p', q' @ out), (r', s' @ w))"
        by (rule duet.right)
      with go_left.IH [OF that] show ?thesis .
    qed
    then show ?thesis unfolding 2(1) by (intro settles.go_left [OF mr]) (use go_left.hyps(2) in auto)
  qed
next
  case (go_right r s S p q)
  from go_right.prems consider
      (1) S' p' q' out where "c' = ((p', q'), (r, s @ out))" "moves p q = Some S'" "(p', q', out) \<in> S'"
    | (2) S' r' s' out where "c' = ((p, q @ out), (r', s'))" "moves r s = Some S'" "(r', s', out) \<in> S'"
    by (rule duetE) auto
  then show ?case
  proof cases
    case 2
    with go_right show ?thesis by simp
  next
    case 1
    note mr = moves_more [OF go_right.hyps(1), of out]
    have "settles Q ((p', q' @ w), (r', s' @ out))" if "(r', s', w) \<in> S" for r' s' w
    proof -
      obtain T where "moves p (q @ w) = Some T" "(p', q' @ w, out) \<in> T"
        using moves_more_mem [OF 1(2,3)] by blast
      then have "duet ((p, q @ w), (r', s')) ((p', q' @ w), (r', s' @ out))"
        by (rule duet.left)
      with go_right.IH [OF that] show ?thesis .
    qed
    then show ?thesis unfolding 1(1) by (intro settles.go_right [OF mr]) (use go_right.hyps(2) in auto)
  qed
qed

text \<open>Whatever the schedule, a settling pair never deviates: every configuration it reaches still
  settles, and the ones with no further step are settled.\<close>

lemma settles_reachable: "duet\<^sup>*\<^sup>* c c' \<Longrightarrow> settles Q c \<Longrightarrow> settles Q c'"
  by (induction rule: rtranclp_induct) (auto intro: settles_step)

text \<open>Every draw has an outcome when the bounds are positive; \<open>live\<close> says so of a process.\<close>

primrec live :: "'r io \<Rightarrow> bool" where
  "live (Return r) \<longleftrightarrow> True"
| "live (Write b k) \<longleftrightarrow> (\<forall>e. live (k e))"
| "live (Read k) \<longleftrightarrow> (\<forall>r. live (k r))"
| "live (SetDeadline t k) \<longleftrightarrow> live k"
| "live (CloseConn k) \<longleftrightarrow> (\<forall>e. live (k e))"
| "live (Random n k) \<longleftrightarrow> (\<forall>b. live (k b))"
| "live (IntN n k) \<longleftrightarrow> 0 < n \<and> (\<forall>i. live (k i))"
| "live (Now k) \<longleftrightarrow> (\<forall>t. live (k t))"
| "live Hang \<longleftrightarrow> False"

lemma live_bind [simp]: "live p \<Longrightarrow> (\<And>x. live (f x)) \<Longrightarrow> live (io_bind p f)"
  by (induction p) auto

lemma live_try [simp]: "live p \<Longrightarrow> (\<And>x. live (f x)) \<Longrightarrow> live (io_try p f)"
  unfolding io_try_def by (rule live_bind) (auto split: sum.splits)

text \<open>A live process has a run.\<close>

lemma time_ok_0: "time_ok 0"
  by (simp add: time_ok_def)

lemma live_run: "live p \<Longrightarrow> \<exists>es r. run p es = Some (r, [])"
proof (induction p)
  case (Return r)
  have "run (Return r) [] = Some (r, [])" by simp
  then show ?case by blast
next
  case (Write b k)
  then have "live (k None)" by simp
  from Write.IH [OF rangeI this] obtain es r where "run (k None) es = Some (r, [])" by blast
  then have "run (Write b k) (EWrite b None # es) = Some (r, [])" by simp
  then show ?case by blast
next
  case (Read k)
  then have "live (k (Inr []))" by simp
  from Read.IH [OF rangeI this] obtain es r where "run (k (Inr [])) es = Some (r, [])" by blast
  then have "run (Read k) (ERead (Inr []) # es) = Some (r, [])" by simp
  then show ?case by blast
next
  case (SetDeadline t p)
  then obtain es r where "run p es = Some (r, [])" by auto
  then have "run (SetDeadline t p) (ESetDeadline t # es) = Some (r, [])" by simp
  then show ?case by blast
next
  case (CloseConn k)
  then have "live (k None)" by simp
  from CloseConn.IH [OF rangeI this] obtain es r where "run (k None) es = Some (r, [])" by blast
  then have "run (CloseConn k) (EClose None # es) = Some (r, [])" by simp
  then show ?case by blast
next
  case (Random n k)
  then have "live (k (replicate n 0))" by simp
  from Random.IH [OF rangeI this] obtain es r where "run (k (replicate n 0)) es = Some (r, [])" by blast
  then have "run (Random n k) (ERandom (replicate n 0) # es) = Some (r, [])" by simp
  then show ?case by blast
next
  case (IntN n k)
  then have "live (k 0)" by simp
  from IntN.IH [OF rangeI this] obtain es r where "run (k 0) es = Some (r, [])" by blast
  then have "run (IntN n k) (EIntN 0 # es) = Some (r, [])" using IntN by simp
  then show ?case by blast
next
  case (Now k)
  then have "live (k 0)" by simp
  from Now.IH [OF rangeI this] obtain es r where "run (k 0) es = Some (r, [])" by blast
  then have "run (Now k) (ENow 0 # es) = Some (r, [])" by (simp add: time_ok_0)
  then show ?case by blast
qed simp

lemma settles_progress:
  assumes "settles Q c"
  shows "settled Q c \<or> (\<exists>c'. duet c c')"
  using assms
proof (cases rule: settles.cases)
  case (go_left p q S r s)
  then obtain p' q' w where "(p', q', w) \<in> S" by fastforce
  with duet.left [OF go_left(2)] show ?thesis unfolding go_left(1) by blast
next
  case (go_right r s S p q)
  then obtain r' s' w where "(r', s', w) \<in> S" by fastforce
  with duet.right [OF go_right(2)] show ?thesis unfolding go_right(1) by blast
qed (auto simp: settled_def)

text \<open>The form in which the properties use it: from wherever the two have got to, under whatever
  schedule and draws, they can still reach an end of the required kind, and only such an end.\<close>

definition completes :: "('a \<Rightarrow> 'b \<Rightarrow> bool) \<Rightarrow> ('a, 'b) config \<Rightarrow> bool" where
  "completes Q c \<longleftrightarrow> (\<forall>c'. duet\<^sup>*\<^sup>* c c' \<longrightarrow>
     (settled Q c' \<or> (\<exists>c''. duet c' c'')) \<and> (\<exists>c''. duet\<^sup>*\<^sup>* c' c'' \<and> settled Q c''))"

text \<open>And it gets there: a process only ever moves to one of its own branches, so no pair of
  processes takes infinitely many steps.\<close>

definition branch :: "'r io rel" where
  "branch = {(p', p). \<exists>q S q' w. moves p q = Some S \<and> (p', q', w) \<in> S}"

lemma branch_acc: "p \<in> Wellfounded.acc branch"
proof (induction p)
  case (Read k)
  show ?case
  proof (rule accI)
    fix p' assume "(p', Read k) \<in> branch"
    then obtain q S q' w where "moves (Read k) q = Some S" "(p', q', w) \<in> S" by (auto simp: branch_def)
    then have "\<exists>r. p' = k r" by (cases q) auto
    then show "p' \<in> Wellfounded.acc branch" using Read by auto
  qed
qed (rule accI; auto simp: branch_def)+

lemma wf_branch: "wf branch"
  by (rule acc_wfI) (simp add: branch_acc)

lemma duet_terminates: "wfp (\<lambda>c' c. duet c c')"
proof -
  have "wf (inv_image (branch <*lex*> branch)
          (\<lambda>c :: ('a, 'b) config. (fst (fst c), fst (snd c))))"
    by (intro wf_inv_image wf_lex_prod wf_branch)
  then have "wf {(c', c :: ('a, 'b) config). duet c c'}"
    by (rule wf_subset) (auto simp: branch_def elim!: duet.cases)
  then show ?thesis by (simp add: wfp_def)
qed

lemma settles_reaches: "settles Q c \<Longrightarrow> \<exists>c'. duet\<^sup>*\<^sup>* c c' \<and> settled Q c'"
proof (induction c rule: wfp_induct_rule [OF duet_terminates])
  case (1 c)
  from settles_progress [OF 1(2)] consider "settled Q c" | c' where "duet c c'" by blast
  then show ?case
  proof cases
    case 2
    from 1(1) [OF 2 settles_step [OF 1(2) 2]] 2 show ?thesis by (meson converse_rtranclp_into_rtranclp)
  qed blast
qed

lemma settles_completes: "settles Q c \<Longrightarrow> completes Q c"
  unfolding completes_def using settles_reachable settles_progress settles_reaches by metis

text \<open>The two sides are interchangeable.\<close>

lemma settles_swap:
  assumes "settles (\<lambda>b a. Q a b) ((r, s), (p, q))"
  shows "settles Q ((p, q), (r, s))"
proof -
  have "settles Q (prod.swap c)" if "settles (\<lambda>b a. Q a b) c" for c
    using that
  proof (induction rule: settles.induct)
    case (finish a b)
    then show ?case by (simp add: settles.finish)
  next
    case (go_left p q S r s)
    then show ?case by (auto intro: settles.go_right)
  next
    case (go_right r s S p q)
    then show ?case by (auto intro: settles.go_left)
  qed
  from this [OF assms] show ?thesis by simp
qed

text \<open>What a process does in a pair, it can do alone against the events it saw.\<close>

lemma moves_run:
  assumes "moves p q = Some S" "(p', q', w) \<in> S"
  shows "\<exists>e. \<forall>es z. run p' es = Some z \<longrightarrow> run p (e # es) = Some z"
  using assms
proof (cases "(p, q)" rule: moves.cases)
  case (2 b k q)
  with assms have "\<forall>es z. run p' es = Some z \<longrightarrow> run p (EWrite b None # es) = Some z" by auto
  then show ?thesis by blast
next
  case (4 k m q)
  with assms have "\<forall>es z. run p' es = Some z \<longrightarrow> run p (ERead (Inr m) # es) = Some z" by auto
  then show ?thesis by blast
next
  case (5 t k q)
  with assms have "\<forall>es z. run p' es = Some z \<longrightarrow> run p (ESetDeadline t # es) = Some z" by auto
  then show ?thesis by blast
next
  case (6 k q)
  with assms have "\<forall>es z. run p' es = Some z \<longrightarrow> run p (EClose None # es) = Some z" by auto
  then show ?thesis by blast
next
  case (7 n k q)
  with assms obtain bs where "length bs = n" "p' = k bs" by auto
  with 7 have "\<forall>es z. run p' es = Some z \<longrightarrow> run p (ERandom bs # es) = Some z" by auto
  then show ?thesis by blast
next
  case (8 n k q)
  with assms obtain i where "i < n" "p' = k i" by auto
  with 8 have "\<forall>es z. run p' es = Some z \<longrightarrow> run p (EIntN i # es) = Some z" by auto
  then show ?thesis by blast
next
  case (9 k q)
  with assms obtain t where "time_ok t" "p' = k t" by auto
  with 9 have "\<forall>es z. run p' es = Some z \<longrightarrow> run p (ENow t # es) = Some z" by auto
  then show ?thesis by blast
qed simp_all

lemma duet_run_left:
  "duet c c' \<Longrightarrow> \<exists>es. run (fst (fst c')) es = Some z \<Longrightarrow> \<exists>es. run (fst (fst c)) es = Some z"
proof (induction rule: duet.induct)
  case (left p q S p' q' out r s)
  from left(3) have "\<exists>es. run p' es = Some z" by simp
  with moves_run [OF left(1,2)] have "\<exists>es. run p es = Some z" by blast
  then show ?case by simp
qed simp

lemma duet_run_right:
  "duet c c' \<Longrightarrow> \<exists>es. run (fst (snd c')) es = Some z \<Longrightarrow> \<exists>es. run (fst (snd c)) es = Some z"
proof (induction rule: duet.induct)
  case (right r s S r' s' out p q)
  from right(3) have "\<exists>es. run r' es = Some z" by simp
  with moves_run [OF right(1,2)] have "\<exists>es. run r es = Some z" by blast
  then show ?case by simp
qed simp

lemma duets_run_left:
  "duet\<^sup>*\<^sup>* c c' \<Longrightarrow> \<exists>es. run (fst (fst c')) es = Some z \<Longrightarrow> \<exists>es. run (fst (fst c)) es = Some z"
  by (induction rule: converse_rtranclp_induct) (auto dest: duet_run_left)

lemma duets_run_right:
  "duet\<^sup>*\<^sup>* c c' \<Longrightarrow> \<exists>es. run (fst (snd c')) es = Some z \<Longrightarrow> \<exists>es. run (fst (snd c)) es = Some z"
  by (induction rule: converse_rtranclp_induct) (auto dest: duet_run_right)

lemma settles_runs:
  assumes "settles Q ((p, []), (r, []))"
  shows "\<exists>es a es' b. run p es = Some (a, []) \<and> run r es' = Some (b, []) \<and> Q a b"
proof -
  from settles_reaches [OF assms] obtain a b
    where d: "duet\<^sup>*\<^sup>* ((p, []), (r, [])) ((Return a, []), (Return b, []))" and Q: "Q a b"
    by (auto simp: settled_def)
  have "run (Return a) [] = Some (a, [])" "run (Return b) [] = Some (b, [])" by simp_all
  then have "\<exists>es. run p es = Some (a, [])" "\<exists>es. run r es = Some (b, [])"
    using duets_run_left [OF d, of "(a, [])"] duets_run_right [OF d, of "(b, [])"] by auto
  with Q show ?thesis by blast
qed

text \<open>Symbolic execution of a pair, call by call.\<close>

lemma settles_left_Write:
  "settles Q ((k None, q), (r, s @ [b])) \<Longrightarrow> settles Q ((Write b k, q), (r, s))"
  by (rule settles.go_left) auto

lemma settles_left_Read:
  "settles Q ((k (Inr m), q), (r, s)) \<Longrightarrow> settles Q ((Read k, m # q), (r, s))"
  by (rule settles.go_left) auto

lemma settles_left_SetDeadline:
  "settles Q ((p, q), (r, s)) \<Longrightarrow> settles Q ((SetDeadline t p, q), (r, s))"
  by (rule settles.go_left) auto

lemma settles_left_Random:
  "(\<And>bs. length bs = n \<Longrightarrow> settles Q ((k bs, q), (r, s))) \<Longrightarrow> settles Q ((Random n k, q), (r, s))"
  by (rule settles.go_left) (auto intro: length_replicate [of n 0])

lemma settles_left_IntN:
  "0 < n \<Longrightarrow> (\<And>i. i < n \<Longrightarrow> settles Q ((k i, q), (r, s))) \<Longrightarrow> settles Q ((IntN n k, q), (r, s))"
  by (rule settles.go_left) auto

lemma settles_left_Now:
  "(\<And>t. time_ok t \<Longrightarrow> settles Q ((k t, q), (r, s))) \<Longrightarrow> settles Q ((Now k, q), (r, s))"
  by (rule settles.go_left) (auto intro: time_ok_0)

lemma settles_left_CloseConn:
  "settles Q ((k None, q), (r, s)) \<Longrightarrow> settles Q ((CloseConn k, q), (r, s))"
  by (rule settles.go_left) auto

lemmas settles_left = settles_left_Write settles_left_Read settles_left_SetDeadline settles_left_CloseConn
  settles_left_Random settles_left_IntN settles_left_Now

lemma settles_right_Write:
  "settles Q ((p, q @ [b]), (k None, s)) \<Longrightarrow> settles Q ((p, q), (Write b k, s))"
  by (rule settles.go_right) auto

lemma settles_right_Read:
  "settles Q ((p, q), (k (Inr m), s)) \<Longrightarrow> settles Q ((p, q), (Read k, m # s))"
  by (rule settles.go_right) auto

lemma settles_right_SetDeadline:
  "settles Q ((p, q), (r, s)) \<Longrightarrow> settles Q ((p, q), (SetDeadline t r, s))"
  by (rule settles.go_right) auto

lemma settles_right_Random:
  "(\<And>bs. length bs = n \<Longrightarrow> settles Q ((p, q), (k bs, s))) \<Longrightarrow> settles Q ((p, q), (Random n k, s))"
  by (rule settles.go_right) (auto intro: length_replicate [of n 0])

lemma settles_right_IntN:
  "0 < n \<Longrightarrow> (\<And>i. i < n \<Longrightarrow> settles Q ((p, q), (k i, s))) \<Longrightarrow> settles Q ((p, q), (IntN n k, s))"
  by (rule settles.go_right) auto

lemma settles_right_Now:
  "(\<And>t. time_ok t \<Longrightarrow> settles Q ((p, q), (k t, s))) \<Longrightarrow> settles Q ((p, q), (Now k, s))"
  by (rule settles.go_right) (auto intro: time_ok_0)

lemma settles_right_CloseConn:
  "settles Q ((p, q), (k None, s)) \<Longrightarrow> settles Q ((p, q), (CloseConn k, s))"
  by (rule settles.go_right) auto

lemmas settles_right = settles_right_Write settles_right_Read settles_right_SetDeadline settles_right_CloseConn
  settles_right_Random settles_right_IntN settles_right_Now

subsection \<open>Local computations\<close>

text \<open>A process that only draws and reads the clock, and whose every result is in \<open>P\<close>.\<close>

primrec yields :: "'r io \<Rightarrow> ('r \<Rightarrow> bool) \<Rightarrow> bool" where
  "yields (Return r) P \<longleftrightarrow> P r"
| "yields (Write b k) P \<longleftrightarrow> False"
| "yields (Read k) P \<longleftrightarrow> False"
| "yields (SetDeadline t k) P \<longleftrightarrow> False"
| "yields (CloseConn k) P \<longleftrightarrow> False"
| "yields (Random n k) P \<longleftrightarrow> (\<forall>bs. length bs = n \<longrightarrow> yields (k bs) P)"
| "yields (IntN n k) P \<longleftrightarrow> 0 < n \<and> (\<forall>i<n. yields (k i) P)"
| "yields (Now k) P \<longleftrightarrow> (\<forall>t. time_ok t \<longrightarrow> yields (k t) P)"
| "yields Hang P \<longleftrightarrow> False"

lemma yields_mono: "yields p P \<Longrightarrow> (\<And>r. P r \<Longrightarrow> Q r) \<Longrightarrow> yields p Q"
  by (induction p) auto

lemma yields_bind: "yields p P \<Longrightarrow> (\<And>r. P r \<Longrightarrow> yields (f r) Q) \<Longrightarrow> yields (io_bind p f) Q"
  by (induction p) auto

lemma yields_conj: "yields p P \<Longrightarrow> yields p Q \<Longrightarrow> yields p (\<lambda>r. P r \<and> Q r)"
  by (induction p) auto

lemma yields_run: "run p es = Some (r, es') \<Longrightarrow> yields p P \<Longrightarrow> P r"
  by (induction p es rule: run.induct) (auto split: if_splits)

text \<open>It does return.\<close>

lemma yields_ex: "yields p P \<Longrightarrow> \<exists>es r. run p es = Some (r, []) \<and> P r"
proof (induction p)
  case (Return x)
  then have "run (Return x) [] = Some (x, []) \<and> P x" by simp
  then show ?case by blast
next
  case (Random n k)
  then have "yields (k (replicate n 0)) P" by simp
  with Random.IH [OF rangeI] obtain es r where "run (k (replicate n 0)) es = Some (r, [])" "P r" by blast
  then have "run (Random n k) (ERandom (replicate n 0) # es) = Some (r, []) \<and> P r" by simp
  then show ?case by blast
next
  case (IntN n k)
  then have "0 < n" "yields (k 0) P" by simp_all
  with IntN.IH [OF rangeI] obtain es r where "run (k 0) es = Some (r, [])" "P r" by blast
  with \<open>0 < n\<close> have "run (IntN n k) (EIntN 0 # es) = Some (r, []) \<and> P r" by simp
  then show ?case by blast
next
  case (Now k)
  then have "yields (k 0) P" using time_ok_0 by simp
  with Now.IH [OF rangeI] obtain es r where "run (k 0) es = Some (r, [])" "P r" by blast
  then have "run (Now k) (ENow 0 # es) = Some (r, []) \<and> P r" by (simp add: time_ok_0)
  then show ?case by blast
qed simp_all

lemma yields_left:
  "yields p P \<Longrightarrow> (\<And>x. P x \<Longrightarrow> settles Q ((f x, q), (r, s))) \<Longrightarrow> settles Q ((io_bind p f, q), (r, s))"
  by (induction p) (auto intro: settles_left)

lemma yields_right:
  "yields r P \<Longrightarrow> (\<And>x. P x \<Longrightarrow> settles Q ((p, q), (f x, s))) \<Longrightarrow> settles Q ((p, q), (io_bind r f, s))"
  by (induction r) (auto intro: settles_right)

text \<open>Two processes that settle, followed by two that settle from their results, settle.\<close>

lemma moves_bind:
  "moves p q = Some S \<Longrightarrow> moves (io_bind p f) q = Some ((\<lambda>(p', q', out). (io_bind p' f, q', out)) ` S)"
  by (cases "(p, q)" rule: moves.cases) (auto simp: image_image)

lemma settles_bind:
  assumes "settles P ((p, q), (r, s))"
    and "\<And>a b. P a b \<Longrightarrow> settles Q ((f a, []), (g b, []))"
  shows "settles Q ((io_bind p f, q), (io_bind r g, s))"
proof -
  have "settles Q ((io_bind (fst (fst c)) f, snd (fst c)), (io_bind (fst (snd c)) g, snd (snd c)))" if "settles P c" for c
    using that
  proof (induction rule: settles.induct)
    case (finish a b)
    then show ?case by (simp add: assms(2))
  next
    case (go_left p q S r s)
    then show ?case by (auto intro!: settles.go_left [OF moves_bind [OF go_left(1)]])
  next
    case (go_right r s S p q)
    then show ?case by (auto intro!: settles.go_right [OF moves_bind [OF go_right(1)]])
  qed
  from this [OF assms(1)] show ?thesis by simp
qed

end
