(* ===== verification/Platform.thy ===== *)
theory Platform
  imports Process Routes Padding
begin

text \<open>
  The interfaces of the code outside the repository: the cryptographic primitives (\<open>crypto\<close>), the
  protobuf marshalling of messages (\<open>codec\<close>, \<open>wire\<close>), the documented laws the protocol relies on,
  the error values of errors.go, and concrete instances of the interfaces that show the laws can hold.
\<close>

subsection \<open>Errors\<close>

text \<open>One constructor per \<^verbatim>\<open>errors.Is\<close> class; the wrapping text is not kept. The errors of a
  connection, \<^verbatim>\<open>ErrConnClosed\<close> and \<^verbatim>\<open>ErrMessageTooLarge\<close> among them, stand under \<open>ConnErr\<close>.\<close>

datatype kerror =
    ConnErr conn_error
  | ErrVersionMismatch
  | ErrClosedServer
  | ErrPeerDisconnected
  | ErrInvalidSignature
  | ErrVerificationFailed
  | ErrOutOfSync
  | ErrUnexpectedRoute
  | ErrInvalidRoute
  | ErrReceiveTimeout
  | ErrResumptionRejected
  | ErrInvalidCiphertext
  | ErrMarshal
  | ErrUnmarshal
  | ErrCrypto
  | ErrHandshakeFields
  | ErrTruncated
  | ErrPanic
  | ErrResumeRejected
  | ErrHandler string
  | ErrStorage string

subsection \<open>Cryptographic primitives\<close>

text \<open>What \<^verbatim>\<open>x509\<close> finds in a DER key: an Ed25519 key, or a key of another type.\<close>

datatype parsed_key = Ed25519Key bytes | OtherKey

record crypto =
  ed_public :: "bytes \<Rightarrow> bytes"
  ed_sign :: "bytes \<Rightarrow> bytes \<Rightarrow> bytes"
  ed_verify :: "bytes \<Rightarrow> bytes \<Rightarrow> bytes \<Rightarrow> bool"
  ed_seed_size :: nat
  ed_generate :: "bytes \<Rightarrow> bytes"
  pkix_marshal :: "bytes \<Rightarrow> bytes"
  pkix_parse :: "bytes \<Rightarrow> parsed_key option"
  pkcs8_marshal :: "bytes \<Rightarrow> bytes"
  pkcs8_parse :: "bytes \<Rightarrow> parsed_key option"
  hkdf_sha512 :: "bytes \<Rightarrow> bytes \<Rightarrow> bytes \<Rightarrow> nat \<Rightarrow> bytes option"
  xchacha_seal :: "bytes \<Rightarrow> bytes \<Rightarrow> bytes \<Rightarrow> bytes"
  xchacha_open :: "bytes \<Rightarrow> bytes \<Rightarrow> bytes \<Rightarrow> bytes option"
  sha256_sum :: "bytes \<Rightarrow> bytes"
  sha3_512 :: "bytes \<Rightarrow> bytes"
  mlkem_seed_size :: nat
  mlkem_generate :: "bytes \<Rightarrow> bytes"
  mlkem_public :: "bytes \<Rightarrow> bytes"
  mlkem_valid :: "bytes \<Rightarrow> bool"
  mlkem_coins :: nat
  mlkem_encap :: "bytes \<Rightarrow> bytes \<Rightarrow> bytes \<times> bytes"
  mlkem_decap :: "bytes \<Rightarrow> bytes \<Rightarrow> bytes option"
  hpke_seed_size :: nat
  hpke_generate :: "bytes \<Rightarrow> bytes"
  hpke_public :: "bytes \<Rightarrow> bytes"
  hpke_valid :: "bytes \<Rightarrow> bool"
  hpke_coins :: nat
  hpke_sender :: "bytes \<Rightarrow> bytes \<Rightarrow> (bytes \<times> bytes) option"
  hpke_recipient :: "bytes \<Rightarrow> bytes \<Rightarrow> bytes option"
  hpke_seal :: "bytes \<Rightarrow> nat \<Rightarrow> bytes \<Rightarrow> bytes option"
  hpke_open :: "bytes \<Rightarrow> nat \<Rightarrow> bytes \<Rightarrow> bytes option"

text \<open>The documented behaviour the protocol relies on, law by law.\<close>

definition sign_law :: "crypto \<Rightarrow> bool" where
  "sign_law cr \<longleftrightarrow>
     (\<forall>priv m. ed_verify cr (ed_public cr priv) m (ed_sign cr priv m)) \<and>
     (\<forall>priv m. length (ed_sign cr priv m) = 64) \<and>
     (\<forall>pub. pkix_parse cr (pkix_marshal cr pub) = Some (Ed25519Key pub)) \<and>
     (\<forall>priv. pkcs8_parse cr (pkcs8_marshal cr priv) = Some (Ed25519Key priv))"

definition hkdf_law :: "crypto \<Rightarrow> bool" where
  "hkdf_law cr \<longleftrightarrow>
     (\<forall>k s i n. n \<le> 255 * 64 \<longrightarrow> (\<exists>d. hkdf_sha512 cr k s i n = Some d \<and> length d = n))"

definition aead_law :: "crypto \<Rightarrow> bool" where
  "aead_law cr \<longleftrightarrow>
     (\<forall>k n p. xchacha_open cr k n (xchacha_seal cr k n p) = Some p) \<and>
     (\<forall>k n p. length (xchacha_seal cr k n p) = length p + 16)"

definition mlkem_law :: "crypto \<Rightarrow> bool" where
  "mlkem_law cr \<longleftrightarrow>
     (\<forall>dk. mlkem_valid cr (mlkem_public cr dk) \<and> length (mlkem_public cr dk) = 1184) \<and>
     (\<forall>dk r. length (snd (mlkem_encap cr (mlkem_public cr dk) r)) = 1088 \<and>
        mlkem_decap cr dk (snd (mlkem_encap cr (mlkem_public cr dk) r)) =
              Some (fst (mlkem_encap cr (mlkem_public cr dk) r)))"

definition hpke_law :: "crypto \<Rightarrow> bool" where
  "hpke_law cr \<longleftrightarrow>
     (\<forall>sk. hpke_valid cr (hpke_public cr sk) \<and> length (hpke_public cr sk) = 1216) \<and>
     (\<forall>sk r. \<exists>enc ctx. hpke_sender cr (hpke_public cr sk) r = Some (enc, ctx) \<and>
        length enc = 1120 \<and> hpke_recipient cr enc sk = Some ctx) \<and>
     (\<forall>ctx n p. n < 2 ^ 64 \<longrightarrow> (\<exists>c. hpke_seal cr ctx n p = Some c \<and> hpke_open cr ctx n c = Some p))"

definition crypto_laws :: "crypto \<Rightarrow> bool" where
  "crypto_laws cr \<longleftrightarrow> sign_law cr \<and> hkdf_law cr \<and> aead_law cr \<and> mlkem_law cr \<and> hpke_law cr"

subsection \<open>Protobuf messages\<close>

text \<open>\<^verbatim>\<open>proto.Marshal\<close> and \<^verbatim>\<open>proto.Unmarshal\<close> at one message type. Marshalling fails on a string
  that is not UTF-8; \<open>codec_ok V\<close> is the round trip on the messages of \<open>V\<close>.\<close>

record 'a codec =
  enc :: "'a \<Rightarrow> bytes option"
  dec :: "bytes \<Rightarrow> 'a option"

definition codec_ok :: "('a \<Rightarrow> bool) \<Rightarrow> 'a codec \<Rightarrow> bool" where
  "codec_ok V c \<longleftrightarrow> (\<forall>x. V x \<longrightarrow> (\<exists>b. enc c x = Some b \<and> dec c b = Some x))"

record signed_transport =
  st_Data :: bytes
  st_Signature :: bytes
  st_Metadata :: bytes
  st_Padding :: bytes

record metadata =
  md_ID :: bytes
  md_Timestamp :: "gotime option"
  md_Sequence :: "64 word"
  md_Route :: pb_route

record introduce =
  in_Name :: bytes
  in_PublicKey :: bytes
  in_AppVersion :: bytes

record handshake =
  hs_Key :: bytes
  hs_Salt :: bytes
  hs_SessionKey :: bytes

record resume_request =
  rr_SessionID :: bytes
  rr_Token :: bytes

record resume_accept =
  ra_Accepted :: bool
  ra_Reason :: bytes

record pb_peer =
  pp_Name :: bytes
  pp_PublicKey :: bytes
  pp_FirstSeen :: "gotime option"
  pp_LastSeen :: "gotime option"
  pp_AppVersion :: bytes

record wire =
  w_st :: "signed_transport codec"
  w_md :: "metadata codec"
  w_bytes :: "bytes codec"
  w_introduce :: "introduce codec"
  w_handshake :: "handshake codec"
  w_resume_request :: "resume_request codec"
  w_resume_accept :: "resume_accept codec"
  w_peer :: "pb_peer codec"

text \<open>A proto3 message is the concatenation of its fields. A \<^verbatim>\<open>bytes\<close> or \<^verbatim>\<open>string\<close> field takes its
  tag, a varint length and the content, nothing when empty; a timestamp takes at most 24 bytes, a
  64-bit varint field at most 11. \<open>ascii\<close> is a sufficient test for the UTF-8 check of \<^verbatim>\<open>string\<close> fields.\<close>

definition ascii :: "bytes \<Rightarrow> bool" where
  "ascii s \<longleftrightarrow> list_all (\<lambda>b. b < 128) s"

definition md_ok :: "metadata \<Rightarrow> bool" where
  "md_ok m \<longleftrightarrow> ascii (md_ID m) \<and> (case md_Timestamp m of None \<Rightarrow> True | Some t \<Rightarrow> time_ok t) \<and>
     - (2 ^ 31) \<le> md_Route m \<and> md_Route m < 2 ^ 31"

definition pb_peer_ok :: "pb_peer \<Rightarrow> bool" where
  "pb_peer_ok p \<longleftrightarrow> ascii (pp_Name p) \<and> ascii (pp_AppVersion p) \<and>
     (\<forall>t. pp_FirstSeen p = Some t \<or> pp_LastSeen p = Some t \<longrightarrow> time_ok t)"

definition wire_laws :: "wire \<Rightarrow> bool" where
  "wire_laws w \<longleftrightarrow>
     codec_ok (\<lambda>_. True) (w_st w) \<and>
     codec_ok md_ok (w_md w) \<and>
     codec_ok (\<lambda>_. True) (w_bytes w) \<and>
     codec_ok (\<lambda>m. ascii (in_Name m) \<and> ascii (in_AppVersion m)) (w_introduce w) \<and>
     codec_ok (\<lambda>m. ascii (hs_SessionKey m)) (w_handshake w) \<and>
     codec_ok (\<lambda>m. ascii (rr_SessionID m)) (w_resume_request w) \<and>
     codec_ok (\<lambda>m. ascii (ra_Reason m)) (w_resume_accept w) \<and>
     codec_ok pb_peer_ok (w_peer w)"

definition wire_sizes :: "wire \<Rightarrow> bool" where
  "wire_sizes w \<longleftrightarrow>
     (\<forall>st b. enc (w_st w) st = Some b \<longrightarrow>
        length b = bytes_field_size (length (st_Data st)) + bytes_field_size (length (st_Signature st)) +
          bytes_field_size (length (st_Metadata st)) + bytes_field_size (length (st_Padding st))) \<and>
     (\<forall>m b. enc (w_md w) m = Some b \<longrightarrow> length b \<le> bytes_field_size (length (md_ID m)) + 46) \<and>
     (\<forall>x b. enc (w_bytes w) x = Some b \<longrightarrow> length b \<le> bytes_field_size (length x)) \<and>
     (\<forall>h b. enc (w_handshake w) h = Some b \<longrightarrow>
        length b = bytes_field_size (length (hs_Key h)) + bytes_field_size (length (hs_Salt h)) +
          bytes_field_size (length (hs_SessionKey h))) \<and>
     (\<forall>r b. enc (w_resume_request w) r = Some b \<longrightarrow>
        length b = bytes_field_size (length (rr_SessionID r)) + bytes_field_size (length (rr_Token r))) \<and>
     (\<forall>a b. enc (w_resume_accept w) a = Some b \<longrightarrow> length b \<le> 2 + bytes_field_size (length (ra_Reason a)))"

end
