(* ===== verification/Primitives.thy ===== *)
theory Primitives
  imports Platform
begin

text \<open>
  The thin layers over the cryptographic primitives: identities (pkg/attest/attest.go), the
  symmetric cipher and key derivation (internal/enigma/enigma.go).
\<close>

subsection \<open>Identities\<close>

record attest =
  publicKey :: bytes
  privateKey :: bytes

datatype key_error = ErrParseKey | ErrInvalidKey

definition parsePublicKey :: "crypto \<Rightarrow> bytes \<Rightarrow> key_error + bytes" where
  "parsePublicKey cr key =
     (case pkix_parse cr key of
        None \<Rightarrow> Inl ErrParseKey
      | Some OtherKey \<Rightarrow> Inl ErrInvalidKey
      | Some (Ed25519Key p) \<Rightarrow> Inr p)"

definition Verify :: "crypto \<Rightarrow> bytes \<Rightarrow> bytes \<Rightarrow> bytes \<Rightarrow> bool" where
  "Verify cr remote msg sig =
     (case parsePublicKey cr remote of Inr p \<Rightarrow> ed_verify cr p msg sig | Inl _ \<Rightarrow> False)"

definition IsValidPublicKey :: "crypto \<Rightarrow> bytes \<Rightarrow> bool" where
  "IsValidPublicKey cr b = (case parsePublicKey cr b of Inr _ \<Rightarrow> True | Inl _ \<Rightarrow> False)"

definition Sign :: "crypto \<Rightarrow> attest \<Rightarrow> bytes \<Rightarrow> bytes" where
  "Sign cr e msg = ed_sign cr (privateKey e) msg"

definition MarshalPublicKey :: "crypto \<Rightarrow> attest \<Rightarrow> bytes" where
  "MarshalPublicKey cr e = pkix_marshal cr (publicKey e)"

definition MarshalPrivateKey :: "crypto \<Rightarrow> attest \<Rightarrow> bytes" where
  "MarshalPrivateKey cr e = pkcs8_marshal cr (privateKey e)"

definition attest_New :: "crypto \<Rightarrow> attest io" where
  "attest_New cr =
     Random (ed_seed_size cr) (\<lambda>seed.
       let private = ed_generate cr seed
       in Return \<lparr>publicKey = ed_public cr private, privateKey = private\<rparr>)"

definition attest_Load :: "crypto \<Rightarrow> bytes \<Rightarrow> key_error + attest" where
  "attest_Load cr d =
     (case pkcs8_parse cr d of
        None \<Rightarrow> Inl ErrParseKey
      | Some OtherKey \<Rightarrow> Inl ErrInvalidKey
      | Some (Ed25519Key private) \<Rightarrow>
          Inr \<lparr>publicKey = ed_public cr private, privateKey = private\<rparr>)"

text \<open>An identity whose public half belongs to its private half, as \<^verbatim>\<open>New\<close> and \<^verbatim>\<open>Load\<close> build them.\<close>

definition attest_ok :: "crypto \<Rightarrow> attest \<Rightarrow> bool" where
  "attest_ok cr e \<longleftrightarrow> publicKey e = ed_public cr (privateKey e)"

lemma Verify_Sign:
  "sign_law cr \<Longrightarrow> attest_ok cr e \<Longrightarrow> Verify cr (MarshalPublicKey cr e) m (Sign cr e m)"
  by (simp add: sign_law_def attest_ok_def Verify_def parsePublicKey_def MarshalPublicKey_def Sign_def)

lemma length_Sign: "sign_law cr \<Longrightarrow> length (Sign cr e m) = 64"
  by (simp add: sign_law_def Sign_def)

subsection \<open>Symmetric encryption\<close>

definition base32alphabet :: bytes where
  "base32alphabet = lit ''ABCDEFGHIJKLMNOPQRSTUVWXYZ234567''"

definition nonceSize :: nat where "nonceSize = 24"
definition KeySize :: nat where "KeySize = 32"

record enigma =
  aead_key :: bytes

definition Derive :: "crypto \<Rightarrow> bytes \<Rightarrow> bytes \<Rightarrow> bytes \<Rightarrow> nat \<Rightarrow> kerror + bytes" where
  "Derive cr key salt info sz =
     (case hkdf_sha512 cr key salt info sz of None \<Rightarrow> Inl ErrCrypto | Some d \<Rightarrow> Inr d)"

definition NewEnigma :: "crypto \<Rightarrow> bytes \<Rightarrow> bytes \<Rightarrow> bytes \<Rightarrow> kerror + enigma" where
  "NewEnigma cr secret salt info =
     (case Derive cr secret salt info KeySize of
        Inl e \<Rightarrow> Inl e
      | Inr key \<Rightarrow> if length key \<noteq> KeySize then Inl ErrCrypto else Inr \<lparr>aead_key = key\<rparr>)"

definition Encrypt :: "crypto \<Rightarrow> enigma \<Rightarrow> bytes \<Rightarrow> bytes io" where
  "Encrypt cr e plaintext =
     Random nonceSize (\<lambda>nonce. Return (nonce @ xchacha_seal cr (aead_key e) nonce plaintext))"

definition Decrypt :: "crypto \<Rightarrow> enigma \<Rightarrow> bytes \<Rightarrow> kerror + bytes" where
  "Decrypt cr e ciphertext =
     (if length ciphertext < nonceSize then Inl ErrInvalidCiphertext
      else case xchacha_open cr (aead_key e) (take nonceSize ciphertext) (drop nonceSize ciphertext) of
             None \<Rightarrow> Inl ErrCrypto
           | Some plaintext \<Rightarrow> Inr plaintext)"

text \<open>\<^verbatim>\<open>enigma.Text(l)\<close>, and \<^verbatim>\<open>rand.Text\<close> of the standard library, which is the same over 26 bytes.\<close>

definition base32_char :: "byte \<Rightarrow> byte" where
  "base32_char b = base32alphabet ! (unat b mod 32)"

definition enigma_Text :: "nat \<Rightarrow> bytes io" where
  "enigma_Text l = Random l (\<lambda>src. Return (map base32_char src))"

definition rand_Text :: "bytes io" where
  "rand_Text = Random 26 (\<lambda>src. Return (map base32_char src))"

lemma Derive_ok:
  assumes "hkdf_law cr" "n \<le> 16320"
  obtains d where "Derive cr k s i n = Inr d" "length d = n"
proof -
  from assms have "\<exists>d. hkdf_sha512 cr k s i n = Some d \<and> length d = n"
    by (simp add: hkdf_law_def)
  then obtain d where "hkdf_sha512 cr k s i n = Some d" "length d = n" by blast
  then show ?thesis by (intro that [of d]) (simp_all add: Derive_def)
qed

lemma NewEnigma_ok:
  assumes "hkdf_law cr"
  obtains d where "Derive cr k s i KeySize = Inr d" "NewEnigma cr k s i = Inr \<lparr>aead_key = d\<rparr>"
proof -
  obtain d where "Derive cr k s i KeySize = Inr d" "length d = KeySize"
    using Derive_ok [OF assms, of KeySize k s i] by (auto simp: KeySize_def)
  then show ?thesis by (intro that [of d]) (simp_all add: NewEnigma_def)
qed

lemma Decrypt_seal:
  "aead_law cr \<Longrightarrow> length nonce = nonceSize \<Longrightarrow>
     Decrypt cr e (nonce @ xchacha_seal cr (aead_key e) nonce p) = Inr p"
  by (simp add: Decrypt_def aead_law_def)

lemma base32_char_mem: "base32_char b \<in> set base32alphabet"
  unfolding base32_char_def by (rule nth_mem) (simp add: base32alphabet_def)

lemma base32_ascii: "b \<in> set base32alphabet \<Longrightarrow> b < 128"
  by (auto simp: base32alphabet_def lit_def)

lemma ascii_text: "ascii (map base32_char src)"
  using base32_ascii [OF base32_char_mem] by (auto simp: ascii_def list_all_iff)

lemma ascii_append [simp]: "ascii (a @ b) \<longleftrightarrow> ascii a \<and> ascii b"
  by (simp add: ascii_def)

end
