(* ===== verification/Instances.thy ===== *)
theory Instances
  imports Platform
begin

text \<open>
  Concrete instances of the external interfaces that satisfy the laws of the theory Platform: a
  protobuf-like encoding (length-delimited fields with tags, absent when empty) and transparent
  stand-ins for the cryptographic primitives. They only show that the laws are consistent and give
  the properties that assume them something to be applied to; they carry no security.
\<close>

subsection \<open>Messages\<close>

function get_uvarint :: "bytes \<Rightarrow> nat \<times> bytes" where
  "get_uvarint [] = (0, [])"
| "get_uvarint (b # bs) =
     (if unat b < 128 then (unat b, bs)
      else let (n, rest) = get_uvarint bs in (unat b - 128 + 128 * n, rest))"
  by pat_completeness auto
termination by (relation "measure length") auto

definition put_field :: "nat \<Rightarrow> bytes \<Rightarrow> bytes" where
  "put_field i x = (if x = [] then [] else of_nat (8 * i + 2) # uvarint (length x) @ x)"

definition get_field :: "nat \<Rightarrow> bytes \<Rightarrow> bytes \<times> bytes" where
  "get_field i bs =
     (case bs of
        [] \<Rightarrow> ([], [])
      | b # bs' \<Rightarrow>
          if b = of_nat (8 * i + 2)
          then let (n, rest) = get_uvarint bs' in (take n rest, drop n rest)
          else ([], bs))"

fun put_fields :: "nat \<Rightarrow> bytes list \<Rightarrow> bytes" where
  "put_fields i [] = []"
| "put_fields i (x # xs) = put_field i x @ put_fields (Suc i) xs"

fun get_fields :: "nat \<Rightarrow> nat \<Rightarrow> bytes \<Rightarrow> bytes list" where
  "get_fields i 0 bs = []"
| "get_fields i (Suc n) bs =
     (let (x, rest) = get_field i bs in x # get_fields (Suc i) n rest)"

lemma get_put_uvarint: "get_uvarint (uvarint n @ rest) = (n, rest)"
proof (induction n rule: uvarint.induct)
  case (1 n)
  show ?case
  proof (cases "n < 128")
    case True
    then show ?thesis by (simp add: uvarint_less unat_of_nat_byte)
  next
    case False
    then have b: "unat (of_nat (n mod 128 + 128) :: byte) = n mod 128 + 128"
      by (intro unat_of_nat_byte) simp
    have "get_uvarint (uvarint n @ rest) =
        (let (m, r) = get_uvarint (uvarint (n div 128) @ rest) in (n mod 128 + 128 * m, r))"
      using False b by (simp add: uvarint_ge)
    also have "\<dots> = (n mod 128 + 128 * (n div 128), rest)" using 1 [OF False] by simp
    finally show ?thesis by simp
  qed
qed

lemma length_put_field: "length (put_field i x) = bytes_field_size (length x)"
  by (simp add: put_field_def bytes_field_size_def length_uvarint)

lemma put_fields_tags:
  "put_fields i xs = b # bs \<Longrightarrow> i + length xs \<le> 30 \<Longrightarrow>
     \<exists>j. i \<le> j \<and> j < i + length xs \<and> b = of_nat (8 * j + 2)"
proof (induction xs arbitrary: i)
  case (Cons x xs)
  show ?case
  proof (cases "x = []")
    case True
    with Cons.prems Cons.IH [of "Suc i"] obtain j
      where "Suc i \<le> j" "j < Suc i + length xs" "b = of_nat (8 * j + 2)"
      by (auto simp: put_field_def)
    then show ?thesis by (intro exI [of _ j]) simp
  next
    case False
    with Cons.prems show ?thesis by (auto simp: put_field_def)
  qed
qed simp

lemma tag_inject: "i \<le> 30 \<Longrightarrow> j \<le> 30 \<Longrightarrow> (of_nat (8 * i + 2) :: byte) = of_nat (8 * j + 2) \<longleftrightarrow> i = j"
  unfolding of_nat_byte_eq by auto

lemma get_put_field:
  assumes "Suc i + length xs \<le> 30"
  shows "get_field i (put_field i x @ put_fields (Suc i) xs) = (x, put_fields (Suc i) xs)"
proof (cases "x = []")
  case True
  show ?thesis
  proof (cases "put_fields (Suc i) xs")
    case Nil
    with True show ?thesis by (simp add: put_field_def get_field_def)
  next
    case (Cons b bs)
    with put_fields_tags [OF Cons assms] obtain j where "Suc i \<le> j" "j < 30" "b = of_nat (8 * j + 2)"
      using assms by auto
    with assms tag_inject [of j i] have "b \<noteq> of_nat (8 * i + 2)" by simp
    with True Cons show ?thesis by (simp add: put_field_def get_field_def)
  qed
next
  case False
  then show ?thesis by (simp add: put_field_def get_field_def get_put_uvarint)
qed

lemma get_put_fields: "i + length xs \<le> 30 \<Longrightarrow> get_fields i (length xs) (put_fields i xs) = xs"
  by (induction xs arbitrary: i) (simp_all add: get_put_field)

lemma get_put_fields_4: "get_fields 1 4 (put_fields 1 [a, b, c, d]) = [a, b, c, d]"
  using get_put_fields [of 1 "[a, b, c, d]"] by (simp add: numeral_eq_Suc)

lemma get_put_fields_3: "get_fields 1 3 (put_fields 1 [a, b, c]) = [a, b, c]"
  using get_put_fields [of 1 "[a, b, c]"] by (simp add: numeral_eq_Suc)

lemma get_put_fields_2: "get_fields 1 2 (put_fields 1 [a, b]) = [a, b]"
  using get_put_fields [of 1 "[a, b]"] by (simp add: numeral_eq_Suc)

definition put_int :: "nat \<Rightarrow> int \<Rightarrow> bytes" where
  "put_int n x = be_put n (nat (x + 2 ^ (8 * n - 1)))"

definition get_int :: "nat \<Rightarrow> bytes \<Rightarrow> int" where
  "get_int n bs = int (be_get bs) - 2 ^ (8 * n - 1)"

lemma get_put_int:
  assumes "- (2 ^ (8 * n - 1)) \<le> x" "x < 2 ^ (8 * n - 1)" "0 < n"
  shows "get_int n (put_int n x) = x"
proof -
  have "(2::int) ^ (8 * n - 1) + 2 ^ (8 * n - 1) = 2 ^ (8 * n)"
    using assms(3) power_Suc [of "2 :: int" "8 * n - 1"] by (simp add: Suc_diff_Suc)
  then have "x + 2 ^ (8 * n - 1) < 2 ^ (8 * n)" using assms by linarith
  then have "nat (x + 2 ^ (8 * n - 1)) < 256 ^ n"
    by (simp add: nat_less_iff power_mult)
  then have "be_get (put_int n x) = nat (x + 2 ^ (8 * n - 1))"
    by (simp add: put_int_def be_get_be_put)
  then show ?thesis using assms(1) by (simp add: get_int_def)
qed

definition put_metadata :: "metadata \<Rightarrow> bytes" where
  "put_metadata m =
     (case md_Timestamp m of None \<Rightarrow> 0 # put_int 12 0 | Some t \<Rightarrow> 1 # put_int 12 t) @
     put_uint64 (md_Sequence m) @ put_int 4 (md_Route m) @ put_field 1 (md_ID m)"

definition get_metadata :: "bytes \<Rightarrow> metadata option" where
  "get_metadata bs =
     (if length bs < 25 then None
      else Some \<lparr>md_ID = fst (get_field 1 (drop 25 bs)),
        md_Timestamp = (if hd bs = 0 then None else Some (get_int 12 (take 12 (tl bs)))),
        md_Sequence = get_uint64 (drop 13 bs), md_Route = get_int 4 (take 4 (drop 21 bs))\<rparr>)"

definition put_time :: "gotime option \<Rightarrow> bytes" where
  "put_time t = (case t of None \<Rightarrow> 0 # put_int 12 0 | Some t \<Rightarrow> 1 # put_int 12 t)"

definition get_time :: "bytes \<Rightarrow> gotime option" where
  "get_time bs = (if hd bs = 0 then None else Some (get_int 12 (take 12 (tl bs))))"

definition put_peer :: "pb_peer \<Rightarrow> bytes" where
  "put_peer p = put_time (pp_FirstSeen p) @ put_time (pp_LastSeen p) @
     put_fields 1 [pp_Name p, pp_PublicKey p, pp_AppVersion p]"

definition get_peer :: "bytes \<Rightarrow> pb_peer option" where
  "get_peer bs =
     (if length bs < 26 then None
      else case get_fields 1 3 (drop 26 bs) of
        [n, k, v] \<Rightarrow> Some \<lparr>pp_Name = n, pp_PublicKey = k, pp_FirstSeen = get_time bs,
           pp_LastSeen = get_time (drop 13 bs), pp_AppVersion = v\<rparr>
      | _ \<Rightarrow> None)"

definition demo_wire :: wire where
  "demo_wire = \<lparr>
     w_st = \<lparr>enc = \<lambda>s. Some (put_fields 1 [st_Data s, st_Signature s, st_Metadata s, st_Padding s]),
       dec = \<lambda>b. (case get_fields 1 4 b of
          [d, s, m, p] \<Rightarrow> Some \<lparr>st_Data = d, st_Signature = s, st_Metadata = m, st_Padding = p\<rparr> | _ \<Rightarrow> None)\<rparr>,
     w_md = \<lparr>enc = Some \<circ> put_metadata, dec = get_metadata\<rparr>,
     w_bytes = \<lparr>enc = Some, dec = Some\<rparr>,
     w_introduce = \<lparr>enc = \<lambda>x. Some (put_fields 1 [in_Name x, in_PublicKey x, in_AppVersion x]),
       dec = \<lambda>b. (case get_fields 1 3 b of
          [n, k, v] \<Rightarrow> Some \<lparr>in_Name = n, in_PublicKey = k, in_AppVersion = v\<rparr> | _ \<Rightarrow> None)\<rparr>,
     w_handshake = \<lparr>enc = \<lambda>x. Some (put_fields 1 [hs_Key x, hs_Salt x, hs_SessionKey x]),
       dec = \<lambda>b. (case get_fields 1 3 b of
          [k, s, i] \<Rightarrow> Some \<lparr>hs_Key = k, hs_Salt = s, hs_SessionKey = i\<rparr> | _ \<Rightarrow> None)\<rparr>,
     w_resume_request = \<lparr>enc = \<lambda>x. Some (put_fields 1 [rr_SessionID x, rr_Token x]),
       dec = \<lambda>b. (case get_fields 1 2 b of
          [s, t] \<Rightarrow> Some \<lparr>rr_SessionID = s, rr_Token = t\<rparr> | _ \<Rightarrow> None)\<rparr>,
     w_resume_accept = \<lparr>enc = \<lambda>x. Some ((if ra_Accepted x then 1 else 0) # ra_Reason x),
       dec = \<lambda>b. (case b of [] \<Rightarrow> None | a # r \<Rightarrow> Some \<lparr>ra_Accepted = (a = 1), ra_Reason = r\<rparr>)\<rparr>,
     w_peer = \<lparr>enc = Some \<circ> put_peer, dec = get_peer\<rparr>\<rparr>"

lemma get_put_field_last: "get_field 1 (put_field 1 x) = (x, [])"
  using get_put_field [of 1 "[]" x] by simp

lemma get_put_metadata:
  assumes "md_ok m"
  shows "get_metadata (put_metadata m) = Some m"
proof -
  have r: "get_int 4 (put_int 4 (md_Route m)) = md_Route m"
    using assms by (intro get_put_int) (auto simp: md_ok_def)
  have t: "get_int 12 (put_int 12 t) = t" if "time_ok t" for t
    using that by (intro get_put_int) (auto simp: time_ok_def)
  have len: "length (put_int n x) = n" for n x by (simp add: put_int_def)
  show ?thesis
    using assms r
    by (cases m; cases "md_Timestamp m")
       (simp_all add: get_metadata_def put_metadata_def len t md_ok_def get_put_field_last
         del: One_nat_def)
qed

lemma length_put_time [simp]: "length (put_time t) = 13"
  by (simp add: put_time_def put_int_def split: option.splits)

lemma get_put_time:
  assumes "\<And>s. t = Some s \<Longrightarrow> time_ok s"
  shows "get_time (put_time t @ bs) = t"
proof (cases t)
  case None
  then show ?thesis by (simp add: get_time_def put_time_def)
next
  case (Some s)
  have "get_int 12 (put_int 12 s) = s"
    using assms [OF Some] by (intro get_put_int) (auto simp: time_ok_def)
  moreover have "length (put_int 12 s) = 12" by (simp add: put_int_def)
  ultimately show ?thesis by (simp add: Some get_time_def put_time_def)
qed

lemma get_put_peer:
  assumes "pb_peer_ok p"
  shows "get_peer (put_peer p) = Some p"
  using assms
  by (simp add: get_peer_def put_peer_def get_put_fields_3 get_put_time pb_peer_ok_def
      del: put_fields.simps get_fields.simps One_nat_def)

lemma demo_wire_laws: "wire_laws demo_wire"
  by (simp add: wire_laws_def codec_ok_def demo_wire_def get_put_metadata get_put_peer get_put_fields_4
      get_put_fields_3 get_put_fields_2 del: get_fields.simps put_fields.simps One_nat_def)

lemma demo_wire_sizes: "wire_sizes demo_wire"
  by (auto simp: wire_sizes_def demo_wire_def length_put_field put_metadata_def put_int_def
      bytes_field_size_def split: option.splits)

subsection \<open>Primitives\<close>

definition fit :: "nat \<Rightarrow> bytes \<Rightarrow> bytes" where
  "fit n x = take n (x @ replicate n 0)"

definition demo_crypto :: crypto where
  "demo_crypto = \<lparr>
     ed_public = id, ed_sign = \<lambda>k m. fit 64 (m @ k), ed_verify = \<lambda>k m s. s = fit 64 (m @ k),
     ed_seed_size = 32, ed_generate = id,
     pkix_marshal = id, pkix_parse = Some \<circ> Ed25519Key,
     pkcs8_marshal = id, pkcs8_parse = Some \<circ> Ed25519Key,
     hkdf_sha512 = \<lambda>k s i n. if n \<le> 255 * 64 then Some (fit n (k @ s @ i)) else None,
     xchacha_seal = \<lambda>k n p. p @ replicate 16 0,
     xchacha_open = \<lambda>k n c. if length c < 16 then None else Some (take (length c - 16) c),
     sha256_sum = fit 32, sha3_512 = fit 64,
     mlkem_seed_size = 64, mlkem_generate = id, mlkem_public = fit 1184, mlkem_valid = \<lambda>_. True,
     mlkem_coins = 32, mlkem_encap = \<lambda>_ r. (fit 1088 r, fit 1088 r), mlkem_decap = \<lambda>_ c. Some c,
     hpke_seed_size = 32, hpke_generate = id, hpke_public = fit 1216, hpke_valid = \<lambda>_. True,
     hpke_coins = 64, hpke_sender = \<lambda>_ r. Some (fit 1120 r, fit 1120 r),
     hpke_recipient = \<lambda>e _. Some e, hpke_seal = \<lambda>_ _ p. Some p, hpke_open = \<lambda>_ _ c. Some c\<rparr>"

lemma length_fit [simp]: "length (fit n x) = n"
  by (simp add: fit_def)

lemma demo_crypto_laws: "crypto_laws demo_crypto"
  by (simp add: crypto_laws_def sign_law_def hkdf_law_def aead_law_def mlkem_law_def hpke_law_def
      demo_crypto_def)

end
