(* ===== verification/Serde.thy ===== *)
theory Serde
  imports Primitives Instances
begin

text \<open>
  The signed envelope of serde.go: building the signing input, padding and marshalling an envelope
  (\<open>serialize\<close>), and checking and opening one (\<open>deserialize\<close>). Messages are polymorphic, as
  \<^verbatim>\<open>Transferable\<close> is: each operation takes the codec of the message type.
\<close>

subsection \<open>Operations\<close>

record signed_serde =
  sd_attest :: attest
  sd_remote :: bytes

definition newSignedSerde :: "bytes \<Rightarrow> attest \<Rightarrow> signed_serde" where
  "newSignedSerde remote at = \<lparr>sd_attest = at, sd_remote = remote\<rparr>"

definition transportSignInfo :: bytes where
  "transportSignInfo = lit ''kamune/transport-sign/v1''"

definition signingInput :: "bytes \<Rightarrow> bytes \<Rightarrow> bytes" where
  "signingInput metadataBytes d =
     transportSignInfo @ uvarint (length metadataBytes) @ metadataBytes @ d"

definition marshal :: "'a codec \<Rightarrow> 'a \<Rightarrow> kerror + bytes" where
  "marshal c x = (case enc c x of None \<Rightarrow> Inl ErrMarshal | Some b \<Rightarrow> Inr b)"

definition unmarshal :: "'a codec \<Rightarrow> bytes \<Rightarrow> kerror + 'a" where
  "unmarshal c b = (case dec c b of None \<Rightarrow> Inl ErrUnmarshal | Some x \<Rightarrow> Inr x)"

definition proto_Size :: "'a codec \<Rightarrow> 'a \<Rightarrow> nat" where
  "proto_Size c x = (case enc c x of None \<Rightarrow> 0 | Some b \<Rightarrow> length b)"

definition padSignedTransport :: "wire \<Rightarrow> signed_transport \<Rightarrow> (kerror + bytes) io" where
  "padSignedTransport w st =
     (let st0 = st\<lparr>st_Padding := []\<rparr>;
          baseSize = proto_Size (w_st w) st0
      in IntN bump_total (\<lambda>n.
           let target = selectBucketSize n baseSize
           in if baseSize \<ge> target then Return (marshal (w_st w) st0)
              else Random (pad_len target baseSize) (\<lambda>pad.
                Return (marshal (w_st w) (st0\<lparr>st_Padding := pad\<rparr>)))))"

text \<open>The part that the introduction, the resume messages and \<^verbatim>\<open>serialize\<close> spell out alike: marshal the
  metadata, sign it together with the message, pad the envelope.\<close>

definition seal_envelope :: "crypto \<Rightarrow> wire \<Rightarrow> attest \<Rightarrow> metadata \<Rightarrow> bytes \<Rightarrow> (kerror + bytes) io" where
  "seal_envelope cr w at md message =
     (case marshal (w_md w) md of
        Inl e \<Rightarrow> Return (Inl e)
      | Inr metadataBytes \<Rightarrow>
          (let sig = Sign cr at (signingInput metadataBytes message)
           in padSignedTransport w
                \<lparr>st_Data = message, st_Signature = sig, st_Metadata = metadataBytes, st_Padding = []\<rparr>))"

definition serialize ::
  "crypto \<Rightarrow> wire \<Rightarrow> 'a codec \<Rightarrow> signed_serde \<Rightarrow> 'a \<Rightarrow> route \<Rightarrow> 64 word \<Rightarrow>
     (kerror + bytes \<times> metadata) io" where
  "serialize cr w c s msg route sequence =
     (case marshal c msg of
        Inl e \<Rightarrow> Return (Inl e)
      | Inr message \<Rightarrow>
          if length message > maxTransportSize then Return (Inl (ConnErr ErrMessageTooLarge))
          else io_bind rand_Text (\<lambda>ident.
            Now (\<lambda>t.
              let md = \<lparr>md_ID = ident, md_Timestamp = Some t, md_Sequence = sequence,
                        md_Route = ToProto route\<rparr>
              in io_try (seal_envelope cr w (sd_attest s) md message)
                   (\<lambda>payload. Return (Inr (payload, md))))))"

definition deserialize ::
  "crypto \<Rightarrow> wire \<Rightarrow> 'a codec \<Rightarrow> signed_serde \<Rightarrow> bytes \<Rightarrow> kerror + metadata \<times> 'a" where
  "deserialize cr w c s payload =
     (case unmarshal (w_st w) payload of
        Inl e \<Rightarrow> Inl e
      | Inr st \<Rightarrow>
          if \<not> Verify cr (sd_remote s) (signingInput (st_Metadata st) (st_Data st)) (st_Signature st)
          then Inl ErrInvalidSignature
          else case unmarshal (w_md w) (st_Metadata st) of
                 Inl e \<Rightarrow> Inl e
               | Inr md \<Rightarrow>
                   (case unmarshal c (st_Data st) of
                      Inl e \<Rightarrow> Inl e
                    | Inr dst \<Rightarrow> Inr (md, dst)))"

definition md_route :: "metadata \<Rightarrow> route" where
  "md_route md = RouteFromProto (md_Route md)"

definition routeFromST :: "wire \<Rightarrow> signed_transport \<Rightarrow> kerror + route" where
  "routeFromST w st =
     (case unmarshal (w_md w) (st_Metadata st) of
        Inl e \<Rightarrow> Inl e
      | Inr md \<Rightarrow> Inr (md_route md))"

subsection \<open>Facts\<close>

lemma signingInput_inject: "signingInput m d = signingInput m' d' \<longleftrightarrow> m = m' \<and> d = d'"
proof
  assume "signingInput m d = signingInput m' d'"
  then have "uvarint (length m) @ m @ d = uvarint (length m') @ m' @ d'"
    by (simp add: signingInput_def)
  then have "length m = length m' \<and> m @ d = m' @ d'" by (rule uvarint_prefix_free)
  then show "m = m' \<and> d = d'" by (auto dest: append_eq_append_conv [THEN iffD1, rotated])
qed simp

lemma length_rand_Text: "yields rand_Text (\<lambda>x. length x = 26 \<and> ascii x)"
  by (simp add: rand_Text_def ascii_text)

text \<open>An envelope whose unpadded size fits the largest bucket comes out padded to the bucket,
  whatever was drawn.\<close>

lemma wire_laws_st:
  assumes "wire_laws w"
  shows "\<exists>B. (\<forall>x. enc (w_st w) x = Some (B x)) \<and> (\<forall>x. dec (w_st w) (B x) = Some x)"
proof -
  have "\<forall>x. \<exists>b. enc (w_st w) x = Some b \<and> dec (w_st w) b = Some x"
    using assms by (simp add: wire_laws_def codec_ok_def)
  then show ?thesis by metis
qed

definition st_size :: "signed_transport \<Rightarrow> nat" where
  "st_size st = bytes_field_size (length (st_Data st)) + bytes_field_size (length (st_Signature st)) +
     bytes_field_size (length (st_Metadata st))"

lemma pad_yields:
  assumes "wire_laws w" "wire_sizes w" "st_size st \<le> frameTargetSize"
  shows "yields (padSignedTransport w st)
     (\<lambda>r. \<exists>b p. r = Inr b \<and> dec (w_st w) b = Some (st\<lparr>st_Padding := p\<rparr>) \<and> length b \<le> frameTargetSize)"
proof -
  obtain B where B: "\<And>x. enc (w_st w) x = Some (B x)" "\<And>x. dec (w_st w) (B x) = Some x"
    using wire_laws_st [OF assms(1)] by auto
  have len: "length (B x) = st_size x + bytes_field_size (length (st_Padding x))" for x
    using assms(2) B(1) [of x] unfolding wire_sizes_def st_size_def by auto
  let ?b = "st_size st"
  have fit: "?b \<le> selectBucketSize n ?b" "selectBucketSize n ?b \<le> frameTargetSize" for n
    using selectBucketSize_fits [OF assms(3)] bucket_le [OF selectBucketSize_mem] by auto
  have "padded_size (selectBucketSize n ?b) ?b \<le> frameTargetSize" for n
    using padded_size_eq [OF fit] fit [of n] by (auto split: if_splits)
  then have pad: "?b + bytes_field_size (pad_len (selectBucketSize n ?b) ?b) \<le> frameTargetSize" for n
    by (simp add: padded_size_def)
  have [simp]: "st_size (st\<lparr>st_Padding := p\<rparr>) = ?b" "bytes_field_size 0 = 0" for p
    by (simp_all add: st_size_def bytes_field_size_def)
  show ?thesis
    using assms(3) pad
    by (simp add: padSignedTransport_def proto_Size_def Let_def marshal_def B len) blast
qed

text \<open>\<open>sealed\<close>: the bytes open to an envelope that carries this metadata and message under this
  identity's signature.\<close>

definition sealed :: "crypto \<Rightarrow> wire \<Rightarrow> attest \<Rightarrow> metadata \<Rightarrow> bytes \<Rightarrow> bytes \<Rightarrow> bool" where
  "sealed cr w at md message b \<longleftrightarrow>
     (case dec (w_st w) b of
        None \<Rightarrow> False
      | Some st \<Rightarrow> st_Data st = message \<and> dec (w_md w) (st_Metadata st) = Some md \<and>
          st_Signature st = Sign cr at (signingInput (st_Metadata st) message))"

lemma bytes_field_size_le: "n \<le> 65535 \<Longrightarrow> bytes_field_size n \<le> n + 4"
proof -
  assume "n \<le> 65535"
  then have "varintSize n \<le> 3"
    by (cases "n < 128"; cases "n < 16384") (simp_all add: varintSize_ranges)
  then show ?thesis by (simp add: bytes_field_size_def)
qed

lemma seal_yields:
  assumes "wire_laws w" "wire_sizes w" "sign_law cr" "md_ok md" "length (md_ID md) \<le> 26"
    and "length message \<le> maxTransportSize"
  shows "yields (seal_envelope cr w at md message)
     (\<lambda>r. \<exists>b. r = Inr b \<and> sealed cr w at md message b \<and> length b \<le> frameTargetSize)"
proof -
  from assms(1,4) obtain mb where mb: "enc (w_md w) md = Some mb" "dec (w_md w) mb = Some md"
    unfolding wire_laws_def codec_ok_def by blast
  have "length mb \<le> bytes_field_size (length (md_ID md)) + 46"
    using assms(2) mb(1) by (simp add: wire_sizes_def)
  then have "length mb \<le> 80"
    using bytes_field_size_le [of "length (md_ID md)"] assms(5) by simp
  then have mbs: "bytes_field_size (length mb) \<le> 84"
    using bytes_field_size_le [of "length mb"] by simp
  define st where "st = \<lparr>st_Data = message, st_Signature = Sign cr at (signingInput mb message),
      st_Metadata = mb, st_Padding = []\<rparr>"
  have "st_size st \<le> frameTargetSize"
    using assms(6) mbs bytes_field_size_le [of "length message"] bytes_field_size_le [of 64]
    by (simp add: st_def st_size_def length_Sign [OF assms(3)] size_consts)
  from pad_yields [OF assms(1,2) this]
  have "yields (padSignedTransport w st)
     (\<lambda>r. \<exists>b. r = Inr b \<and> sealed cr w at md message b \<and> length b \<le> frameTargetSize)"
    by (rule yields_mono) (auto simp: sealed_def st_def mb)
  then show ?thesis by (simp add: seal_envelope_def marshal_def mb st_def)
qed

lemma serialize_yields:
  assumes "wire_laws w" "wire_sizes w" "sign_law cr"
    and "enc c msg = Some message" "length message \<le> maxTransportSize"
  shows "yields (serialize cr w c s msg route n)
     (\<lambda>r. \<exists>b md. r = Inr (b, md) \<and> sealed cr w (sd_attest s) md message b \<and>
        length b \<le> frameTargetSize \<and> md_Sequence md = n \<and> md_Route md = ToProto route)"
proof -
  have ok: "md_ok \<lparr>md_ID = i, md_Timestamp = Some t, md_Sequence = n, md_Route = ToProto route\<rparr>"
    if "ascii i" "time_ok t" for i t
    using that by (auto simp: md_ok_def ToProto_eq IsValid_iff)
  show ?thesis
    using assms(4,5)
    apply (simp add: serialize_def marshal_def io_try_def)
    apply (rule yields_bind [OF length_rand_Text])
    apply (clarsimp simp: Let_def)
    apply (rule yields_bind [OF seal_yields [OF assms(1-3) ok]])
    by auto
qed

text \<open>Whatever is sealed opens.\<close>

lemma deserialize_sealed:
  assumes "sealed cr w at md message b" "sign_law cr" "attest_ok cr at"
    and "sd_remote s = MarshalPublicKey cr at" "dec c message = Some x"
  shows "deserialize cr w c s b = Inr (md, x)"
  using assms Verify_Sign [OF assms(2,3)]
  by (auto simp: sealed_def deserialize_def unmarshal_def split: option.splits)

lemma live_seal [simp]: "live (seal_envelope cr w at md message)"
  by (simp add: seal_envelope_def padSignedTransport_def Let_def bump_total_def bumpProbabilities_def
      split: sum.splits)

lemma live_serialize [simp]: "live (serialize cr w c s msg route n)"
  by (simp add: serialize_def rand_Text_def Let_def split: sum.splits)

subsection \<open>Properties\<close>

text \<open>C16. Whatever the random source and the clock return, \<^verbatim>\<open>serialize\<close> of a message that marshals
  to at most \<^verbatim>\<open>maxTransportSize\<close> bytes succeeds; the peer that knows the sender's key opens the
  payload to the same metadata and message, with the sequence number and route that were given; and
  the payload plus the 40 bytes of encryption fits the 16-bit length of a frame.\<close>

theorem serialize_deserialize:
  assumes "wire_laws w" "wire_sizes w" "sign_law cr"
    and "attest_ok cr (sd_attest s)" "sd_remote s' = MarshalPublicKey cr (sd_attest s)"
    and "enc c msg = Some message" "dec c message = Some msg" "length message \<le> maxTransportSize"
    and "run (serialize cr w c s msg route n) es = Some (r, es')"
  shows "\<exists>payload md. r = Inr (payload, md) \<and> deserialize cr w c s' payload = Inr (md, msg) \<and>
     md_Sequence md = n \<and> md_route md = (if IsValid route then route else RouteInvalid) \<and>
     length payload + encryptionOverhead \<le> MaxUint16"
proof -
  from yields_run [OF assms(9) serialize_yields [OF assms(1-3,6,8)]]
  obtain b md where b: "r = Inr (b, md)" "sealed cr w (sd_attest s) md message b"
      "length b \<le> frameTargetSize" "md_Sequence md = n" "md_Route md = ToProto route" by blast
  have "deserialize cr w c s' b = Inr (md, msg)"
    by (rule deserialize_sealed [OF b(2) assms(3-5,7)])
  with b show ?thesis
    by (simp add: md_route_def RouteFromProto_ToProto size_consts)
qed

definition demo_attest :: attest where
  "demo_attest = \<lparr>publicKey = lit ''alice'', privateKey = lit ''alice''\<rparr>"

definition demo_serde :: signed_serde where
  "demo_serde = newSignedSerde (lit ''alice'') demo_attest"

lemma demo_serde_ok:
  "attest_ok demo_crypto (sd_attest demo_serde)"
  "sd_remote demo_serde = MarshalPublicKey demo_crypto (sd_attest demo_serde)"
  by (simp_all add: demo_serde_def demo_attest_def newSignedSerde_def attest_ok_def
      MarshalPublicKey_def demo_crypto_def)

lemma demo_laws: "sign_law demo_crypto" "hkdf_law demo_crypto" "aead_law demo_crypto"
    "mlkem_law demo_crypto" "hpke_law demo_crypto"
  using demo_crypto_laws by (simp_all add: crypto_laws_def)

theorem serialize_deserialize_witness:
  "\<exists>es payload md.
     run (serialize demo_crypto demo_wire (w_bytes demo_wire) demo_serde (lit ''hi'') 7 1) es =
       Some (Inr (payload, md), []) \<and>
     deserialize demo_crypto demo_wire (w_bytes demo_wire) demo_serde payload = Inr (md, lit ''hi'') \<and>
     md_route md = 7"
proof -
  obtain es r where
    run: "run (serialize demo_crypto demo_wire (w_bytes demo_wire) demo_serde (lit ''hi'') 7 1) es = Some (r, [])"
    using live_run [OF live_serialize [of demo_crypto demo_wire "w_bytes demo_wire" demo_serde "lit ''hi''" 7 1]]
    by blast
  have b: "enc (w_bytes demo_wire) (lit ''hi'') = Some (lit ''hi'')"
      "dec (w_bytes demo_wire) (lit ''hi'') = Some (lit ''hi'')" "length (lit ''hi'') \<le> maxTransportSize"
    by (simp_all add: demo_wire_def size_consts)
  from serialize_deserialize [OF demo_wire_laws demo_wire_sizes demo_laws(1) demo_serde_ok b run]
  show ?thesis using run by (auto simp: IsValid_def)
qed

text \<open>A signature covers exactly one pair of metadata and message: equal signing inputs come from
  equal pairs, so no bytes can be moved between the two.\<close>

theorem signing_input_injective: "signingInput m d = signingInput m' d' \<longleftrightarrow> m = m' \<and> d = d'"
  by (rule signingInput_inject)

text \<open>C10. If signatures under the peer's key verify only on inputs that key has signed, every envelope
  \<^verbatim>\<open>deserialize\<close> accepts carries a pair of metadata and message that was signed as that pair.\<close>

theorem accepted_was_signed:
  assumes "\<forall>m sig. Verify cr (sd_remote s) m sig \<longrightarrow> (\<exists>(mb, d) \<in> sent. m = signingInput mb d)"
    and "deserialize cr w c s payload = Inr (md, x)"
  shows "\<exists>(mb, d) \<in> sent. dec (w_md w) mb = Some md \<and> dec c d = Some x"
proof -
  from assms(2) obtain st where st: "dec (w_st w) payload = Some st"
      "Verify cr (sd_remote s) (signingInput (st_Metadata st) (st_Data st)) (st_Signature st)"
      "dec (w_md w) (st_Metadata st) = Some md" "dec c (st_Data st) = Some x"
    by (auto simp: deserialize_def unmarshal_def split: option.splits if_splits)
  with assms(1) have "\<exists>(mb, d) \<in> sent. signingInput (st_Metadata st) (st_Data st) = signingInput mb d"
    by blast
  with st(3,4) show ?thesis by (auto simp: signingInput_inject)
qed

definition demo_md :: metadata where
  "demo_md = \<lparr>md_ID = [], md_Timestamp = None, md_Sequence = 1, md_Route = 7\<rparr>"

theorem accepted_was_signed_witness:
  "\<exists>payload. deserialize (demo_crypto\<lparr>ed_verify := \<lambda>k m g. m = signingInput (put_metadata demo_md) (lit ''hi'')\<rparr>)
       demo_wire (w_bytes demo_wire) demo_serde payload = Inr (demo_md, lit ''hi'') \<and>
     (\<exists>(mb, d) \<in> {(put_metadata demo_md, lit ''hi'')}.
        dec (w_md demo_wire) mb = Some demo_md \<and> dec (w_bytes demo_wire) d = Some (lit ''hi''))"
proof -
  let ?cr = "demo_crypto\<lparr>ed_verify := \<lambda>k m g. m = signingInput (put_metadata demo_md) (lit ''hi'')\<rparr>"
  let ?st = "\<lparr>st_Data = lit ''hi'', st_Signature = [], st_Metadata = put_metadata demo_md, st_Padding = []\<rparr>"
  obtain B where B: "dec (w_st demo_wire) (B ?st) = Some ?st"
    using wire_laws_st [OF demo_wire_laws] by auto
  have md: "dec (w_md demo_wire) (put_metadata demo_md) = Some demo_md"
    using get_put_metadata [of demo_md] by (simp add: demo_wire_def demo_md_def md_ok_def ascii_def)
  have ver: "Verify ?cr (sd_remote demo_serde) m sig \<longleftrightarrow> m = signingInput (put_metadata demo_md) (lit ''hi'')"
    for m sig by (simp add: Verify_def parsePublicKey_def demo_crypto_def)
  have d: "deserialize ?cr demo_wire (w_bytes demo_wire) demo_serde (B ?st) = Inr (demo_md, lit ''hi'')"
    using B md by (simp add: deserialize_def unmarshal_def ver) (simp add: demo_wire_def)
  have "\<forall>m sig. Verify ?cr (sd_remote demo_serde) m sig \<longrightarrow>
     (\<exists>(mb, d) \<in> {(put_metadata demo_md, lit ''hi'')}. m = signingInput mb d)"
    by (simp add: ver)
  from accepted_was_signed [OF this d] d show ?thesis by blast
qed

end
