(* ===== verification/Tunnel.thy ===== *)
theory Tunnel
  imports Primitives
begin

text \<open>
  The HPKE tunnel of pkg/exchange/channel.go: the exchange that opens it (\<open>Initiate\<close>, \<open>Accept\<close>) and
  the encrypted reads and writes on it. \<open>link\<close> is the \<^verbatim>\<open>Conn\<close> a protocol function is given: the
  connection itself, or the tunnel over it.
\<close>

text \<open>An HPKE context: its secrets, and the sequence number of the next message.\<close>

type_synonym hpke_context = "bytes \<times> nat"

record channel =
  sender :: hpke_context
  recipient :: hpke_context

definition Channel_ReadBytes :: "crypto \<Rightarrow> channel \<Rightarrow> (channel \<times> (kerror + bytes)) io" where
  "Channel_ReadBytes cr ch =
     Read (\<lambda>r. case r of
        Inl e \<Rightarrow> Return (ch, Inl (ConnErr e))
      | Inr encrypted \<Rightarrow>
          (case hpke_open cr (fst (recipient ch)) (snd (recipient ch)) encrypted of
             None \<Rightarrow> Return (ch, Inl ErrCrypto)
           | Some d \<Rightarrow> Return (ch\<lparr>recipient := (fst (recipient ch), Suc (snd (recipient ch)))\<rparr>, Inr d)))"

definition Channel_WriteBytes :: "crypto \<Rightarrow> channel \<Rightarrow> bytes \<Rightarrow> (channel \<times> (kerror + unit)) io" where
  "Channel_WriteBytes cr ch d =
     (case hpke_seal cr (fst (sender ch)) (snd (sender ch)) d of
        None \<Rightarrow> Return (ch, Inl ErrCrypto)
      | Some encrypted \<Rightarrow>
          (let ch' = ch\<lparr>sender := (fst (sender ch), Suc (snd (sender ch)))\<rparr>
           in Write encrypted (\<lambda>e. case e of
                Some e \<Rightarrow> Return (ch', Inl (ConnErr e))
              | None \<Rightarrow> Return (ch', Inr ()))))"

text \<open>In \<^verbatim>\<open>Initiate\<close> the bound \<^verbatim>\<open>2+encLen\<close> is computed in 16 bits; a slice with its end before its
  start panics.\<close>

definition Initiate_finish :: "crypto \<Rightarrow> bytes \<Rightarrow> bytes \<Rightarrow> (kerror + channel) io" where
  "Initiate_finish cr private merged =
     (if length merged < 2 then Return (Inl ErrTruncated)
      else let encLen = get_uint16 merged in
      if unat encLen > length merged - 2 then Return (Inl ErrTruncated)
      else if unat (2 + encLen) < 2 then Return (Inl ErrPanic)
      else let remoteEnc = slice merged 2 (unat (2 + encLen));
               remotePublicBytes = drop (unat (2 + encLen)) merged in
      (case hpke_recipient cr remoteEnc private of
         None \<Rightarrow> Return (Inl ErrCrypto)
       | Some rctx \<Rightarrow>
           if \<not> hpke_valid cr remotePublicBytes then Return (Inl ErrCrypto)
           else Random (hpke_coins cr) (\<lambda>coins.
             case hpke_sender cr remotePublicBytes coins of
               None \<Rightarrow> Return (Inl ErrCrypto)
             | Some (encap, sctx) \<Rightarrow>
                 Write encap (\<lambda>e. case e of
                   Some e \<Rightarrow> Return (Inl (ConnErr e))
                 | None \<Rightarrow> Return (Inr \<lparr>sender = (sctx, 0), recipient = (rctx, 0)\<rparr>)))))"

definition Initiate :: "crypto \<Rightarrow> (kerror + channel) io" where
  "Initiate cr =
     Random (hpke_seed_size cr) (\<lambda>seed.
       let private = hpke_generate cr seed in
       Write (hpke_public cr private) (\<lambda>e. case e of
         Some e \<Rightarrow> Return (Inl (ConnErr e))
       | None \<Rightarrow> Read (\<lambda>r. case r of
           Inl e \<Rightarrow> Return (Inl (ConnErr e))
         | Inr merged \<Rightarrow> Initiate_finish cr private merged)))"

definition Accept :: "crypto \<Rightarrow> (kerror + channel) io" where
  "Accept cr =
     Read (\<lambda>r. case r of
       Inl e \<Rightarrow> Return (Inl (ConnErr e))
     | Inr remotePubBytes \<Rightarrow>
         if \<not> hpke_valid cr remotePubBytes then Return (Inl ErrCrypto)
         else Random (hpke_coins cr) (\<lambda>coins.
           case hpke_sender cr remotePubBytes coins of
             None \<Rightarrow> Return (Inl ErrCrypto)
           | Some (encap, sctx) \<Rightarrow>
               Random (hpke_seed_size cr) (\<lambda>seed.
                 let private = hpke_generate cr seed;
                     pubB = hpke_public cr private;
                     merged = put_uint16 (of_nat (length encap)) @ encap @ pubB in
                 Write merged (\<lambda>e. case e of
                   Some e \<Rightarrow> Return (Inl (ConnErr e))
                 | None \<Rightarrow> Read (\<lambda>r. case r of
                     Inl e \<Rightarrow> Return (Inl (ConnErr e))
                   | Inr remoteEnc \<Rightarrow>
                       (case hpke_recipient cr remoteEnc private of
                          None \<Rightarrow> Return (Inl ErrCrypto)
                        | Some rctx \<Rightarrow>
                            Return (Inr \<lparr>sender = (sctx, 0), recipient = (rctx, 0)\<rparr>)))))))"

subsection \<open>The connection of a protocol function\<close>

datatype link = Plain | Tunnelled channel

definition link_ReadBytes :: "crypto \<Rightarrow> link \<Rightarrow> (link \<times> (kerror + bytes)) io" where
  "link_ReadBytes cr l =
     (case l of
        Plain \<Rightarrow> Read (\<lambda>r. Return (Plain, case r of Inl e \<Rightarrow> Inl (ConnErr e) | Inr d \<Rightarrow> Inr d))
      | Tunnelled ch \<Rightarrow> io_bind (Channel_ReadBytes cr ch) (\<lambda>(ch', r). Return (Tunnelled ch', r)))"

definition link_WriteBytes :: "crypto \<Rightarrow> link \<Rightarrow> bytes \<Rightarrow> (link \<times> (kerror + unit)) io" where
  "link_WriteBytes cr l d =
     (case l of
        Plain \<Rightarrow> Write d (\<lambda>e. Return (Plain, case e of Some e \<Rightarrow> Inl (ConnErr e) | None \<Rightarrow> Inr ()))
      | Tunnelled ch \<Rightarrow> io_bind (Channel_WriteBytes cr ch d) (\<lambda>(ch', r). Return (Tunnelled ch', r)))"

subsection \<open>Two ends of a tunnel\<close>

text \<open>The two ends agree when each one's sending context is the other's receiving one, at the same
  number; \<open>n\<close> and \<open>m\<close> count the messages sent so far from the left and from the right.\<close>

definition paired :: "nat \<Rightarrow> nat \<Rightarrow> channel \<Rightarrow> channel \<Rightarrow> bool" where
  "paired n m a b \<longleftrightarrow> sender a = recipient b \<and> sender b = recipient a \<and>
     snd (sender a) = n \<and> snd (sender b) = m"

lemma paired_sym: "paired n m a b \<Longrightarrow> paired m n b a"
  by (auto simp: paired_def)

lemma tunnel_send_left:
  assumes "hpke_law cr" "paired n m a b" "n < 2 ^ 64"
    and "\<And>a' b'. paired (Suc n) m a' b' \<Longrightarrow>
        settles Q ((f (Tunnelled a', Inr ()), []), (g (Tunnelled b', Inr d), []))"
  shows "settles Q ((io_bind (link_WriteBytes cr (Tunnelled a) d) f, []),
     (io_bind (link_ReadBytes cr (Tunnelled b)) g, []))"
proof -
  obtain ctx where ctx: "sender a = (ctx, n)" "recipient b = (ctx, n)"
    using assms(2) by (cases "sender a") (auto simp: paired_def)
  from assms(1,3) obtain c where c: "hpke_seal cr ctx n d = Some c" "hpke_open cr ctx n c = Some d"
    unfolding hpke_law_def by blast
  have "paired (Suc n) m (a\<lparr>sender := (ctx, Suc n)\<rparr>) (b\<lparr>recipient := (ctx, Suc n)\<rparr>)"
    using assms(2) ctx by (auto simp: paired_def)
  from assms(4) [OF this] show ?thesis
    using c ctx
    by (auto simp: link_WriteBytes_def link_ReadBytes_def Channel_WriteBytes_def Channel_ReadBytes_def Let_def
        intro!: settles_left settles_right)
qed

text \<open>The same for the two connections of a protocol function, tunnelled or not.\<close>

fun linked :: "nat \<Rightarrow> nat \<Rightarrow> link \<Rightarrow> link \<Rightarrow> bool" where
  "linked n m Plain Plain = True"
| "linked n m (Tunnelled a) (Tunnelled b) = paired n m a b"
| "linked n m _ _ = False"

lemma linked_sym: "linked n m a b \<Longrightarrow> linked m n b a"
  by (cases "(n, m, a, b)" rule: linked.cases) (auto intro: paired_sym)

lemma link_send_left:
  assumes "hpke_law cr" "linked n m a b" "n < 2 ^ 64"
    and "\<And>a' b'. linked (Suc n) m a' b' \<Longrightarrow> settles Q ((f (a', Inr ()), []), (g (b', Inr d), []))"
  shows "settles Q ((io_bind (link_WriteBytes cr a d) f, []), (io_bind (link_ReadBytes cr b) g, []))"
proof (cases "(n, m, a, b)" rule: linked.cases)
  case 1
  with assms(4) [of Plain Plain] show ?thesis
    by (auto simp: link_WriteBytes_def link_ReadBytes_def intro!: settles_left settles_right)
next
  case (2 n m a b)
  with assms show ?thesis by (auto intro!: tunnel_send_left)
qed (use assms in auto)

lemma link_send_right:
  assumes "hpke_law cr" "linked n m a b" "m < 2 ^ 64"
    and "\<And>a' b'. linked n (Suc m) a' b' \<Longrightarrow> settles Q ((f (a', Inr d), []), (g (b', Inr ()), []))"
  shows "settles Q ((io_bind (link_ReadBytes cr a) f, []), (io_bind (link_WriteBytes cr b d) g, []))"
  by (rule settles_swap, rule link_send_left [OF assms(1) linked_sym [OF assms(2)] assms(3)],
      rule settles_swap, rule assms(4), erule linked_sym)

text \<open>What \<^verbatim>\<open>Initiate\<close> reads out of the merged message is what \<^verbatim>\<open>Accept\<close> put in.\<close>

lemma merged_parts:
  assumes "length e < 65536" "length (put_uint16 (of_nat (length e)) @ e @ p) < 65536"
  defines "m \<equiv> put_uint16 (of_nat (length e)) @ e @ p"
  shows "get_uint16 m = of_nat (length e)" "unat (get_uint16 m) = length e"
    "unat (2 + get_uint16 m) = 2 + length e"
    "slice m 2 (2 + length e) = e" "drop (2 + length e) m = p"
proof -
  show g: "get_uint16 m = of_nat (length e)" by (simp add: m_def)
  show u: "unat (get_uint16 m) = length e" using assms(1) by (simp add: g unat_of_nat)
  have "2 + get_uint16 m = of_nat (2 + length e)" by (simp add: g)
  moreover have "unat (of_nat (2 + length e) :: 16 word) = 2 + length e"
    using assms(2) by (subst unat_of_nat) simp
  ultimately show "unat (2 + get_uint16 m) = 2 + length e" by simp
  show "slice m 2 (2 + length e) = e" by (simp add: m_def slice_def)
  show "drop (2 + length e) m = p" by (simp add: m_def)
qed

lemma Initiate_finish_merged:
  assumes "length e = 1120" "length p = 1216" "hpke_recipient cr e sk = Some rctx" "hpke_valid cr p"
  shows "Initiate_finish cr sk (put_uint16 (of_nat (length e)) @ e @ p) =
     Random (hpke_coins cr) (\<lambda>coins.
       case hpke_sender cr p coins of
         None \<Rightarrow> Return (Inl ErrCrypto)
       | Some (encap, sctx) \<Rightarrow>
           Write encap (\<lambda>e. case e of
             Some e \<Rightarrow> Return (Inl (ConnErr e))
           | None \<Rightarrow> Return (Inr \<lparr>sender = (sctx, 0), recipient = (rctx, 0)\<rparr>)))"
proof -
  define m where "m = put_uint16 (of_nat (length e)) @ e @ p"
  have len: "length m = 2338" using assms by (simp add: m_def)
  note parts = merged_parts [of e p, folded m_def]
  have "\<not> length m < 2" "\<not> unat (get_uint16 m) > length m - 2" "\<not> unat (2 + get_uint16 m) < 2"
    "slice m 2 (unat (2 + get_uint16 m)) = e" "drop (unat (2 + get_uint16 m)) m = p"
    using parts len assms(1,2) by simp_all
  then show ?thesis
    unfolding m_def [symmetric] Initiate_finish_def Let_def using assms(3,4) by simp
qed

lemma exchange_settles:
  assumes "hpke_law cr"
    and "\<And>a b. paired 0 0 a b \<Longrightarrow> settles Q ((f (Inr a), []), (g (Inr b), []))"
  shows "settles Q ((io_bind (Initiate cr) f, []), (io_bind (Accept cr) g, []))"
proof -
  note law = assms(1) [unfolded hpke_law_def]
  have pub: "hpke_valid cr (hpke_public cr sk)" "length (hpke_public cr sk) = 1216" for sk
    using law by auto
  obtain E C where enc: "\<And>sk r. hpke_sender cr (hpke_public cr sk) r = Some (E sk r, C sk r)"
      "\<And>sk r. length (E sk r) = 1120" "\<And>sk r. hpke_recipient cr (E sk r) sk = Some (C sk r)"
    using law by metis
  have fin: "Initiate_finish cr sk (put_uint16 1120 @ E sk r @ hpke_public cr sk') =
     Random (hpke_coins cr) (\<lambda>c. Write (E sk' c) (\<lambda>e. case e of
         Some e \<Rightarrow> Return (Inl (ConnErr e))
       | None \<Rightarrow> Return (Inr \<lparr>sender = (C sk' c, 0), recipient = (C sk r, 0)\<rparr>)))" for sk sk' r
    using Initiate_finish_merged [OF enc(2) pub(2) enc(3) pub(1)] by (simp add: enc)
  have fini: "settles Q ((f (Inr \<lparr>sender = (x, 0), recipient = (y, 0)\<rparr>), []),
      (g (Inr \<lparr>sender = (y, 0), recipient = (x, 0)\<rparr>), []))" for x y
    by (rule assms(2)) (simp add: paired_def)
  show ?thesis
    unfolding Initiate_def Accept_def
    by (auto simp: Let_def pub enc fin intro!: settles_left settles_right fini)
qed

lemma live_link [simp]: "live (link_ReadBytes cr l)" "live (link_WriteBytes cr l d)"
  by (simp_all add: link_ReadBytes_def link_WriteBytes_def Channel_ReadBytes_def Channel_WriteBytes_def
      Let_def split: link.splits sum.splits option.splits prod.splits)

lemma live_exchange [simp]: "live (Initiate cr)" "live (Accept cr)"
  by (simp_all add: Initiate_def Initiate_finish_def Accept_def Let_def
      split: sum.splits option.splits prod.splits)

end
