(* ===== verification/Transport.thy ===== *)
theory Transport
  imports Serde Tunnel
begin

text \<open>
  The established session of transport.go: \<open>Send\<close>, \<open>Receive\<close> and \<open>Close\<close> on a transport with its two
  ciphers and sequence counters, and the derivation of the resumption root and tokens.
\<close>

subsection \<open>State\<close>

record peer =
  FirstSeen :: gotime
  LastSeen :: gotime
  Name :: bytes
  AppVersionOf :: bytes
  PublicKey :: bytes

record transport =
  t_conn :: link
  t_serde :: signed_serde
  t_encoder :: enigma
  t_decoder :: enigma
  t_remotePeer :: "peer option"
  t_sessionID :: bytes
  t_resumptionRoot :: "bytes option"
  t_recvSequence :: "64 word"
  t_sendSequence :: "64 word"

definition newTransport :: "link \<Rightarrow> signed_serde \<Rightarrow> bytes \<Rightarrow> enigma \<Rightarrow> enigma \<Rightarrow> transport" where
  "newTransport l serde sessionID encoder decoder =
     \<lparr>t_conn = l, t_serde = serde, t_encoder = encoder, t_decoder = decoder, t_remotePeer = None,
      t_sessionID = sessionID, t_resumptionRoot = None, t_recvSequence = 0, t_sendSequence = 0\<rparr>"

subsection \<open>Operations\<close>

definition isTimeout :: "kerror \<Rightarrow> bool" where
  "isTimeout e \<longleftrightarrow> e = ConnErr (ErrNet DeadlineExceeded)"

text \<open>What \<^verbatim>\<open>Receive\<close> makes of an error of the connection.\<close>

definition receive_error :: "kerror \<Rightarrow> kerror" where
  "receive_error e =
     (if e = ConnErr (ErrNet EOF) then ConnErr ErrConnClosed
      else if isTimeout e then ErrReceiveTimeout
      else e)"

text \<open>\<^verbatim>\<open>Receive\<close> after the read: decrypt, open, act on the route, check and advance the counter.\<close>

definition receive_payload ::
  "crypto \<Rightarrow> wire \<Rightarrow> 'a codec \<Rightarrow> transport \<Rightarrow> bytes \<Rightarrow> transport \<times> (kerror + metadata \<times> 'a)" where
  "receive_payload cr w c t payload =
     (case Decrypt cr (t_decoder t) payload of
        Inl e \<Rightarrow> (t, Inl e)
      | Inr decrypted \<Rightarrow>
          (case deserialize cr w c (t_serde t) decrypted of
             Inl e \<Rightarrow> (t, Inl e)
           | Inr (md, dst) \<Rightarrow>
               if md_route md = RouteCloseTransport then (t, Inl ErrPeerDisconnected)
               else let seq = md_Sequence md; expected = t_recvSequence t + 1 in
                    if seq \<noteq> expected then (t, Inl ErrOutOfSync)
                    else (t\<lparr>t_recvSequence := seq\<rparr>, Inr (md, dst))))"

definition Receive ::
  "crypto \<Rightarrow> wire \<Rightarrow> 'a codec \<Rightarrow> transport \<Rightarrow> (transport \<times> (kerror + metadata \<times> 'a)) io" where
  "Receive cr w c t =
     io_bind (link_ReadBytes cr (t_conn t)) (\<lambda>(l, r).
       let t' = t\<lparr>t_conn := l\<rparr> in
       case r of
         Inl e \<Rightarrow> Return (t', Inl (receive_error e))
       | Inr payload \<Rightarrow> Return (receive_payload cr w c t' payload))"

definition Send ::
  "crypto \<Rightarrow> wire \<Rightarrow> 'a codec \<Rightarrow> transport \<Rightarrow> 'a \<Rightarrow> route \<Rightarrow> (transport \<times> (kerror + metadata)) io" where
  "Send cr w c t message route =
     (if \<not> IsValid route then Return (t, Inl ErrInvalidRoute)
      else let seq = t_sendSequence t + 1; t1 = t\<lparr>t_sendSequence := seq\<rparr> in
      io_bind (serialize cr w c (t_serde t1) message route seq) (\<lambda>r. case r of
        Inl e \<Rightarrow> Return (t1, Inl e)
      | Inr (payload, md) \<Rightarrow>
          io_bind (Encrypt cr (t_encoder t1) payload) (\<lambda>ct.
            io_bind (link_WriteBytes cr (t_conn t1) ct) (\<lambda>(l, r).
              Return (t1\<lparr>t_conn := l\<rparr>, case r of Inl e \<Rightarrow> Inl e | Inr _ \<Rightarrow> Inr md)))))"

definition Transport_Close :: "crypto \<Rightarrow> wire \<Rightarrow> transport \<Rightarrow> (transport \<times> conn_error option) io" where
  "Transport_Close cr w t =
     io_bind (Send cr w (w_bytes w) t [] RouteCloseTransport) (\<lambda>(t', _).
       CloseConn (\<lambda>e. Return (t', e)))"

definition resumptionRootInfo :: bytes where
  "resumptionRootInfo = lit ''kamune/resumption-root/v1''"
definition resumptionTokenInfo :: bytes where
  "resumptionTokenInfo = lit ''kamune/resumption/token/v1/''"
definition resumptionTokenCount :: nat where "resumptionTokenCount = 20"
definition resumptionTokenSize :: nat where "resumptionTokenSize = 32"

definition setResumptionRoot :: "crypto \<Rightarrow> transport \<Rightarrow> bytes \<Rightarrow> transport" where
  "setResumptionRoot cr t sharedSecret =
     (case Derive cr sharedSecret (t_sessionID t) resumptionRootInfo resumptionTokenSize of
        Inl _ \<Rightarrow> t
      | Inr root \<Rightarrow> t\<lparr>t_resumptionRoot := Some root\<rparr>)"

definition token_info :: "nat \<Rightarrow> bytes" where
  "token_info i = resumptionTokenInfo @ put_uint32 (of_nat i)"

fun derive_each :: "crypto \<Rightarrow> bytes \<Rightarrow> nat list \<Rightarrow> bytes list option" where
  "derive_each cr root [] = Some []"
| "derive_each cr root (i # is) =
     (case Derive cr root [] (token_info i) resumptionTokenSize of
        Inl _ \<Rightarrow> None
      | Inr token \<Rightarrow>
          (case derive_each cr root is of None \<Rightarrow> None | Some tokens \<Rightarrow> Some (token # tokens)))"

text \<open>A nil slice is \<^const>\<open>None\<close>.\<close>

definition deriveResumptionTokens :: "crypto \<Rightarrow> transport \<Rightarrow> bytes list option" where
  "deriveResumptionTokens cr t =
     (case t_resumptionRoot t of
        None \<Rightarrow> None
      | Some root \<Rightarrow> derive_each cr root [0..<resumptionTokenCount])"

subsection \<open>Receiving\<close>

text \<open>A transport fed with arbitrary payloads, as a peer or an attacker sends them.\<close>

fun receive_all ::
  "crypto \<Rightarrow> wire \<Rightarrow> 'a codec \<Rightarrow> transport \<Rightarrow> bytes list \<Rightarrow> transport \<times> (kerror + metadata \<times> 'a) list" where
  "receive_all cr w c t [] = (t, [])"
| "receive_all cr w c t (p # ps) =
     (let (t', r) = receive_payload cr w c t p; (t'', rs) = receive_all cr w c t' ps in (t'', r # rs))"

definition accepted :: "('e + metadata \<times> 'a) list \<Rightarrow> 64 word list" where
  "accepted rs = concat (map (\<lambda>r. case r of Inl _ \<Rightarrow> [] | Inr (md, _) \<Rightarrow> [md_Sequence md]) rs)"

lemma accepted_simps [simp]:
  "accepted [] = []"
  "accepted (Inl e # rs) = accepted rs"
  "accepted (Inr (md, x) # rs) = md_Sequence md # accepted rs"
  by (simp_all add: accepted_def)

lemma receive_payload_cases:
  "(\<exists>e. receive_payload cr w c t p = (t, Inl e)) \<or>
   (\<exists>md x d. receive_payload cr w c t p = (t\<lparr>t_recvSequence := t_recvSequence t + 1\<rparr>, Inr (md, x)) \<and>
      md_Sequence md = t_recvSequence t + 1 \<and> md_route md \<noteq> RouteCloseTransport \<and>
      Decrypt cr (t_decoder t) p = Inr d \<and> deserialize cr w c (t_serde t) d = Inr (md, x))"
  by (auto simp: receive_payload_def Let_def split: sum.splits)

lemma receive_all_sequence:
  "receive_all cr w c t ps = (t', rs) \<Longrightarrow>
     accepted rs = map (\<lambda>i. t_recvSequence t + of_nat (Suc i)) [0..<length (accepted rs)] \<and>
     t_recvSequence t' = t_recvSequence t + of_nat (length (accepted rs))"
proof (induction ps arbitrary: t rs)
  case Nil
  then show ?case by (simp add: accepted_def)
next
  case (Cons p ps)
  obtain t1 r where r: "receive_payload cr w c t p = (t1, r)" by force
  obtain rs' where rs': "receive_all cr w c t1 ps = (t', rs')" "rs = r # rs'"
    using Cons.prems r by (auto split: prod.splits)
  note IH = Cons.IH [OF rs'(1)]
  from receive_payload_cases [of cr w c t p] r consider
      (1) e where "t1 = t" "r = Inl e"
    | (2) md x where "t1 = t\<lparr>t_recvSequence := t_recvSequence t + 1\<rparr>" "r = Inr (md, x)"
        "md_Sequence md = t_recvSequence t + 1" by auto
  then show ?case
  proof cases
    case 1
    with r rs' IH show ?thesis by simp
  next
    case 2
    then have acc: "accepted rs = (t_recvSequence t + 1) # accepted rs'" using rs' by simp
    have t1: "t_recvSequence t1 = t_recvSequence t + 1" using 2 r by simp
    have "map (\<lambda>i. t_recvSequence t + of_nat (Suc i)) [0..<Suc (length (accepted rs'))] =
        (t_recvSequence t + 1) # map (\<lambda>i. t_recvSequence t1 + of_nat (Suc i)) [0..<length (accepted rs')]"
      by (simp add: upt_conv_Cons map_Suc_upt [symmetric] t1 del: upt_Suc)
    with IH acc t1 show ?thesis by simp
  qed
qed

subsection \<open>A message from one transport to its peer\<close>

text \<open>\<open>flows a b\<close>: what \<open>a\<close> sends next is what \<open>b\<close> expects next.\<close>

definition flows :: "crypto \<Rightarrow> transport \<Rightarrow> transport \<Rightarrow> bool" where
  "flows cr a b \<longleftrightarrow> t_encoder a = t_decoder b \<and> t_sendSequence a = t_recvSequence b \<and>
     attest_ok cr (sd_attest (t_serde a)) \<and>
     sd_remote (t_serde b) = MarshalPublicKey cr (sd_attest (t_serde a))"

definition sent_from :: "transport \<Rightarrow> transport" where
  "sent_from a = a\<lparr>t_sendSequence := t_sendSequence a + 1\<rparr>"

definition received_at :: "transport \<Rightarrow> transport" where
  "received_at b = b\<lparr>t_recvSequence := t_recvSequence b + 1\<rparr>"

definition good_laws :: "crypto \<Rightarrow> wire \<Rightarrow> bool" where
  "good_laws cr w \<longleftrightarrow> crypto_laws cr \<and> wire_laws w \<and> wire_sizes w"

lemma good_lawsD:
  "good_laws cr w \<Longrightarrow> sign_law cr" "good_laws cr w \<Longrightarrow> hkdf_law cr" "good_laws cr w \<Longrightarrow> aead_law cr"
  "good_laws cr w \<Longrightarrow> mlkem_law cr" "good_laws cr w \<Longrightarrow> hpke_law cr" "good_laws cr w \<Longrightarrow> wire_laws w"
  "good_laws cr w \<Longrightarrow> wire_sizes w"
  by (simp_all add: good_laws_def crypto_laws_def)

text \<open>The local half of \<^verbatim>\<open>Send\<close>: every ciphertext it can produce opens at the peer.\<close>

definition prepare ::
  "crypto \<Rightarrow> wire \<Rightarrow> 'a codec \<Rightarrow> transport \<Rightarrow> 'a \<Rightarrow> route \<Rightarrow> (kerror + bytes \<times> metadata) io" where
  "prepare cr w c t message route =
     io_try (serialize cr w c (t_serde t) message route (t_sendSequence t + 1)) (\<lambda>(payload, md).
       io_bind (Encrypt cr (t_encoder t) payload) (\<lambda>ct. Return (Inr (ct, md))))"

lemma Send_prepare:
  assumes "IsValid route"
  shows "Send cr w c t message route =
     io_bind (prepare cr w c t message route) (\<lambda>r. case r of
       Inl e \<Rightarrow> Return (sent_from t, Inl e)
     | Inr (ct, md) \<Rightarrow> io_bind (link_WriteBytes cr (t_conn t) ct) (\<lambda>(l, r).
         Return ((sent_from t)\<lparr>t_conn := l\<rparr>, case r of Inl e \<Rightarrow> Inl e | Inr _ \<Rightarrow> Inr md)))"
  using assms
  by (auto simp: Send_def prepare_def Let_def io_try_def io_bind_assoc sent_from_def Encrypt_def
      intro!: arg_cong [where f = "io_bind (serialize cr w c (t_serde t) message route (t_sendSequence t + 1))"]
      split: sum.splits)

lemma prepare_opens:
  assumes "good_laws cr w" "enc c msg = Some message" "dec c message = Some msg"
    and "length message \<le> maxTransportSize" "IsValid route"
    and "t_encoder a = t_decoder b" "attest_ok cr (sd_attest (t_serde a))"
      "sd_remote (t_serde b) = MarshalPublicKey cr (sd_attest (t_serde a))"
  shows "yields (prepare cr w c a msg route)
     (\<lambda>r. \<exists>ct md p. r = Inr (ct, md) \<and> md_route md = route \<and> md_Sequence md = t_sendSequence a + 1 \<and>
        length ct \<le> MaxUint16 \<and> Decrypt cr (t_decoder b) ct = Inr p \<and>
        deserialize cr w c (t_serde b) p = Inr (md, msg))"
proof -
  note laws = good_lawsD [OF assms(1)]
  let ?P = "\<lambda>r. \<exists>ct md p. r = Inr (ct, md) \<and> md_route md = route \<and> md_Sequence md = t_sendSequence a + 1 \<and>
        length ct \<le> MaxUint16 \<and> Decrypt cr (t_decoder b) ct = Inr p \<and>
        deserialize cr w c (t_serde b) p = Inr (md, msg)"
  have ct: "length (xchacha_seal cr k n p) = length p + 16" for k n p
    using laws(3) by (simp add: aead_law_def)
  have "yields (io_bind (Encrypt cr (t_encoder a) p) (\<lambda>ct. Return (Inr (ct, md)))) ?P"
    if p: "sealed cr w (sd_attest (t_serde a)) md message p" "length p \<le> frameTargetSize"
      "md_Sequence md = t_sendSequence a + 1" "md_Route md = ToProto route" for p md
  proof -
    have "deserialize cr w c (t_serde b) p = Inr (md, msg)"
      by (rule deserialize_sealed [OF p(1) laws(1) assms(7,8,3)])
    moreover have "md_route md = route"
      using p(4) assms(5) by (simp add: md_route_def RouteFromProto_ToProto)
    ultimately show ?thesis
      using p(2,3) by (simp add: Encrypt_def Decrypt_seal [OF laws(3)] assms(6) ct size_consts nonceSize_def)
  qed
  then show ?thesis
    unfolding prepare_def io_try_def
    by (intro yields_bind [OF serialize_yields [OF laws(6,7,1) assms(2,4)]]) auto
qed

lemma prepare_yields:
  assumes "good_laws cr w" "enc c msg = Some message" "dec c message = Some msg"
    and "length message \<le> maxTransportSize" "flows cr a b" "IsValid route" "route \<noteq> RouteCloseTransport"
  shows "yields (prepare cr w c a msg route)
     (\<lambda>r. \<exists>ct md. r = Inr (ct, md) \<and> md_route md = route \<and> length ct \<le> MaxUint16 \<and>
        (\<forall>l. receive_payload cr w c (b\<lparr>t_conn := l\<rparr>) ct = ((received_at b)\<lparr>t_conn := l\<rparr>, Inr (md, msg))))"
proof -
  have fl: "t_encoder a = t_decoder b" "t_sendSequence a = t_recvSequence b"
      "attest_ok cr (sd_attest (t_serde a))" "sd_remote (t_serde b) = MarshalPublicKey cr (sd_attest (t_serde a))"
    using assms(5) by (auto simp: flows_def)
  show ?thesis
    by (rule yields_mono [OF prepare_opens [OF assms(1-4,6) fl(1,3,4)]])
       (use assms(7) fl(2) in \<open>auto simp: receive_payload_def Let_def received_at_def\<close>)
qed

lemma message_left:
  assumes "good_laws cr w" "enc c msg = Some message" "dec c message = Some msg"
    and "length message \<le> maxTransportSize" "IsValid route" "route \<noteq> RouteCloseTransport"
    and "flows cr a b" "linked n m (t_conn a) (t_conn b)" "n < 2 ^ 64"
    and "\<And>la lb md. linked (Suc n) m la lb \<Longrightarrow> md_route md = route \<Longrightarrow>
       settles Q ((f ((sent_from a)\<lparr>t_conn := la\<rparr>, Inr md), []),
         (g ((received_at b)\<lparr>t_conn := lb\<rparr>, Inr (md, msg)), []))"
  shows "settles Q ((io_bind (Send cr w c a msg route) f, []), (io_bind (Receive cr w c b) g, []))"
  unfolding Send_prepare [OF assms(5)] io_bind_assoc
  by (rule yields_left [OF prepare_yields [OF assms(1-4,7,5,6)]])
     (auto simp: Receive_def io_bind_assoc Let_def
        intro!: link_send_left [OF good_lawsD(5) [OF assms(1)] assms(8,9)] assms(10))

lemma message_right:
  assumes "good_laws cr w" "enc c msg = Some message" "dec c message = Some msg"
    and "length message \<le> maxTransportSize" "IsValid route" "route \<noteq> RouteCloseTransport"
    and "flows cr b a" "linked n m (t_conn a) (t_conn b)" "m < 2 ^ 64"
    and "\<And>la lb md. linked n (Suc m) la lb \<Longrightarrow> md_route md = route \<Longrightarrow>
       settles Q ((f ((received_at a)\<lparr>t_conn := la\<rparr>, Inr (md, msg)), []),
         (g ((sent_from b)\<lparr>t_conn := lb\<rparr>, Inr md), []))"
  shows "settles Q ((io_bind (Receive cr w c a) f, []), (io_bind (Send cr w c b msg route) g, []))"
  unfolding Send_prepare [OF assms(5)] io_bind_assoc
  by (rule yields_right [OF prepare_yields [OF assms(1-4,7,5,6)]])
     (auto simp: Receive_def io_bind_assoc Let_def
        intro!: link_send_right [OF good_lawsD(5) [OF assms(1)] assms(8,9)] assms(10))

lemma flows_step [simp]:
  "flows cr a b \<Longrightarrow> flows cr ((sent_from a)\<lparr>t_conn := la\<rparr>) ((received_at b)\<lparr>t_conn := lb\<rparr>)"
  "flows cr ((received_at a)\<lparr>t_conn := la\<rparr>) ((sent_from b)\<lparr>t_conn := lb\<rparr>) = flows cr a b"
  by (simp_all add: flows_def sent_from_def received_at_def)

lemma live_transport [simp]: "live (Send cr w c t msg route)" "live (Receive cr w c t)"
  by (simp_all add: Send_def Receive_def Encrypt_def Let_def split: sum.splits prod.splits)

subsection \<open>A stream of messages\<close>

fun send_all ::
  "crypto \<Rightarrow> wire \<Rightarrow> 'a codec \<Rightarrow> transport \<Rightarrow> 'a list \<Rightarrow> (transport \<times> (kerror + metadata) list) io" where
  "send_all cr w c t [] = Return (t, [])"
| "send_all cr w c t (m # ms) =
     io_bind (Send cr w c t m RouteExchangeMessages) (\<lambda>(t', r).
       io_bind (send_all cr w c t' ms) (\<lambda>(t'', rs). Return (t'', r # rs)))"

fun receive_n ::
  "crypto \<Rightarrow> wire \<Rightarrow> 'a codec \<Rightarrow> transport \<Rightarrow> nat \<Rightarrow> (transport \<times> (kerror + metadata \<times> 'a) list) io" where
  "receive_n cr w c t 0 = Return (t, [])"
| "receive_n cr w c t (Suc n) =
     io_bind (Receive cr w c t) (\<lambda>(t', r).
       io_bind (receive_n cr w c t' n) (\<lambda>(t'', rs). Return (t'', r # rs)))"

definition delivered ::
  "crypto \<Rightarrow> 'a list \<Rightarrow> transport \<times> (kerror + metadata) list \<Rightarrow> transport \<times> (kerror + metadata \<times> 'a) list \<Rightarrow> bool" where
  "delivered cr msgs x y \<longleftrightarrow> flows cr (fst x) (fst y) \<and>
     map (\<lambda>r. case r of Inl _ \<Rightarrow> None | Inr (_, m) \<Rightarrow> Some m) (snd y) = map Some msgs \<and>
     snd x = map (\<lambda>r. case r of Inl e \<Rightarrow> Inl e | Inr (md, _) \<Rightarrow> Inr md) (snd y)"

lemma stream_settles:
  assumes "good_laws cr w"
    and "\<forall>m \<in> set msgs. \<exists>b. enc c m = Some b \<and> dec c b = Some m \<and> length b \<le> maxTransportSize"
    and "flows cr a b" "linked n k (t_conn a) (t_conn b)" "n + length msgs \<le> 2 ^ 64"
    and "\<And>x y. delivered cr msgs x y \<Longrightarrow> settles Q ((f x, []), (g y, []))"
  shows "settles Q ((io_bind (send_all cr w c a msgs) f, []),
     (io_bind (receive_n cr w c b (length msgs)) g, []))"
  using assms(2-)
proof (induction msgs arbitrary: a b n f g)
  case Nil
  then show ?case by (simp add: delivered_def)
next
  case (Cons m ms)
  from Cons.prems(1) obtain e where e: "enc c m = Some e" "dec c e = Some m" "length e \<le> maxTransportSize"
    by auto
  have n: "n < 2 ^ 64" using Cons.prems(4) by simp
  show ?case
    unfolding send_all.simps receive_n.simps length_Cons io_bind_assoc
  proof (rule message_left [OF assms(1) e _ _ Cons.prems(2,3) n])
    fix la lb md
    assume l: "linked (Suc n) k la lb" "md_route md = RouteExchangeMessages"
    show "settles Q ((io_bind (case ((sent_from a)\<lparr>t_conn := la\<rparr>, Inr md) of (t', r) \<Rightarrow>
         io_bind (send_all cr w c t' ms) (\<lambda>(t'', rs). Return (t'', r # rs))) f, []),
      (io_bind (case ((received_at b)\<lparr>t_conn := lb\<rparr>, Inr (md, m)) of (t', r) \<Rightarrow>
         io_bind (receive_n cr w c t' (length ms)) (\<lambda>(t'', rs). Return (t'', r # rs))) g, []))"
      unfolding prod.case io_bind_assoc
    proof (rule Cons.IH [where n = "Suc n"])
      fix x y
      assume xy: "delivered cr ms x y"
      show "settles Q ((io_bind (case x of (t'', rs) \<Rightarrow> Return (t'', Inr md # rs)) f, []),
          (io_bind (case y of (t'', rs) \<Rightarrow> Return (t'', Inr (md, m) # rs)) g, []))"
        using xy Cons.prems(5) [of "(fst x, Inr md # snd x)" "(fst y, Inr (md, m) # snd y)"]
        by (auto simp: delivered_def split: prod.splits)
    qed (use Cons.prems l in auto)
  qed (auto simp: IsValid_def)
qed

lemma live_send_all [simp]: "live (send_all cr w c t msgs)"
  by (induction msgs arbitrary: t) (auto split: prod.splits)

lemma live_receive_n [simp]: "live (receive_n cr w c t n)"
  by (induction n arbitrary: t) (auto split: prod.splits)

subsection \<open>Properties\<close>

text \<open>C8. Whatever payloads arrive, in whatever order, repeated or forged, the messages a transport
  accepts carry consecutive sequence numbers from the one after its counter on: no accepted message
  is a duplicate, out of order, or behind a gap. The counter ends at the last number accepted.\<close>

theorem received_in_sequence:
  "(let (t', rs) = receive_all cr w c t ps in
     accepted rs = map (\<lambda>i. t_recvSequence t + of_nat (Suc i)) [0..<length (accepted rs)] \<and>
     t_recvSequence t' = t_recvSequence t + of_nat (length (accepted rs)))"
proof (cases "receive_all cr w c t ps")
  case (Pair t' rs)
  from receive_all_sequence [OF this] Pair show ?thesis by simp
qed

lemma receive_all_frame:
  "receive_all cr w c t ps = (t', rs) \<Longrightarrow> t_decoder t' = t_decoder t \<and> t_serde t' = t_serde t"
proof (induction ps arbitrary: t rs)
  case (Cons p ps)
  obtain t1 r where r: "receive_payload cr w c t p = (t1, r)" by force
  then have "t_decoder t1 = t_decoder t \<and> t_serde t1 = t_serde t"
    using receive_payload_cases [of cr w c t p] by auto
  with Cons r show ?case by (auto split: prod.splits)
qed simp

text \<open>C9. A payload that was accepted once is refused whenever it comes back, after any further
  traffic, up to the wrap of the 64-bit counter.\<close>

theorem replay_rejected:
  assumes "receive_payload cr w c t p = (t1, Inr m)"
    and "receive_all cr w c t1 ps = (t2, rs)" "length (accepted rs) < 2 ^ 64 - 1"
  shows "receive_payload cr w c t2 p = (t2, Inl ErrOutOfSync)"
proof -
  obtain md x d where m: "t1 = t\<lparr>t_recvSequence := t_recvSequence t + 1\<rparr>" "m = (md, x)"
      "md_Sequence md = t_recvSequence t + 1" "md_route md \<noteq> RouteCloseTransport"
      "Decrypt cr (t_decoder t) p = Inr d" "deserialize cr w c (t_serde t) d = Inr (md, x)"
    using receive_payload_cases [of cr w c t p] assms(1) by auto
  have t2: "t_decoder t2 = t_decoder t" "t_serde t2 = t_serde t"
      "t_recvSequence t2 = t_recvSequence t1 + of_nat (length (accepted rs))"
    using receive_all_frame [OF assms(2)] receive_all_sequence [OF assms(2)] m(1) by auto
  have "(of_nat (Suc (length (accepted rs))) :: 64 word) \<noteq> 0"
    using assms(3) by (subst word_of_nat_eq_0_iff) (auto dest!: dvd_imp_le)
  then have "md_Sequence md \<noteq> t_recvSequence t2 + 1"
    using m(1,3) t2(3) by (simp add: add.assoc add.commute)
  with m t2 show ?thesis by (simp add: receive_payload_def Let_def)
qed

text \<open>C7. Two transports in step on a connection that delivers: whatever the draws and the schedule,
  every message sent arrives once, in order and unchanged, with the metadata \<^verbatim>\<open>Send\<close> returned, and the
  two are in step again afterwards.\<close>

theorem messages_delivered:
  assumes "good_laws cr w"
    and "\<forall>m \<in> set msgs. \<exists>b. enc c m = Some b \<and> dec c b = Some m \<and> length b \<le> maxTransportSize"
    and "flows cr a b" "linked n k (t_conn a) (t_conn b)" "n + length msgs \<le> 2 ^ 64"
  shows "completes (delivered cr msgs)
     ((send_all cr w c a msgs, []), (receive_n cr w c b (length msgs), []))"
  using stream_settles [OF assms, of "delivered cr msgs" Return Return]
  by (intro settles_completes) (simp_all add: settles.finish)

definition demo_transport :: transport where
  "demo_transport = newTransport Plain demo_serde (lit ''session'') \<lparr>aead_key = []\<rparr> \<lparr>aead_key = []\<rparr>"

lemma demo_good_laws: "good_laws demo_crypto demo_wire"
  by (simp add: good_laws_def demo_crypto_laws demo_wire_laws demo_wire_sizes)

lemma demo_flows: "flows demo_crypto demo_transport demo_transport"
  using demo_serde_ok by (simp add: flows_def demo_transport_def newTransport_def)

lemma demo_message:
  "length m \<le> maxTransportSize \<Longrightarrow>
    \<exists>b. enc (w_bytes demo_wire) m = Some b \<and> dec (w_bytes demo_wire) b = Some m \<and> length b \<le> maxTransportSize"
  by (simp add: demo_wire_def)

theorem messages_delivered_witness:
  "completes (delivered demo_crypto [lit ''one'', lit ''two''])
     ((send_all demo_crypto demo_wire (w_bytes demo_wire) demo_transport [lit ''one'', lit ''two''], []),
      (receive_n demo_crypto demo_wire (w_bytes demo_wire) demo_transport 2, []))"
proof -
  have "linked 0 0 (t_conn demo_transport) (t_conn demo_transport)"
    by (simp add: demo_transport_def newTransport_def)
  moreover have "\<forall>m \<in> set [lit ''one'', lit ''two'']. \<exists>b. enc (w_bytes demo_wire) m = Some b \<and>
      dec (w_bytes demo_wire) b = Some m \<and> length b \<le> maxTransportSize"
    by (simp add: demo_wire_def size_consts)
  moreover have "0 + length [lit ''one'', lit ''two''] \<le> 2 ^ 64" by simp
  ultimately show ?thesis
    using messages_delivered [OF demo_good_laws _ demo_flows, of "[lit ''one'', lit ''two'']" "w_bytes demo_wire" 0 0]
    by (simp only: length_Cons list.size numeral_2_eq_2)
qed

theorem replay_rejected_witness:
  "\<exists>p t1 m. receive_payload demo_crypto demo_wire (w_bytes demo_wire) demo_transport p = (t1, Inr m) \<and>
     receive_payload demo_crypto demo_wire (w_bytes demo_wire) t1 p = (t1, Inl ErrOutOfSync)"
proof -
  let ?c = "w_bytes demo_wire"
  have c: "enc ?c (lit ''hi'') = Some (lit ''hi'')" "dec ?c (lit ''hi'') = Some (lit ''hi'')"
      "length (lit ''hi'') \<le> maxTransportSize" "IsValid RouteExchangeMessages"
      "RouteExchangeMessages \<noteq> RouteCloseTransport"
    by (simp_all add: demo_wire_def size_consts IsValid_def)
  have "live (prepare demo_crypto demo_wire ?c demo_transport (lit ''hi'') RouteExchangeMessages)"
    unfolding prepare_def by (intro live_try) (auto simp: Encrypt_def split: prod.splits)
  from live_run [OF this] obtain es r where
    "run (prepare demo_crypto demo_wire ?c demo_transport (lit ''hi'') RouteExchangeMessages) es = Some (r, [])"
    by blast
  from yields_run [OF this prepare_yields [OF demo_good_laws c(1-3) demo_flows c(4,5)]]
  obtain p md where p: "receive_payload demo_crypto demo_wire ?c (demo_transport\<lparr>t_conn := Plain\<rparr>) p =
      ((received_at demo_transport)\<lparr>t_conn := Plain\<rparr>, Inr (md, lit ''hi''))"
    by blast
  have [simp]: "demo_transport\<lparr>t_conn := Plain\<rparr> = demo_transport"
    by (simp add: demo_transport_def newTransport_def)
  define t1 where "t1 = (received_at demo_transport)\<lparr>t_conn := Plain\<rparr>"
  have ok: "receive_payload demo_crypto demo_wire ?c demo_transport p = (t1, Inr (md, lit ''hi''))"
    using p by (simp add: t1_def)
  have none: "receive_all demo_crypto demo_wire ?c t1 [] = (t1, [])" by simp
  from replay_rejected [OF ok none] ok show ?thesis by auto
qed

lemma Send_too_large:
  assumes "enc c big = Some huge" "length huge > maxTransportSize" "IsValid route"
  shows "Send cr w c a big route = Return (sent_from a, Inl (ConnErr ErrMessageTooLarge))"
  using assms unfolding Send_prepare [OF assms(3)] by (simp add: prepare_def serialize_def marshal_def)

text \<open>C33. \<^verbatim>\<open>Send\<close> takes its sequence number before it checks the size. A message that is too large is
  refused, nothing reaches the wire, and yet the counter has moved: the next message, however small,
  is refused by the peer as out of sync, and so the session is lost.\<close>

theorem failed_send_desynchronises:
  assumes "good_laws cr w" "flows cr a b" "t_conn a = Plain"
    and "enc c big = Some huge" "length huge > maxTransportSize"
    and "enc c msg = Some message" "dec c message = Some msg" "length message \<le> maxTransportSize"
    and "run (Send cr w c a big RouteExchangeMessages) es = Some ((a1, r1), es1)"
    and "run (Send cr w c a1 msg RouteExchangeMessages) es1 = Some ((a2, r2), es2)"
  shows "r1 = Inl (ConnErr ErrMessageTooLarge) \<and> es1 = es \<and>
     (\<exists>ct e. EWrite ct e \<in> set es1 \<and> receive_payload cr w c b ct = (b, Inl ErrOutOfSync))"
proof -
  have valid: "IsValid RouteExchangeMessages" by (simp add: IsValid_def)
  have a1: "a1 = sent_from a" "r1 = Inl (ConnErr ErrMessageTooLarge)" "es1 = es"
    using assms(9) unfolding Send_too_large [OF assms(4,5) valid] by auto
  have fl: "t_encoder a1 = t_decoder b" "attest_ok cr (sd_attest (t_serde a1))"
      "sd_remote (t_serde b) = MarshalPublicKey cr (sd_attest (t_serde a1))"
      "t_sendSequence a1 = t_recvSequence b + 1" "t_conn a1 = Plain"
    using assms(2,3) by (auto simp: a1 flows_def sent_from_def)
  obtain r es' where prep: "run (prepare cr w c a1 msg RouteExchangeMessages) es1 = Some (r, es')"
    and rest: "run (case r of Inl e \<Rightarrow> Return (sent_from a1, Inl e)
       | Inr (ct, md) \<Rightarrow> io_bind (link_WriteBytes cr (t_conn a1) ct) (\<lambda>(l, r).
         Return ((sent_from a1)\<lparr>t_conn := l\<rparr>, case r of Inl e \<Rightarrow> Inl e | Inr _ \<Rightarrow> Inr md))) es' =
       Some ((a2, r2), es2)"
    using assms(10) unfolding Send_prepare [OF valid] run_bind by (auto split: option.splits)
  from yields_run [OF prep prepare_opens [OF assms(1,6-8) valid fl(1-3)]]
  obtain ct md p where ct: "r = Inr (ct, md)" "md_route md = RouteExchangeMessages"
      "md_Sequence md = t_sendSequence a1 + 1" "Decrypt cr (t_decoder b) ct = Inr p"
      "deserialize cr w c (t_serde b) p = Inr (md, msg)" by blast
  have "\<exists>e es''. es' = EWrite ct e # es''"
    using rest by (simp add: ct(1) fl(5) link_WriteBytes_def run_iffs) blast
  then have "\<exists>e. EWrite ct e \<in> set es1" using run_suffix [OF prep] by auto
  moreover have "receive_payload cr w c b ct = (b, Inl ErrOutOfSync)"
    using ct fl(4) by (simp add: receive_payload_def Let_def add.assoc)
  ultimately show ?thesis using a1 by blast
qed

theorem failed_send_desynchronises_witness:
  "\<exists>es a1 a2 r2 ct e.
     run (Send demo_crypto demo_wire (w_bytes demo_wire) demo_transport (replicate 61440 0) 7) es =
       Some ((a1, Inl (ConnErr ErrMessageTooLarge)), es) \<and>
     run (Send demo_crypto demo_wire (w_bytes demo_wire) a1 (lit ''hi'') 7) es = Some ((a2, r2), []) \<and>
     EWrite ct e \<in> set es \<and>
     receive_payload demo_crypto demo_wire (w_bytes demo_wire) demo_transport ct =
       (demo_transport, Inl ErrOutOfSync)"
proof -
  let ?c = "w_bytes demo_wire" and ?big = "replicate 61440 0 :: bytes"
  have big: "enc ?c ?big = Some ?big" "length ?big > maxTransportSize"
    by (simp_all add: demo_wire_def size_consts)
  have msg: "enc ?c (lit ''hi'') = Some (lit ''hi'')" "dec ?c (lit ''hi'') = Some (lit ''hi'')"
      "length (lit ''hi'') \<le> maxTransportSize"
    by (simp_all add: demo_wire_def size_consts)
  have first: "run (Send demo_crypto demo_wire ?c demo_transport ?big RouteExchangeMessages) es =
      Some ((sent_from demo_transport, Inl (ConnErr ErrMessageTooLarge)), es)" for es
    by (subst Send_too_large [OF big]) (simp_all add: IsValid_def)
  obtain es a2 r2 where second: "run (Send demo_crypto demo_wire ?c (sent_from demo_transport) (lit ''hi'')
      RouteExchangeMessages) es = Some ((a2, r2), [])"
    using live_run [OF live_transport(1) [of demo_crypto demo_wire ?c "sent_from demo_transport" "lit ''hi''" RouteExchangeMessages]]
    by auto
  have plain: "t_conn demo_transport = Plain" by (simp add: demo_transport_def newTransport_def)
  from failed_send_desynchronises [OF demo_good_laws demo_flows plain big msg first second]
  show ?thesis using first [of es] second by auto
qed

end
