(* ===== verification/Handshake.thy ===== *)
theory Handshake
  imports Transport
begin

text \<open>
  The handshake of handshake.go: the initiator's \<open>requestHandshake\<close>, the responder's
  \<open>acceptHandshake\<close>, the challenge exchange that confirms the shared secret in both directions, and
  the transcript that binds the challenges to the handshake messages.
\<close>

subsection \<open>Constants and pure parts\<close>

definition sessionIDLength :: nat where "sessionIDLength = 24"
definition handshakeInfo :: bytes where "handshakeInfo = lit ''kamune/handshake/v1''"
definition handshakeC2SInfo :: bytes where "handshakeC2SInfo = lit ''kamune/handshake/client-to-server/v1/''"
definition handshakeS2CInfo :: bytes where "handshakeS2CInfo = lit ''kamune/handshake/server-to-client/v1/''"
definition handshakeSaltSize :: nat where "handshakeSaltSize = 16"
definition handshakeChallengeSize :: nat where "handshakeChallengeSize = 32"

definition validateHandshakeFields :: "bytes \<Rightarrow> bytes \<Rightarrow> bool" where
  "validateHandshakeFields salt sessionKey \<longleftrightarrow>
     length salt = handshakeSaltSize \<and>
     (length sessionKey = sessionIDLength div 2 \<or> length sessionKey = sessionIDLength)"

definition length_prefixed :: "bytes \<Rightarrow> bytes" where
  "length_prefixed b = put_uint32 (of_nat (length b)) @ b"

definition handshake_transcript :: "handshake \<Rightarrow> handshake \<Rightarrow> bytes" where
  "handshake_transcript req resp =
     handshakeInfo @
     length_prefixed (hs_Key req) @ length_prefixed (hs_Salt req) @ length_prefixed (hs_SessionKey req) @
     length_prefixed (hs_Key resp) @ length_prefixed (hs_Salt resp) @ length_prefixed (hs_SessionKey resp)"

definition handshakeTranscriptHash :: "crypto \<Rightarrow> handshake \<Rightarrow> handshake \<Rightarrow> bytes" where
  "handshakeTranscriptHash cr req resp = sha256_sum cr (handshake_transcript req resp)"

definition deriveChallengeInfo :: "bytes \<Rightarrow> bytes \<Rightarrow> bytes \<Rightarrow> bytes" where
  "deriveChallengeInfo sessionID direction hash =
     sessionID @ lit ''|'' @ direction @ lit ''|'' @ hash"

subsection \<open>The challenge exchange\<close>

text \<open>A function that fails drops its transport and connection, as its callers do; only success
  returns the updated ones.\<close>

definition awaitEcho :: "crypto \<Rightarrow> wire \<Rightarrow> transport \<Rightarrow> bytes \<Rightarrow> (kerror + transport) io" where
  "awaitEcho cr w t challenge =
     io_bind (Receive cr w (w_bytes w) t) (\<lambda>(t', r). case r of
       Inl e \<Rightarrow> Return (Inl e)
     | Inr (md, v) \<Rightarrow>
         if md_route md \<noteq> RouteVerifyChallenge then Return (Inl ErrUnexpectedRoute)
         else if v \<noteq> challenge then Return (Inl ErrVerificationFailed)
         else Return (Inr t'))"

definition sendChallenge :: "crypto \<Rightarrow> wire \<Rightarrow> transport \<Rightarrow> bytes \<Rightarrow> bytes \<Rightarrow> (kerror + transport) io" where
  "sendChallenge cr w t secret info =
     (case Derive cr secret [] info handshakeChallengeSize of
        Inl e \<Rightarrow> Return (Inl e)
      | Inr challenge \<Rightarrow>
          io_bind (Send cr w (w_bytes w) t challenge RouteSendChallenge) (\<lambda>(t', r). case r of
            Inl e \<Rightarrow> Return (Inl e)
          | Inr _ \<Rightarrow> awaitEcho cr w t' challenge))"

definition sendEcho :: "crypto \<Rightarrow> wire \<Rightarrow> transport \<Rightarrow> bytes \<Rightarrow> (kerror + transport) io" where
  "sendEcho cr w t v =
     io_bind (Send cr w (w_bytes w) t v RouteVerifyChallenge) (\<lambda>(t', r). case r of
       Inl e \<Rightarrow> Return (Inl e)
     | Inr _ \<Rightarrow> Return (Inr t'))"

definition acceptChallenge :: "crypto \<Rightarrow> wire \<Rightarrow> transport \<Rightarrow> route \<Rightarrow> (kerror + transport) io" where
  "acceptChallenge cr w t expectedRoute =
     io_bind (Receive cr w (w_bytes w) t) (\<lambda>(t', r). case r of
       Inl e \<Rightarrow> Return (Inl e)
     | Inr (md, v) \<Rightarrow>
         if md_route md \<noteq> expectedRoute then Return (Inl ErrUnexpectedRoute)
         else sendEcho cr w t' v)"

subsection \<open>The handshake\<close>

definition link_write :: "crypto \<Rightarrow> link \<Rightarrow> bytes \<Rightarrow> (kerror + link) io" where
  "link_write cr l d =
     io_bind (link_WriteBytes cr l d) (\<lambda>(l', r). Return (case r of Inl e \<Rightarrow> Inl e | Inr _ \<Rightarrow> Inr l'))"

definition link_read :: "crypto \<Rightarrow> link \<Rightarrow> (kerror + link \<times> bytes) io" where
  "link_read cr l =
     io_bind (link_ReadBytes cr l) (\<lambda>(l', r). Return (case r of Inl e \<Rightarrow> Inl e | Inr d \<Rightarrow> Inr (l', d)))"

text \<open>The two ciphers, the transport and the two challenges: what remains once the secret and both
  handshake messages are known. The initiator speaks first.\<close>

definition handshake_ciphers ::
  "crypto \<Rightarrow> bytes \<Rightarrow> bytes \<Rightarrow> bytes \<Rightarrow> bytes \<Rightarrow> bytes \<Rightarrow> kerror + enigma \<times> enigma" where
  "handshake_ciphers cr secret encSalt encInfo decSalt decInfo =
     (case NewEnigma cr secret encSalt encInfo of
        Inl e \<Rightarrow> Inl e
      | Inr encoder \<Rightarrow>
          (case NewEnigma cr secret decSalt decInfo of
             Inl e \<Rightarrow> Inl e
           | Inr decoder \<Rightarrow> Inr (encoder, decoder)))"

definition request_confirm ::
  "crypto \<Rightarrow> wire \<Rightarrow> link \<Rightarrow> signed_serde \<Rightarrow> bytes \<Rightarrow> bytes \<Rightarrow> bytes \<Rightarrow> bytes \<Rightarrow> bytes \<Rightarrow> (kerror + transport) io" where
  "request_confirm cr w l serde sessionID secret localSalt remoteSalt transcriptHash =
     (case handshake_ciphers cr secret localSalt (handshakeC2SInfo @ sessionID)
             remoteSalt (handshakeS2CInfo @ sessionID) of
        Inl e \<Rightarrow> Return (Inl e)
      | Inr (encoder, decoder) \<Rightarrow>
          io_try (sendChallenge cr w (newTransport l serde sessionID encoder decoder) secret
              (deriveChallengeInfo sessionID handshakeC2SInfo transcriptHash)) (\<lambda>t1.
          io_try (acceptChallenge cr w t1 RouteSendChallenge) (\<lambda>t2.
          Return (Inr (setResumptionRoot cr t2 secret)))))"

definition accept_confirm ::
  "crypto \<Rightarrow> wire \<Rightarrow> link \<Rightarrow> signed_serde \<Rightarrow> bytes \<Rightarrow> bytes \<Rightarrow> bytes \<Rightarrow> bytes \<Rightarrow> bytes \<Rightarrow> (kerror + transport) io" where
  "accept_confirm cr w l serde sessionID secret localSalt remoteSalt transcriptHash =
     (case handshake_ciphers cr secret localSalt (handshakeS2CInfo @ sessionID)
             remoteSalt (handshakeC2SInfo @ sessionID) of
        Inl e \<Rightarrow> Return (Inl e)
      | Inr (encoder, decoder) \<Rightarrow>
          io_try (acceptChallenge cr w (newTransport l serde sessionID encoder decoder) RouteSendChallenge) (\<lambda>t1.
          io_try (sendChallenge cr w t1 secret
              (deriveChallengeInfo sessionID handshakeS2CInfo transcriptHash)) (\<lambda>t2.
          Return (Inr (setResumptionRoot cr t2 secret)))))"

text \<open>The session key of a message: half a session ID from a cold handshake, the ID of the session
  being resumed otherwise.\<close>

definition session_key :: "bytes \<Rightarrow> bytes io" where
  "session_key optsSessionID =
     (if optsSessionID = [] then enigma_Text (sessionIDLength div 2) else Return optsSessionID)"

text \<open>The initiator from the response on.\<close>

definition request_finish ::
  "crypto \<Rightarrow> wire \<Rightarrow> signed_serde \<Rightarrow> bytes \<Rightarrow> bytes \<Rightarrow> handshake \<Rightarrow> link \<times> bytes \<Rightarrow> (kerror + transport) io" where
  "request_finish cr w serde optsSessionID dk req = (\<lambda>(l, respBytes).
     case deserialize cr w (w_handshake w) serde respBytes of
       Inl e \<Rightarrow> Return (Inl e)
     | Inr (md, resp) \<Rightarrow>
         if md_route md \<noteq> RouteAcceptHandshake then Return (Inl ErrUnexpectedRoute)
         else if \<not> validateHandshakeFields (hs_Salt resp) (hs_SessionKey resp)
           then Return (Inl ErrHandshakeFields)
         else let sessionID = (if optsSessionID = [] then hs_SessionKey req @ hs_SessionKey resp
                               else optsSessionID);
                  transcriptHash = handshakeTranscriptHash cr req resp in
         (case mlkem_decap cr dk (hs_Key resp) of
            None \<Rightarrow> Return (Inl ErrCrypto)
          | Some secret \<Rightarrow>
              request_confirm cr w l serde sessionID secret (hs_Salt req) (hs_Salt resp) transcriptHash))"

definition requestHandshake ::
  "crypto \<Rightarrow> wire \<Rightarrow> link \<Rightarrow> signed_serde \<Rightarrow> bytes \<Rightarrow> (kerror + transport) io" where
  "requestHandshake cr w l serde optsSessionID =
     Random (mlkem_seed_size cr) (\<lambda>seed. let dk = mlkem_generate cr seed in
     Random handshakeSaltSize (\<lambda>localSalt.
     io_bind (session_key optsSessionID) (\<lambda>sessionKey.
     let req = \<lparr>hs_Key = mlkem_public cr dk, hs_Salt = localSalt, hs_SessionKey = sessionKey\<rparr> in
     io_try (serialize cr w (w_handshake w) serde req RouteRequestHandshake 0) (\<lambda>(reqBytes, _).
     io_try (link_write cr l reqBytes) (\<lambda>l1.
     io_try (link_read cr l1) (request_finish cr w serde optsSessionID dk req))))))"

text \<open>The responder from a request with acceptable fields on.\<close>

definition accept_respond ::
  "crypto \<Rightarrow> wire \<Rightarrow> link \<Rightarrow> signed_serde \<Rightarrow> bytes \<Rightarrow> handshake \<Rightarrow> (kerror + transport) io" where
  "accept_respond cr w l serde optsSessionID req =
     Random (mlkem_coins cr) (\<lambda>coins.
     let secret = fst (mlkem_encap cr (hs_Key req) coins); ct = snd (mlkem_encap cr (hs_Key req) coins) in
     io_bind (session_key optsSessionID) (\<lambda>sessionKey.
     let sessionID = (if optsSessionID = [] then hs_SessionKey req @ sessionKey else optsSessionID) in
     Random handshakeSaltSize (\<lambda>localSalt.
     let resp = \<lparr>hs_Key = ct, hs_Salt = localSalt, hs_SessionKey = sessionKey\<rparr> in
     io_try (serialize cr w (w_handshake w) serde resp RouteAcceptHandshake 0) (\<lambda>(respBytes, _).
     io_try (link_write cr l respBytes) (\<lambda>l1.
     accept_confirm cr w l1 serde sessionID secret localSalt (hs_Salt req)
       (handshakeTranscriptHash cr req resp))))))"

definition acceptHandshake ::
  "crypto \<Rightarrow> wire \<Rightarrow> link \<Rightarrow> signed_serde \<Rightarrow> bytes \<Rightarrow> (kerror + transport) io" where
  "acceptHandshake cr w l serde optsSessionID =
     io_try (link_read cr l) (\<lambda>(l1, reqBytes).
     case deserialize cr w (w_handshake w) serde reqBytes of
       Inl e \<Rightarrow> Return (Inl e)
     | Inr (md, req) \<Rightarrow>
         if md_route md \<noteq> RouteRequestHandshake then Return (Inl ErrUnexpectedRoute)
         else if \<not> validateHandshakeFields (hs_Salt req) (hs_SessionKey req)
           then Return (Inl ErrHandshakeFields)
         else if \<not> mlkem_valid cr (hs_Key req) then Return (Inl ErrCrypto)
         else accept_respond cr w l1 serde optsSessionID req)"

subsection \<open>Messages in the tunnel\<close>

lemma write_left:
  assumes "hpke_law cr" "linked n m a b" "n < 2 ^ 64"
    and "\<And>a' b'. linked (Suc n) m a' b' \<Longrightarrow> settles Q ((f a', []), (g (b', d), []))"
  shows "settles Q ((io_try (link_write cr a d) f, []), (io_try (link_read cr b) g, []))"
  unfolding io_try_def link_write_def link_read_def io_bind_assoc
  using assms(4) by (auto intro!: link_send_left [OF assms(1-3)])

lemma envelope_left:
  assumes "good_laws cr w" "enc c msg = Some message" "length message \<le> maxTransportSize"
    and "linked n m a b" "n < 2 ^ 64"
    and "\<And>a' b' p md. linked (Suc n) m a' b' \<Longrightarrow> sealed cr w (sd_attest s) md message p \<Longrightarrow>
       md_Route md = ToProto route \<Longrightarrow> settles Q ((f a', []), (g (b', p), []))"
  shows "settles Q ((io_try (serialize cr w c s msg route k) (\<lambda>(p, _). io_try (link_write cr a p) f), []),
     (io_try (link_read cr b) g, []))"
  using assms(6)
  by (subst io_try_def)
     (auto intro!: yields_left [OF serialize_yields [OF good_lawsD(6,7,1) [OF assms(1)] assms(2,3)]]
        write_left [OF good_lawsD(5) [OF assms(1)] assms(4,5)])

lemma envelope_right:
  assumes "good_laws cr w" "enc c msg = Some message" "length message \<le> maxTransportSize"
    and "linked n m a b" "m < 2 ^ 64"
    and "\<And>a' b' p md. linked n (Suc m) a' b' \<Longrightarrow> sealed cr w (sd_attest s) md message p \<Longrightarrow>
       md_Route md = ToProto route \<Longrightarrow> settles Q ((f (a', p), []), (g b', []))"
  shows "settles Q ((io_try (link_read cr a) f, []),
     (io_try (serialize cr w c s msg route k) (\<lambda>(p, _). io_try (link_write cr b p) g), []))"
  by (rule settles_swap, rule envelope_left [OF assms(1-3) linked_sym [OF assms(4)] assms(5)],
      rule settles_swap, rule assms(6), erule linked_sym)

text \<open>Two transports in step in both directions.\<close>

definition instep :: "crypto \<Rightarrow> nat \<Rightarrow> nat \<Rightarrow> transport \<Rightarrow> transport \<Rightarrow> bool" where
  "instep cr n m a b \<longleftrightarrow> flows cr a b \<and> flows cr b a \<and> linked n m (t_conn a) (t_conn b)"

text \<open>The part of a transport that messages leave alone.\<close>

definition keys_of :: "transport \<Rightarrow> signed_serde \<times> enigma \<times> enigma \<times> bytes \<times> bytes option" where
  "keys_of t = (t_serde t, t_encoder t, t_decoder t, t_sessionID t, t_resumptionRoot t)"

lemma keys_of_step [simp]:
  "keys_of (t\<lparr>t_conn := l\<rparr>) = keys_of t" "keys_of (sent_from t) = keys_of t"
  "keys_of (received_at t) = keys_of t"
  by (simp_all add: keys_of_def sent_from_def received_at_def)

lemma instep_step:
  assumes "flows cr a b" "flows cr b a" "linked n m la lb"
  shows "instep cr n m ((sent_from a)\<lparr>t_conn := la\<rparr>) ((received_at b)\<lparr>t_conn := lb\<rparr>)"
    "instep cr n m ((received_at a)\<lparr>t_conn := la\<rparr>) ((sent_from b)\<lparr>t_conn := lb\<rparr>)"
  using assms by (auto simp: instep_def)

lemma bytes_message:
  assumes "good_laws cr w" "length v \<le> 1000"
  shows "\<exists>b. enc (w_bytes w) v = Some b \<and> dec (w_bytes w) b = Some v \<and> length b \<le> maxTransportSize"
proof -
  obtain b where b: "enc (w_bytes w) v = Some b" "dec (w_bytes w) b = Some v"
    using good_lawsD(6) [OF assms(1)] unfolding wire_laws_def codec_ok_def by blast
  have "length b \<le> bytes_field_size (length v)"
    using good_lawsD(7) [OF assms(1)] b(1) by (simp add: wire_sizes_def)
  also have "\<dots> \<le> length v + 4" using assms(2) by (intro bytes_field_size_le) simp
  finally show ?thesis using b assms(2) by (auto simp: size_consts)
qed

lemma challenge_routes:
  "IsValid RouteSendChallenge" "RouteSendChallenge \<noteq> RouteCloseTransport"
  "IsValid RouteVerifyChallenge" "RouteVerifyChallenge \<noteq> RouteCloseTransport"
  by (simp_all add: IsValid_def)

lemma echo_settles:
  assumes "good_laws cr w" "instep cr n m a b" "m < 2 ^ 64" "length ch \<le> 1000"
    and "\<And>a' b'. instep cr n (Suc m) a' b' \<Longrightarrow> keys_of a' = keys_of a \<Longrightarrow> keys_of b' = keys_of b \<Longrightarrow>
       settles Q ((f a', []), (g b', []))"
  shows "settles Q ((io_try (awaitEcho cr w a ch) f, []), (io_try (sendEcho cr w b ch) g, []))"
proof -
  from bytes_message [OF assms(1,4)] obtain e
    where e: "enc (w_bytes w) ch = Some e" "dec (w_bytes w) e = Some ch" "length e \<le> maxTransportSize" by auto
  from assms(2) have i: "flows cr a b" "flows cr b a" "linked n m (t_conn a) (t_conn b)"
    by (simp_all add: instep_def)
  show ?thesis
    unfolding io_try_def awaitEcho_def sendEcho_def io_bind_assoc
    by (rule message_right [OF assms(1) e challenge_routes(3,4) i(2,3) assms(3)])
       (use instep_step(2) [OF i(1,2)] in \<open>auto intro!: assms(5)\<close>)
qed

lemma challenge_left:
  assumes "good_laws cr w" "instep cr n m a b" "n < 2 ^ 64" "m < 2 ^ 64"
    and "\<And>a' b'. instep cr (Suc n) (Suc m) a' b' \<Longrightarrow> keys_of a' = keys_of a \<Longrightarrow> keys_of b' = keys_of b \<Longrightarrow>
       settles Q ((f a', []), (g b', []))"
  shows "settles Q ((io_try (sendChallenge cr w a secret info) f, []),
     (io_try (acceptChallenge cr w b RouteSendChallenge) g, []))"
proof -
  obtain ch where ch: "Derive cr secret [] info handshakeChallengeSize = Inr ch" "length ch = 32"
    using Derive_ok [OF good_lawsD(2) [OF assms(1)], of handshakeChallengeSize secret "[]" info]
    by (auto simp: handshakeChallengeSize_def)
  from bytes_message [OF assms(1), of ch] ch(2) obtain e
    where e: "enc (w_bytes w) ch = Some e" "dec (w_bytes w) e = Some ch" "length e \<le> maxTransportSize" by auto
  from assms(2) have i: "flows cr a b" "flows cr b a" "linked n m (t_conn a) (t_conn b)"
    by (simp_all add: instep_def)
  have rest: "settles Q ((io_try (awaitEcho cr w ((sent_from a)\<lparr>t_conn := la\<rparr>) ch) f, []),
      (io_try (sendEcho cr w ((received_at b)\<lparr>t_conn := lb\<rparr>) ch) g, []))"
    if "linked (Suc n) m la lb" for la lb
    by (rule echo_settles [OF assms(1) instep_step(1) [OF i(1,2) that] assms(4)])
       (use ch(2) in \<open>auto intro!: assms(5)\<close>)
  show ?thesis
    unfolding sendChallenge_def acceptChallenge_def ch(1) sum.case
    by (subst (1 2) io_try_def, unfold io_bind_assoc,
        rule message_left [OF assms(1) e challenge_routes(1,2) i(1,3) assms(3)])
       (simp add: rest [unfolded io_try_def])
qed

lemma instep_sym: "instep cr n m a b \<Longrightarrow> instep cr m n b a"
  by (simp add: instep_def linked_sym)

lemma challenge_right:
  assumes "good_laws cr w" "instep cr n m a b" "n < 2 ^ 64" "m < 2 ^ 64"
    and "\<And>a' b'. instep cr (Suc n) (Suc m) a' b' \<Longrightarrow> keys_of a' = keys_of a \<Longrightarrow> keys_of b' = keys_of b \<Longrightarrow>
       settles Q ((f a', []), (g b', []))"
  shows "settles Q ((io_try (acceptChallenge cr w a RouteSendChallenge) f, []),
     (io_try (sendChallenge cr w b secret info) g, []))"
  by (rule settles_swap, rule challenge_left [OF assms(1) instep_sym [OF assms(2)] assms(4,3)],
      rule settles_swap, rule assms(5), erule instep_sym)

subsection \<open>Two honest parties\<close>

text \<open>Identities that know each other.\<close>

definition acquainted :: "crypto \<Rightarrow> signed_serde \<Rightarrow> signed_serde \<Rightarrow> bool" where
  "acquainted cr sa sb \<longleftrightarrow> attest_ok cr (sd_attest sa) \<and> attest_ok cr (sd_attest sb) \<and>
     sd_remote sa = MarshalPublicKey cr (sd_attest sb) \<and> sd_remote sb = MarshalPublicKey cr (sd_attest sa)"

text \<open>What both ends hold when the handshake is over.\<close>

definition agreed :: "crypto \<Rightarrow> nat \<Rightarrow> nat \<Rightarrow> bytes \<Rightarrow> transport \<Rightarrow> transport \<Rightarrow> bool" where
  "agreed cr n m sid a b \<longleftrightarrow> instep cr n m a b \<and>
     t_sessionID a = t_sessionID b \<and> length (t_sessionID a) = sessionIDLength \<and>
     (sid \<noteq> [] \<longrightarrow> t_sessionID a = sid) \<and>
     t_resumptionRoot a = t_resumptionRoot b \<and> t_resumptionRoot a \<noteq> None"

lemma handshake_ciphers_ok:
  assumes "hkdf_law cr"
  shows "\<exists>x y. handshake_ciphers cr secret s1 i1 s2 i2 = Inr (x, y) \<and>
     handshake_ciphers cr secret s2 i2 s1 i1 = Inr (y, x)"
proof -
  obtain x where "NewEnigma cr secret s1 i1 = Inr x" by (rule NewEnigma_ok [OF assms])
  moreover obtain y where "NewEnigma cr secret s2 i2 = Inr y" by (rule NewEnigma_ok [OF assms])
  ultimately show ?thesis by (simp add: handshake_ciphers_def)
qed

lemma setResumptionRoot_ok:
  assumes "hkdf_law cr"
  shows "\<exists>root. \<forall>t. t_sessionID t = sid \<longrightarrow> setResumptionRoot cr t secret = t\<lparr>t_resumptionRoot := Some root\<rparr>"
proof -
  obtain root where "Derive cr secret sid resumptionRootInfo resumptionTokenSize = Inr root"
    by (rule Derive_ok [OF assms, of resumptionTokenSize]) (simp add: resumptionTokenSize_def)
  then show ?thesis by (auto simp: setResumptionRoot_def)
qed

lemma instep_root: "instep cr n m (a\<lparr>t_resumptionRoot := x\<rparr>) (b\<lparr>t_resumptionRoot := y\<rparr>) = instep cr n m a b"
  by (simp add: instep_def flows_def)

lemma confirm_settles:
  assumes "good_laws cr w" "acquainted cr sa sb" "linked n m la lb" "n + 2 \<le> 2 ^ 64" "m + 2 \<le> 2 ^ 64"
    and "length sid = sessionIDLength" "o1 \<noteq> [] \<Longrightarrow> sid = o1"
    and "\<And>a b. agreed cr (n + 2) (m + 2) o1 a b \<Longrightarrow> settles Q ((f a, []), (g b, []))"
  shows "settles Q ((io_try (request_confirm cr w la sa sid secret s1 s2 h) f, []),
     (io_try (accept_confirm cr w lb sb sid secret s2 s1 h) g, []))"
proof -
  note hkdf = good_lawsD(2) [OF assms(1)]
  obtain x y where xy: "handshake_ciphers cr secret s1 (handshakeC2SInfo @ sid) s2 (handshakeS2CInfo @ sid) = Inr (x, y)"
      "handshake_ciphers cr secret s2 (handshakeS2CInfo @ sid) s1 (handshakeC2SInfo @ sid) = Inr (y, x)"
    using handshake_ciphers_ok [OF hkdf] by blast
  obtain root where root: "\<And>t. t_sessionID t = sid \<Longrightarrow> setResumptionRoot cr t secret = t\<lparr>t_resumptionRoot := Some root\<rparr>"
    using setResumptionRoot_ok [OF hkdf] by blast
  let ?a = "newTransport la sa sid x y" and ?b = "newTransport lb sb sid y x"
  have start: "instep cr n m ?a ?b"
    using assms(2,3) by (simp add: instep_def flows_def newTransport_def acquainted_def)
  have fin: "settles Q ((f (setResumptionRoot cr a secret), []), (g (setResumptionRoot cr b secret), []))"
    if "instep cr (Suc (Suc n)) (Suc (Suc m)) a b" "keys_of a = keys_of ?a" "keys_of b = keys_of ?b" for a b
    using that assms(6,7) root [of a] root [of b]
    by (intro assms(8)) (auto simp: agreed_def instep_root keys_of_def newTransport_def)
  show ?thesis
    unfolding request_confirm_def accept_confirm_def xy sum.case prod.case io_try_assoc
    by (rule challenge_left [OF assms(1) start], use assms(4) in simp, use assms(5) in simp,
        rule challenge_right [OF assms(1)], assumption, use assms(4) in simp, use assms(5) in simp)
       (simp add: fin)
qed

text \<open>A handshake message with a key of at most 2000 bytes is far below the size limit.\<close>

lemma handshake_message:
  assumes "good_laws cr w" "ascii (hs_SessionKey h)" "length (hs_SessionKey h) \<le> 24"
    and "length (hs_Key h) \<le> 2000" "length (hs_Salt h) = 16"
  shows "\<exists>b. enc (w_handshake w) h = Some b \<and> dec (w_handshake w) b = Some h \<and> length b \<le> maxTransportSize"
proof -
  obtain b where b: "enc (w_handshake w) h = Some b" "dec (w_handshake w) b = Some h"
    using good_lawsD(6) [OF assms(1)] assms(2) unfolding wire_laws_def codec_ok_def by blast
  have "length b = bytes_field_size (length (hs_Key h)) + bytes_field_size (length (hs_Salt h)) +
        bytes_field_size (length (hs_SessionKey h))"
    using good_lawsD(7) [OF assms(1)] b(1) by (simp add: wire_sizes_def)
  also have "\<dots> \<le> 3000"
    using bytes_field_size_le [of "length (hs_Key h)"] bytes_field_size_le [of "length (hs_Salt h)"]
      bytes_field_size_le [of "length (hs_SessionKey h)"] assms(3-5) by simp
  finally show ?thesis using b by (auto simp: size_consts)
qed

definition session_opt :: "bytes \<Rightarrow> bool" where
  "session_opt sid \<longleftrightarrow> sid = [] \<or> length sid = sessionIDLength \<and> ascii sid"

lemma session_key_yields:
  "session_opt sid \<Longrightarrow> yields (session_key sid)
     (\<lambda>k. ascii k \<and> length k = (if sid = [] then sessionIDLength div 2 else sessionIDLength) \<and>
        (sid \<noteq> [] \<longrightarrow> k = sid))"
  by (auto simp: session_opt_def session_key_def enigma_Text_def ascii_text)

lemma request_finish_respond:
  assumes "sealed cr w (sd_attest sb) md message p" "md_Route md = ToProto RouteAcceptHandshake"
    and "dec (w_handshake w) message = Some resp" "sign_law cr" "acquainted cr sa sb"
    and "validateHandshakeFields (hs_Salt resp) (hs_SessionKey resp)" "mlkem_decap cr dk (hs_Key resp) = Some secret"
  shows "request_finish cr w sa sid dk req (l, p) =
     request_confirm cr w l sa (if sid = [] then hs_SessionKey req @ hs_SessionKey resp else sid) secret
       (hs_Salt req) (hs_Salt resp) (handshakeTranscriptHash cr req resp)"
proof -
  have "deserialize cr w (w_handshake w) sa p = Inr (md, resp)"
    using assms(5) by (intro deserialize_sealed [OF assms(1,4) _ _ assms(3)]) (auto simp: acquainted_def)
  moreover have "md_route md = RouteAcceptHandshake"
    using assms(2) by (simp add: md_route_def RouteFromProto_ToProto IsValid_def)
  ultimately show ?thesis using assms(6,7) by (simp add: request_finish_def)
qed

lemma respond_settles:
  assumes "good_laws cr w" "acquainted cr sa sb" "linked n m la lb" "n + 2 \<le> 2 ^ 64" "m + 3 \<le> 2 ^ 64"
    and "session_opt sid" "hs_Key req = mlkem_public cr dk"
      "sid = [] \<Longrightarrow> length (hs_SessionKey req) = sessionIDLength div 2"
    and "\<And>a b. agreed cr (n + 2) (m + 3) sid a b \<Longrightarrow> settles Q ((f a, []), (g b, []))"
  shows "settles Q ((io_try (io_try (link_read cr la) (request_finish cr w sa sid dk req)) f, []),
     (io_try (accept_respond cr w lb sb sid req) g, []))"
proof -
  note laws = good_lawsD [OF assms(1)]
  have half: "sessionIDLength div 2 = 12" "sessionIDLength = 24" by (simp_all add: sessionIDLength_def)
  have main: "settles Q ((io_try (link_read cr la) (\<lambda>x. io_try (request_finish cr w sa sid dk req x) f), []),
      (io_try (serialize cr w (w_handshake w) sb resp RouteAcceptHandshake 0) (\<lambda>(p, _).
         io_try (link_write cr lb p) (\<lambda>l. io_try (accept_confirm cr w l sb
           (if sid = [] then hs_SessionKey req @ k else sid) secret salt (hs_Salt req)
           (handshakeTranscriptHash cr req resp)) g)), []))"
    if resp: "resp = \<lparr>hs_Key = snd (mlkem_encap cr (hs_Key req) coins), hs_Salt = salt, hs_SessionKey = k\<rparr>"
      and secret: "secret = fst (mlkem_encap cr (hs_Key req) coins)"
      and salt: "length salt = handshakeSaltSize"
      and k: "ascii k" "length k = (if sid = [] then sessionIDLength div 2 else sessionIDLength)" "sid \<noteq> [] \<longrightarrow> k = sid"
    for resp coins salt k secret
  proof -
    have decap: "mlkem_decap cr dk (hs_Key resp) = Some secret" "length (hs_Key resp) = 1088"
      using laws(4) assms(7) by (simp_all add: mlkem_law_def resp secret)
    have val: "validateHandshakeFields (hs_Salt resp) (hs_SessionKey resp)"
      using salt k by (simp add: validateHandshakeFields_def resp)
    obtain e where e: "enc (w_handshake w) resp = Some e" "dec (w_handshake w) e = Some resp"
        "length e \<le> maxTransportSize"
      using handshake_message [OF assms(1), of resp] decap(2) salt k
      by (auto simp: resp half handshakeSaltSize_def split: if_splits)
    have sid: "length (if sid = [] then hs_SessionKey req @ k else sid) = sessionIDLength"
      using assms(6,8) k by (auto simp: half session_opt_def)
    have conf: "settles Q ((io_try (request_finish cr w sa sid dk req (la', p)) f, []),
          (io_try (accept_confirm cr w lb' sb (if sid = [] then hs_SessionKey req @ k else sid) secret salt
             (hs_Salt req) (handshakeTranscriptHash cr req resp)) g, []))"
      if "linked n (Suc m) la' lb'" "sealed cr w (sd_attest sb) md e p" "md_Route md = ToProto RouteAcceptHandshake"
      for la' lb' p md
      unfolding request_finish_respond [OF that(2,3) e(2) laws(1) assms(2) val decap(1)]
      using confirm_settles [OF assms(1,2) that(1) _ _ sid, of sid Q f g secret "hs_Salt req" salt
          "handshakeTranscriptHash cr req resp"] assms(4,5,9)
      by (simp add: resp numeral_3_eq_3 cong: if_cong)
    show ?thesis
      by (rule envelope_right [OF assms(1) e(1,3) assms(3)]) (use assms(5) conf in auto)
  qed
  show ?thesis
    unfolding accept_respond_def io_try_assoc Let_def io_try_bind io_try_simps io_try_prod
    by (rule settles_right_Random, rule yields_right [OF session_key_yields [OF assms(6)]],
        rule settles_right_Random, rule main) auto
qed

lemma handshake_settles:
  assumes "good_laws cr w" "acquainted cr sa sb" "linked n m la lb" "n + 3 \<le> 2 ^ 64" "m + 3 \<le> 2 ^ 64"
    and "session_opt sid"
    and "\<And>a b. agreed cr (n + 3) (m + 3) sid a b \<Longrightarrow> settles Q ((f a, []), (g b, []))"
  shows "settles Q ((io_try (requestHandshake cr w la sa sid) f, []),
     (io_try (acceptHandshake cr w lb sb sid) g, []))"
proof -
  note laws = good_lawsD [OF assms(1)]
  have half: "sessionIDLength div 2 = 12" "sessionIDLength = 24" by (simp_all add: sessionIDLength_def)
  define G where "G = (\<lambda>(l1, p). case deserialize cr w (w_handshake w) sb p of
       Inl e \<Rightarrow> Return (Inl e)
     | Inr (md, req) \<Rightarrow>
         if md_route md \<noteq> RouteRequestHandshake then Return (Inl ErrUnexpectedRoute)
         else if \<not> validateHandshakeFields (hs_Salt req) (hs_SessionKey req)
           then Return (Inl ErrHandshakeFields)
         else if \<not> mlkem_valid cr (hs_Key req) then Return (Inl ErrCrypto)
         else accept_respond cr w l1 sb sid req)"
  have main: "settles Q ((io_try (serialize cr w (w_handshake w) sa req RouteRequestHandshake 0) (\<lambda>(p, _).
       io_try (link_write cr la p) (\<lambda>l. io_try (io_try (link_read cr l) (request_finish cr w sa sid dk req)) f)), []),
     (io_try (link_read cr lb) (\<lambda>x. io_try (G x) g), []))"
    if req: "req = \<lparr>hs_Key = mlkem_public cr dk, hs_Salt = salt, hs_SessionKey = k\<rparr>"
      and salt: "length salt = handshakeSaltSize"
      and k: "ascii k" "length k = (if sid = [] then sessionIDLength div 2 else sessionIDLength)"
    for req dk salt k
  proof -
    have key: "length (hs_Key req) = 1184" "mlkem_valid cr (hs_Key req)"
      using laws(4) by (simp_all add: mlkem_law_def req)
    have val: "validateHandshakeFields (hs_Salt req) (hs_SessionKey req)"
      using salt k by (simp add: validateHandshakeFields_def req)
    obtain e where e: "enc (w_handshake w) req = Some e" "dec (w_handshake w) e = Some req"
        "length e \<le> maxTransportSize"
      using handshake_message [OF assms(1), of req] key(1) salt k
      by (auto simp: req half handshakeSaltSize_def split: if_splits)
    have G: "G (l, p) = accept_respond cr w l sb sid req"
      if "sealed cr w (sd_attest sa) md e p" "md_Route md = ToProto RouteRequestHandshake" for l p md
    proof -
      have "deserialize cr w (w_handshake w) sb p = Inr (md, req)"
        using assms(2) by (intro deserialize_sealed [OF that(1) laws(1) _ _ e(2)]) (auto simp: acquainted_def)
      moreover have "md_route md = RouteRequestHandshake"
        using that(2) by (simp add: md_route_def RouteFromProto_ToProto IsValid_def)
      ultimately show ?thesis using val key(2) by (simp add: G_def)
    qed
    have resp: "settles Q ((io_try (io_try (link_read cr l) (request_finish cr w sa sid dk req)) f, []),
        (io_try (accept_respond cr w l' sb sid req) g, []))" if "linked (Suc n) m l l'" for l l'
      by (rule respond_settles [OF assms(1,2) that _ assms(5,6)])
         (use assms(4,7) k in \<open>auto simp: req numeral_3_eq_3\<close>)
    show ?thesis
      by (rule envelope_left [OF assms(1) e(1,3) assms(3)]) (use assms(4) resp G in auto)
  qed
  show ?thesis
    unfolding requestHandshake_def acceptHandshake_def G_def [symmetric] io_try_assoc [of "link_read cr lb"]
      Let_def io_try_bind io_try_simps io_try_prod io_try_assoc [of "serialize _ _ _ _ _ _ _"]
      io_try_assoc [of "link_write _ _ _"]
    by (rule settles_left_Random, rule settles_left_Random, rule yields_left [OF session_key_yields [OF assms(6)]],
        rule main) auto
qed

subsection \<open>One honest party\<close>

lemma run_Receive:
  assumes "run (Receive cr w c t) es = Some ((t', Inr (md, v)), es')"
  shows "\<exists>l ct p. t' = (received_at t)\<lparr>t_conn := l\<rparr> \<and> md_Sequence md = t_recvSequence t + 1 \<and>
     Decrypt cr (t_decoder t) ct = Inr p \<and> deserialize cr w c (t_serde t) p = Inr (md, v)"
proof -
  from assms obtain l ct where "receive_payload cr w c (t\<lparr>t_conn := l\<rparr>) ct = (t', Inr (md, v))"
    by (auto simp: Receive_def run_bind Let_def split: option.splits sum.splits prod.splits)
  with receive_payload_cases [of cr w c "t\<lparr>t_conn := l\<rparr>" ct] show ?thesis
    by (auto simp: received_at_def intro!: exI [of _ l])
qed

lemma run_Send:
  assumes "run (Send cr w c t m r) es = Some ((t', Inr md), es')"
  shows "\<exists>l. t' = (sent_from t)\<lparr>t_conn := l\<rparr>"
  using assms
  by (auto simp: Send_def run_bind Let_def sent_from_def split: if_splits option.splits sum.splits prod.splits)

lemma run_sendChallenge:
  assumes "run (sendChallenge cr w t secret info) es = Some (Inr t', es')"
  shows "\<exists>ch l ct p md. Derive cr secret [] info handshakeChallengeSize = Inr ch \<and>
     t' = (received_at (sent_from t))\<lparr>t_conn := l\<rparr> \<and> md_Sequence md = t_recvSequence t + 1 \<and>
     md_route md = RouteVerifyChallenge \<and>
     Decrypt cr (t_decoder t) ct = Inr p \<and> deserialize cr w (w_bytes w) (t_serde t) p = Inr (md, ch)"
proof -
  from assms obtain ch t1 md0 es1 md where ch: "Derive cr secret [] info handshakeChallengeSize = Inr ch"
      "run (Send cr w (w_bytes w) t ch RouteSendChallenge) es = Some ((t1, Inr md0), es1)"
      "run (Receive cr w (w_bytes w) t1) es1 = Some ((t', Inr (md, ch)), es')" "md_route md = RouteVerifyChallenge"
    by (auto simp: sendChallenge_def awaitEcho_def run_bind split: sum.splits option.splits prod.splits if_splits)
  from run_Send [OF ch(2)] run_Receive [OF ch(3)] ch(1,4) show ?thesis
    by (fastforce simp: received_at_def sent_from_def)
qed

lemma run_acceptChallenge:
  assumes "run (acceptChallenge cr w t r) es = Some (Inr t', es')"
  shows "\<exists>l. t' = (sent_from (received_at t))\<lparr>t_conn := l\<rparr>"
proof -
  from assms obtain t1 md v es1 md' where "run (Receive cr w (w_bytes w) t) es = Some ((t1, Inr (md, v)), es1)"
      "run (Send cr w (w_bytes w) t1 v RouteVerifyChallenge) es1 = Some ((t', Inr md'), es')"
    by (auto simp: acceptChallenge_def sendEcho_def run_bind split: sum.splits option.splits prod.splits if_splits)
  from run_Receive [OF this(1)] run_Send [OF this(2)] show ?thesis
    by (auto simp: received_at_def sent_from_def)
qed

lemma keys_of_setResumptionRoot [simp]:
  "t_encoder (setResumptionRoot cr t x) = t_encoder t" "t_decoder (setResumptionRoot cr t x) = t_decoder t"
  "t_sessionID (setResumptionRoot cr t x) = t_sessionID t" "t_serde (setResumptionRoot cr t x) = t_serde t"
  "t_sendSequence (setResumptionRoot cr t x) = t_sendSequence t"
  "t_recvSequence (setResumptionRoot cr t x) = t_recvSequence t"
  by (simp_all add: setResumptionRoot_def split: sum.splits)

text \<open>\<open>confirmed\<close>: the transport's ciphers come from the secret and the two messages, and the peer has
  returned, under its own signature and the session's receiving key, the challenge that only the
  secret and the whole transcript give.\<close>

definition confirmed ::
  "crypto \<Rightarrow> wire \<Rightarrow> transport \<Rightarrow> bytes \<Rightarrow> bytes \<Rightarrow> bytes \<Rightarrow> bytes \<Rightarrow> bytes \<Rightarrow> bytes \<Rightarrow> bool" where
  "confirmed cr w t secret localSalt remoteSalt localInfo remoteInfo hash \<longleftrightarrow>
     NewEnigma cr secret localSalt (localInfo @ t_sessionID t) = Inr (t_encoder t) \<and>
     NewEnigma cr secret remoteSalt (remoteInfo @ t_sessionID t) = Inr (t_decoder t) \<and>
     (\<exists>ch echo p md.
        Derive cr secret [] (deriveChallengeInfo (t_sessionID t) localInfo hash) handshakeChallengeSize = Inr ch \<and>
        Decrypt cr (t_decoder t) echo = Inr p \<and>
        deserialize cr w (w_bytes w) (t_serde t) p = Inr (md, ch) \<and> md_route md = RouteVerifyChallenge)"

lemma run_request_confirm:
  assumes "run (request_confirm cr w l serde sid secret s1 s2 h) es = Some (Inr t, es')"
  shows "confirmed cr w t secret s1 s2 handshakeC2SInfo handshakeS2CInfo h \<and> t_sessionID t = sid \<and>
     t_serde t = serde \<and> t_sendSequence t = 2 \<and> t_recvSequence t = 2"
proof -
  from assms obtain x y t1 t2 es1 where
    c: "NewEnigma cr secret s1 (handshakeC2SInfo @ sid) = Inr x" "NewEnigma cr secret s2 (handshakeS2CInfo @ sid) = Inr y"
    and s: "run (sendChallenge cr w (newTransport l serde sid x y) secret (deriveChallengeInfo sid handshakeC2SInfo h)) es =
        Some (Inr t1, es1)"
    and a: "run (acceptChallenge cr w t1 RouteSendChallenge) es1 = Some (Inr t2, es')"
    and t: "t = setResumptionRoot cr t2 secret"
    by (auto simp: request_confirm_def handshake_ciphers_def run_try split: sum.splits)
  from run_sendChallenge [OF s] run_acceptChallenge [OF a] c show ?thesis
    by (fastforce simp: t confirmed_def newTransport_def received_at_def sent_from_def)
qed

lemma run_accept_confirm:
  assumes "run (accept_confirm cr w l serde sid secret s1 s2 h) es = Some (Inr t, es')"
  shows "confirmed cr w t secret s1 s2 handshakeS2CInfo handshakeC2SInfo h \<and> t_sessionID t = sid \<and>
     t_serde t = serde \<and> t_sendSequence t = 2 \<and> t_recvSequence t = 2"
proof -
  from assms obtain x y t1 t2 es1 where
    c: "NewEnigma cr secret s1 (handshakeS2CInfo @ sid) = Inr x" "NewEnigma cr secret s2 (handshakeC2SInfo @ sid) = Inr y"
    and a: "run (acceptChallenge cr w (newTransport l serde sid x y) RouteSendChallenge) es = Some (Inr t1, es1)"
    and s: "run (sendChallenge cr w t1 secret (deriveChallengeInfo sid handshakeS2CInfo h)) es1 = Some (Inr t2, es')"
    and t: "t = setResumptionRoot cr t2 secret"
    by (auto simp: accept_confirm_def handshake_ciphers_def run_try split: sum.splits)
  from run_acceptChallenge [OF a] run_sendChallenge [OF s] c show ?thesis
    by (fastforce simp: t confirmed_def newTransport_def received_at_def sent_from_def)
qed

lemma live_link_try [simp]: "live (link_write cr l d)" "live (link_read cr l)"
  by (simp_all add: link_write_def link_read_def split: prod.splits)

lemma live_challenge [simp]: "live (sendChallenge cr w t secret info)" "live (acceptChallenge cr w t r)"
  by (simp_all add: sendChallenge_def awaitEcho_def acceptChallenge_def sendEcho_def split: sum.splits prod.splits)

lemma live_confirm [simp]:
  "live (request_confirm cr w l serde sid secret s1 s2 h)" "live (accept_confirm cr w l serde sid secret s1 s2 h)"
  by (simp_all add: request_confirm_def accept_confirm_def split: sum.splits prod.splits)

lemma live_session_key [simp]: "live (session_key sid)"
  by (simp add: session_key_def enigma_Text_def)

lemma live_handshake [simp]: "live (requestHandshake cr w l serde sid)" "live (acceptHandshake cr w l serde sid)"
  by (simp_all add: requestHandshake_def request_finish_def acceptHandshake_def accept_respond_def Let_def
      split: sum.splits prod.splits option.splits)

subsection \<open>Properties\<close>

lemma io_try_Return: "io_try p (\<lambda>x. Return (Inr x)) = p"
  by (induction p) (auto simp: io_try_def split: sum.splits)

lemma handshake_settles_both:
  assumes "good_laws cr w" "acquainted cr sa sb" "linked n m la lb" "n + 3 \<le> 2 ^ 64" "m + 3 \<le> 2 ^ 64"
    and "session_opt sid"
  shows "settles (\<lambda>x y. \<exists>a b. x = Inr a \<and> y = Inr b \<and> agreed cr (n + 3) (m + 3) sid a b)
     ((requestHandshake cr w la sa sid, []), (acceptHandshake cr w lb sb sid, []))"
  by (rule handshake_settles [OF assms, where f = "\<lambda>x. Return (Inr x)" and g = "\<lambda>x. Return (Inr x)",
        unfolded io_try_Return])
     (auto intro!: settles.finish)

lemma demo_acquainted: "acquainted demo_crypto demo_serde demo_serde"
  using demo_serde_ok by (simp add: acquainted_def)

lemma demo_handshake_runs:
  "\<exists>es a es' b. run (requestHandshake demo_crypto demo_wire Plain demo_serde []) es = Some (Inr a, []) \<and>
     run (acceptHandshake demo_crypto demo_wire Plain demo_serde []) es' = Some (Inr b, [])"
  using settles_runs [OF handshake_settles_both [OF demo_good_laws demo_acquainted, of 0 0 Plain Plain "[]"]]
  by (auto simp: session_opt_def)

text \<open>C2. Two honest parties that know each other's keys and share a tunnel (or a connection) complete
  the handshake, whatever the draws, the clock and the schedule: both end with a transport, and the
  transports agree on the session ID (the resumed one, or 24 new characters), on the cipher of each
  direction, on the resumption root, and are in step.\<close>

theorem handshake_agrees:
  assumes "good_laws cr w" "acquainted cr sa sb" "linked n m la lb" "n + 3 \<le> 2 ^ 64" "m + 3 \<le> 2 ^ 64"
    and "session_opt sid"
  shows "completes (\<lambda>x y. \<exists>a b. x = Inr a \<and> y = Inr b \<and> agreed cr (n + 3) (m + 3) sid a b)
     ((requestHandshake cr w la sa sid, []), (acceptHandshake cr w lb sb sid, []))"
  by (rule settles_completes [OF handshake_settles_both [OF assms]])

theorem handshake_agrees_witness:
  "completes (\<lambda>x y. \<exists>a b. x = Inr a \<and> y = Inr b \<and> agreed demo_crypto 3 3 [] a b)
     ((requestHandshake demo_crypto demo_wire Plain demo_serde [], []),
      (acceptHandshake demo_crypto demo_wire Plain demo_serde [], []))"
proof -
  from handshake_agrees [OF demo_good_laws demo_acquainted, of 0 0 Plain Plain "[]"]
  show ?thesis by (simp add: session_opt_def)
qed

lemma requestHandshake_run:
  assumes "run (requestHandshake cr w l serde sid) es = Some (Inr t, es')"
  shows "\<exists>dk req p md resp secret.
     hs_Key req = mlkem_public cr dk \<and> deserialize cr w (w_handshake w) serde p = Inr (md, resp) \<and>
     md_route md = RouteAcceptHandshake \<and> validateHandshakeFields (hs_Salt resp) (hs_SessionKey resp) \<and>
     mlkem_decap cr dk (hs_Key resp) = Some secret \<and>
     t_sessionID t = (if sid = [] then hs_SessionKey req @ hs_SessionKey resp else sid) \<and>
     confirmed cr w t secret (hs_Salt req) (hs_Salt resp) handshakeC2SInfo handshakeS2CInfo
       (handshakeTranscriptHash cr req resp) \<and>
     t_serde t = serde \<and> t_sendSequence t = 2 \<and> t_recvSequence t = 2"
proof -
  from assms obtain dk salt k l' p es1 where fin: "run (request_finish cr w serde sid dk
      \<lparr>hs_Key = mlkem_public cr dk, hs_Salt = salt, hs_SessionKey = k\<rparr> (l', p)) es1 = Some (Inr t, es')"
    by (auto simp: requestHandshake_def run_Random Let_def run_bind run_try split: option.splits prod.splits)
  define req where "req = \<lparr>hs_Key = mlkem_public cr dk, hs_Salt = salt, hs_SessionKey = k\<rparr>"
  have req: "hs_Key req = mlkem_public cr dk" by (simp add: req_def)
  from fin [folded req_def] obtain md resp secret where
    "deserialize cr w (w_handshake w) serde p = Inr (md, resp)" "md_route md = RouteAcceptHandshake"
    "validateHandshakeFields (hs_Salt resp) (hs_SessionKey resp)" "mlkem_decap cr dk (hs_Key resp) = Some secret"
    "run (request_confirm cr w l' serde (if sid = [] then hs_SessionKey req @ hs_SessionKey resp else sid) secret
       (hs_Salt req) (hs_Salt resp) (handshakeTranscriptHash cr req resp)) es1 = Some (Inr t, es')"
    by (auto simp: request_finish_def Let_def split: sum.splits option.splits prod.splits if_splits)
  with req run_request_confirm [OF this(5)] show ?thesis by blast
qed

text \<open>C3. Whatever the network and the peer do, an initiator that gets a transport has read a response
  signed by the key it expects, on the right route, with fields of the right size; the transport's
  ciphers are derived from the secret that response encapsulates and from both messages; and the peer
  has echoed the challenge bound to the transcript.\<close>

theorem initiator_confirms:
  assumes "run (requestHandshake cr w l serde sid) es = Some (Inr t, es')"
  shows "\<exists>dk req p md resp secret.
     hs_Key req = mlkem_public cr dk \<and> deserialize cr w (w_handshake w) serde p = Inr (md, resp) \<and>
     md_route md = RouteAcceptHandshake \<and> validateHandshakeFields (hs_Salt resp) (hs_SessionKey resp) \<and>
     mlkem_decap cr dk (hs_Key resp) = Some secret \<and>
     t_sessionID t = (if sid = [] then hs_SessionKey req @ hs_SessionKey resp else sid) \<and>
     confirmed cr w t secret (hs_Salt req) (hs_Salt resp) handshakeC2SInfo handshakeS2CInfo
       (handshakeTranscriptHash cr req resp) \<and>
     t_serde t = serde \<and> t_sendSequence t = 2 \<and> t_recvSequence t = 2"
  by (rule requestHandshake_run [OF assms])

theorem initiator_confirms_witness:
  "\<exists>es t p md resp.
     run (requestHandshake demo_crypto demo_wire Plain demo_serde []) es = Some (Inr t, []) \<and>
     deserialize demo_crypto demo_wire (w_handshake demo_wire) demo_serde p = Inr (md, resp) \<and>
     md_route md = RouteAcceptHandshake \<and> t_sendSequence t = 2"
proof -
  obtain es t where r: "run (requestHandshake demo_crypto demo_wire Plain demo_serde []) es = Some (Inr t, [])"
    using demo_handshake_runs by blast
  from initiator_confirms [OF r] r show ?thesis by blast
qed

text \<open>C26. The same for a responder, with the roles of the two directions exchanged.\<close>

theorem responder_confirms:
  assumes "run (acceptHandshake cr w l serde sid) es = Some (Inr t, es')"
  shows "\<exists>p md req coins resp.
     deserialize cr w (w_handshake w) serde p = Inr (md, req) \<and>
     md_route md = RouteRequestHandshake \<and> validateHandshakeFields (hs_Salt req) (hs_SessionKey req) \<and>
     mlkem_valid cr (hs_Key req) \<and> hs_Key resp = snd (mlkem_encap cr (hs_Key req) coins) \<and>
     t_sessionID t = (if sid = [] then hs_SessionKey req @ hs_SessionKey resp else sid) \<and>
     confirmed cr w t (fst (mlkem_encap cr (hs_Key req) coins)) (hs_Salt resp) (hs_Salt req)
       handshakeS2CInfo handshakeC2SInfo (handshakeTranscriptHash cr req resp) \<and>
     t_serde t = serde \<and> t_sendSequence t = 2 \<and> t_recvSequence t = 2"
proof -
  from assms obtain p l1 es1 where
    p: "run (case deserialize cr w (w_handshake w) serde p of
       Inl e \<Rightarrow> Return (Inl e)
     | Inr (md, req) \<Rightarrow>
         if md_route md \<noteq> RouteRequestHandshake then Return (Inl ErrUnexpectedRoute)
         else if \<not> validateHandshakeFields (hs_Salt req) (hs_SessionKey req)
           then Return (Inl ErrHandshakeFields)
         else if \<not> mlkem_valid cr (hs_Key req) then Return (Inl ErrCrypto)
         else accept_respond cr w l1 serde sid req) es1 = Some (Inr t, es')"
    unfolding acceptHandshake_def run_try by auto
  then obtain md req where
    req: "deserialize cr w (w_handshake w) serde p = Inr (md, req)"
      "md_route md = RouteRequestHandshake" "validateHandshakeFields (hs_Salt req) (hs_SessionKey req)"
      "mlkem_valid cr (hs_Key req)"
    and r: "run (accept_respond cr w l1 serde sid req) es1 = Some (Inr t, es')"
    by (auto split: sum.splits if_splits)
  from r obtain coins k salt l2 es2 where
    "run (accept_confirm cr w l2 serde (if sid = [] then hs_SessionKey req @ k else sid)
       (fst (mlkem_encap cr (hs_Key req) coins)) salt (hs_Salt req)
       (handshakeTranscriptHash cr req \<lparr>hs_Key = snd (mlkem_encap cr (hs_Key req) coins), hs_Salt = salt,
          hs_SessionKey = k\<rparr>)) es2 = Some (Inr t, es')"
    by (auto simp: accept_respond_def run_Random Let_def run_bind run_try split: option.splits prod.splits)
  from run_accept_confirm [OF this] req show ?thesis
    by (intro exI [of _ p] exI [of _ md] exI [of _ req] exI [of _ coins]
        exI [of _ "\<lparr>hs_Key = snd (mlkem_encap cr (hs_Key req) coins), hs_Salt = salt, hs_SessionKey = k\<rparr>"]) auto
qed

theorem responder_confirms_witness:
  "\<exists>es t p md req.
     run (acceptHandshake demo_crypto demo_wire Plain demo_serde []) es = Some (Inr t, []) \<and>
     deserialize demo_crypto demo_wire (w_handshake demo_wire) demo_serde p = Inr (md, req) \<and>
     md_route md = RouteRequestHandshake \<and> t_sendSequence t = 2"
proof -
  obtain es t where r: "run (acceptHandshake demo_crypto demo_wire Plain demo_serde []) es = Some (Inr t, [])"
    using demo_handshake_runs by blast
  from responder_confirms [OF r] r show ?thesis by blast
qed

lemma length_prefixed_inject:
  assumes "length_prefixed x @ r = length_prefixed y @ s" "length x < 2 ^ 32" "length y < 2 ^ 32"
  shows "x = y \<and> r = s"
proof -
  have eq: "put_uint32 (of_nat (length x)) @ x @ r = put_uint32 (of_nat (length y)) @ y @ s"
    using assms(1) by (simp add: length_prefixed_def)
  then have "x @ r = y @ s" by simp
  from arg_cong [OF eq, of get_uint32] have "(of_nat (length x) :: 32 word) = of_nat (length y)"
    by (simp only: get_put_uint32)
  then have "length x = length y"
    using assms(2,3) by (simp add: word_of_nat_eq_iff take_bit_eq_mod)
  with \<open>x @ r = y @ s\<close> show ?thesis by simp
qed

text \<open>The transcript tells handshakes apart: with fields below 4 GiB, two runs with the same transcript
  have the same six fields, so a challenge derived from its hash is bound to every one of them.\<close>

theorem transcript_binds:
  assumes "handshake_transcript req resp = handshake_transcript req' resp'"
    and "\<forall>h \<in> {req, resp, req', resp'}.
       length (hs_Key h) < 2 ^ 32 \<and> length (hs_Salt h) < 2 ^ 32 \<and> length (hs_SessionKey h) < 2 ^ 32"
  shows "req = req' \<and> resp = resp'"
proof -
  have "hs_Key req = hs_Key req' \<and> hs_Salt req = hs_Salt req' \<and> hs_SessionKey req = hs_SessionKey req' \<and>
      hs_Key resp = hs_Key resp' \<and> hs_Salt resp = hs_Salt resp' \<and> hs_SessionKey resp = hs_SessionKey resp'"
    using assms
    by (auto simp: handshake_transcript_def dest!: length_prefixed_inject
        length_prefixed_inject [where r = "[]" and s = "[]", simplified])
  then show ?thesis by (cases req; cases resp; cases req'; cases resp') simp
qed

theorem transcript_binds_witness:
  "let req = \<lparr>hs_Key = replicate 1184 1, hs_Salt = replicate 16 2, hs_SessionKey = lit ''ABCDEFGHIJKL''\<rparr>;
       resp = \<lparr>hs_Key = replicate 1088 3, hs_Salt = replicate 16 4, hs_SessionKey = lit ''MNOPQRSTUVWX''\<rparr>
   in (\<forall>h \<in> {req, resp}. length (hs_Key h) < 2 ^ 32) \<and>
      handshake_transcript req resp \<noteq> handshake_transcript resp req"
proof -
  let ?req = "\<lparr>hs_Key = replicate 1184 1, hs_Salt = replicate 16 2, hs_SessionKey = lit ''ABCDEFGHIJKL''\<rparr>"
  let ?resp = "\<lparr>hs_Key = replicate 1088 3, hs_Salt = replicate 16 4, hs_SessionKey = lit ''MNOPQRSTUVWX''\<rparr>"
  have b: "\<forall>h \<in> {?req, ?resp, ?resp, ?req}.
      length (hs_Key h) < 2 ^ 32 \<and> length (hs_Salt h) < 2 ^ 32 \<and> length (hs_SessionKey h) < 2 ^ 32" by simp
  have "?req \<noteq> ?resp" by (auto dest: arg_cong [of _ _ "\<lambda>h. length (hs_Key h)"])
  then have "handshake_transcript ?req ?resp \<noteq> handshake_transcript ?resp ?req"
    using transcript_binds [OF _ b] by blast
  with b show ?thesis by (simp add: Let_def)
qed

end
