(* ===== verification/Engine.thy ===== *)
theory Engine
  imports Primitives Instances
begin

text \<open>
  The storage engine of internal/engine: namespaces of encrypted values over a bbolt database, read
  and write transactions, and the cipher that wraps the data key with the passphrase. The database
  itself (go.etcd.io/bbolt) is the parameter \<open>bolt\<close>: a bucket is named by its path from the root.
\<close>

subsection \<open>The database\<close>

record 'd bolt =
  bk_exists :: "'d \<Rightarrow> bytes list \<Rightarrow> bool"
  bk_get :: "'d \<Rightarrow> bytes list \<Rightarrow> bytes \<Rightarrow> bytes option"
  bk_put :: "'d \<Rightarrow> bytes list \<Rightarrow> bytes \<Rightarrow> bytes \<Rightarrow> 'd option"
  bk_delete :: "'d \<Rightarrow> bytes list \<Rightarrow> bytes \<Rightarrow> 'd option"
  bk_create :: "'d \<Rightarrow> bytes list \<Rightarrow> bytes \<Rightarrow> 'd option"
  bk_drop :: "'d \<Rightarrow> bytes list \<Rightarrow> bytes \<Rightarrow> bool + 'd"
  bk_cursor :: "'d \<Rightarrow> bytes list \<Rightarrow> (bytes \<times> bytes option) list"
  bk_keyn :: "'d \<Rightarrow> bytes list \<Rightarrow> nat"
  bk_commit :: "'d \<Rightarrow> bool"

text \<open>The documented behaviour of bbolt that the storage relies on. A put needs a bucket, a key of 1
  to 32768 bytes that is not itself a bucket, and changes that one value. Deleting a missing key is
  no error. Creating a bucket under an existing one adds an empty one; dropping one removes everything
  under it. A cursor meets every value and every nested bucket once. A commit succeeds.\<close>

definition key_ok :: "bytes \<Rightarrow> bool" where
  "key_ok k \<longleftrightarrow> k \<noteq> [] \<and> length k \<le> 32768"

definition put_law :: "'d bolt \<Rightarrow> bool" where
  "put_law bd \<longleftrightarrow> (\<forall>d p k v. p \<noteq> [] \<and> bk_exists bd d p \<and> key_ok k \<and> \<not> bk_exists bd d (p @ [k]) \<longrightarrow>
     (\<exists>d'. bk_put bd d p k v = Some d' \<and> bk_exists bd d' = bk_exists bd d \<and>
        bk_get bd d' = (bk_get bd d)(p := (bk_get bd d p)(k \<mapsto> v))))"

definition delete_law :: "'d bolt \<Rightarrow> bool" where
  "delete_law bd \<longleftrightarrow> (\<forall>d p k. p \<noteq> [] \<and> bk_exists bd d p \<and> \<not> bk_exists bd d (p @ [k]) \<longrightarrow>
     (\<exists>d'. bk_delete bd d p k = Some d' \<and> bk_exists bd d' = bk_exists bd d \<and>
        bk_get bd d' = (bk_get bd d)(p := (bk_get bd d p)(k := None))))"

definition create_law :: "'d bolt \<Rightarrow> bool" where
  "create_law bd \<longleftrightarrow> (\<forall>d p n. (p = [] \<or> bk_exists bd d p) \<and> n \<noteq> [] \<and> \<not> bk_exists bd d (p @ [n]) \<and>
        bk_get bd d p n = None \<longrightarrow>
     (\<exists>d'. bk_create bd d p n = Some d' \<and>
        (\<forall>p'. bk_exists bd d' p' \<longleftrightarrow> p' = p @ [n] \<or> bk_exists bd d p') \<and>
        bk_get bd d' = bk_get bd d))"

definition get_law :: "'d bolt \<Rightarrow> bool" where
  "get_law bd \<longleftrightarrow> (\<forall>d p k. \<not> bk_exists bd d p \<longrightarrow> bk_get bd d p k = None)"

definition drop_law :: "'d bolt \<Rightarrow> bool" where
  "drop_law bd \<longleftrightarrow> (\<forall>d p n. p \<noteq> [] \<and> n \<noteq> [] \<longrightarrow>
     (bk_exists bd d (p @ [n]) \<longrightarrow>
        (\<exists>d'. bk_drop bd d p n = Inr d' \<and>
           (\<forall>q. bk_exists bd d' q \<longleftrightarrow> bk_exists bd d q \<and> take (Suc (length p)) q \<noteq> p @ [n]) \<and>
           (\<forall>q. bk_get bd d' q = (if take (Suc (length p)) q = p @ [n] then Map.empty else bk_get bd d q)))) \<and>
     (\<not> bk_exists bd d (p @ [n]) \<and> bk_get bd d p n = None \<longrightarrow> bk_drop bd d p n = Inl True))"

definition cursor_law :: "'d bolt \<Rightarrow> bool" where
  "cursor_law bd \<longleftrightarrow> (\<forall>d p. bk_exists bd d p \<and> (\<forall>k. bk_exists bd d (p @ [k]) \<longrightarrow> bk_get bd d p k = None) \<longrightarrow>
     distinct (map fst (bk_cursor bd d p)) \<and>
     (\<forall>k v. (k, Some v) \<in> set (bk_cursor bd d p) \<longleftrightarrow> bk_get bd d p k = Some v) \<and>
     (\<forall>k. (k, None) \<in> set (bk_cursor bd d p) \<longleftrightarrow> bk_exists bd d (p @ [k])))"

definition bolt_laws :: "'d bolt \<Rightarrow> bool" where
  "bolt_laws bd \<longleftrightarrow> put_law bd \<and> delete_law bd \<and> create_law bd \<and> get_law bd \<and> drop_law bd \<and>
     cursor_law bd \<and> (\<forall>d. bk_commit bd d)"

subsection \<open>Namespaces\<close>

text \<open>The errors of the engine and of pkg/storage, one constructor per \<^verbatim>\<open>errors.Is\<close> class; the last
  stands for a panic of the runtime.\<close>

datatype serr =
    ErrMissingItem | ErrMissingNamespace
  | ErrDecrypt kerror
  | ErrBolt
  | ErrNotFound | ErrSessionNotFound
  | ErrPeerExpired | ErrInvalidPublicKey | ErrPeerFormat
  | ErrEmptyAppName
  | ErrKey key_error
  | ErrKeys kerror
  | ErrOption | ErrNotExist | ErrOpen | ErrPassphrase
  | Panicked

text \<open>\<^verbatim>\<open>nilNamespace\<close>, or a namespace: the root (no bucket) or a bucket, by path.\<close>

datatype namespace = NilNamespace | Namespace "bytes list"

definition root_namespace :: namespace where
  "root_namespace = Namespace []"

fun ns_Sub :: "'d bolt \<Rightarrow> 'd \<Rightarrow> namespace \<Rightarrow> bytes \<Rightarrow> namespace" where
  "ns_Sub bd d NilNamespace name = NilNamespace"
| "ns_Sub bd d (Namespace p) name =
     (if bk_exists bd d (p @ [name]) then Namespace (p @ [name]) else NilNamespace)"

fun ns_Ensure :: "'d bolt \<Rightarrow> 'd \<Rightarrow> namespace \<Rightarrow> bytes \<Rightarrow> 'd \<times> namespace" where
  "ns_Ensure bd d NilNamespace name = (d, NilNamespace)"
| "ns_Ensure bd d (Namespace p) name =
     (if bk_exists bd d (p @ [name]) then (d, Namespace (p @ [name]))
      else case bk_create bd d p name of
             None \<Rightarrow> (d, NilNamespace)
           | Some d' \<Rightarrow> (d', Namespace (p @ [name])))"

fun ns_get :: "'d bolt \<Rightarrow> 'd \<Rightarrow> namespace \<Rightarrow> bytes \<Rightarrow> serr + bytes" where
  "ns_get bd d NilNamespace key = Inl ErrMissingNamespace"
| "ns_get bd d (Namespace []) key = Inl ErrMissingNamespace"
| "ns_get bd d (Namespace (b # p)) key =
     (case bk_get bd d (b # p) key of None \<Rightarrow> Inl ErrMissingItem | Some v \<Rightarrow> Inr v)"

definition ns_GetEncrypted :: "crypto \<Rightarrow> 'd bolt \<Rightarrow> enigma \<Rightarrow> 'd \<Rightarrow> namespace \<Rightarrow> bytes \<Rightarrow> serr + bytes" where
  "ns_GetEncrypted cr bd c d ns key =
     (case ns_get bd d ns key of
        Inl e \<Rightarrow> Inl e
      | Inr v \<Rightarrow> (case Decrypt cr c v of Inl e \<Rightarrow> Inl (ErrDecrypt e) | Inr x \<Rightarrow> Inr x))"

fun ns_put :: "'d bolt \<Rightarrow> 'd \<Rightarrow> namespace \<Rightarrow> bytes \<Rightarrow> bytes \<Rightarrow> 'd \<times> (serr + unit)" where
  "ns_put bd d (Namespace (b # p)) key v =
     (case bk_put bd d (b # p) key v of None \<Rightarrow> (d, Inl ErrBolt) | Some d' \<Rightarrow> (d', Inr ()))"
| "ns_put bd d _ key v = (d, Inl ErrMissingNamespace)"

fun is_bucket :: "namespace \<Rightarrow> bool" where
  "is_bucket (Namespace (b # p)) = True"
| "is_bucket _ = False"

definition ns_PutEncrypted ::
  "crypto \<Rightarrow> 'd bolt \<Rightarrow> enigma \<Rightarrow> 'd \<Rightarrow> namespace \<Rightarrow> bytes \<Rightarrow> bytes \<Rightarrow> ('d \<times> (serr + unit)) io" where
  "ns_PutEncrypted cr bd c d ns key v =
     (if \<not> is_bucket ns then Return (d, Inl ErrMissingNamespace)
      else io_bind (Encrypt cr c v) (\<lambda>encrypted. Return (ns_put bd d ns key encrypted)))"

fun ns_Delete :: "'d bolt \<Rightarrow> 'd \<Rightarrow> namespace \<Rightarrow> bytes \<Rightarrow> 'd \<times> (serr + unit)" where
  "ns_Delete bd d (Namespace (b # p)) key =
     (case bk_delete bd d (b # p) key of None \<Rightarrow> (d, Inl ErrBolt) | Some d' \<Rightarrow> (d', Inr ()))"
| "ns_Delete bd d _ key = (d, Inl ErrMissingNamespace)"

fun ns_DeleteNamespace :: "'d bolt \<Rightarrow> 'd \<Rightarrow> namespace \<Rightarrow> bytes \<Rightarrow> 'd \<times> (serr + unit)" where
  "ns_DeleteNamespace bd d (Namespace (b # p)) name =
     (if name = [] then (d, Inl ErrMissingNamespace)
      else case bk_drop bd d (b # p) name of
             Inl notFound \<Rightarrow> (d, Inl (if notFound then ErrMissingNamespace else ErrBolt))
           | Inr d' \<Rightarrow> (d', Inr ()))"
| "ns_DeleteNamespace bd d _ name = (d, Inl ErrMissingNamespace)"

text \<open>A nested bucket appears in the cursor with a nil value, which does not decrypt.\<close>

fun ns_IterateEncrypted :: "crypto \<Rightarrow> 'd bolt \<Rightarrow> enigma \<Rightarrow> 'd \<Rightarrow> namespace \<Rightarrow> (bytes \<times> bytes) list" where
  "ns_IterateEncrypted cr bd c d (Namespace (b # p)) =
     concat (map (\<lambda>(k, v). case Decrypt cr c (case v of None \<Rightarrow> [] | Some x \<Rightarrow> x) of
         Inl _ \<Rightarrow> [] | Inr x \<Rightarrow> [(k, x)]) (bk_cursor bd d (b # p)))"
| "ns_IterateEncrypted cr bd c d _ = []"

fun ns_FirstKey :: "'d bolt \<Rightarrow> 'd \<Rightarrow> namespace \<Rightarrow> bytes option" where
  "ns_FirstKey bd d (Namespace (b # p)) =
     (case bk_cursor bd d (b # p) of [] \<Rightarrow> None | (k, _) # _ \<Rightarrow> Some k)"
| "ns_FirstKey bd d _ = None"

fun ns_LastKey :: "'d bolt \<Rightarrow> 'd \<Rightarrow> namespace \<Rightarrow> bytes option" where
  "ns_LastKey bd d (Namespace (b # p)) =
     (case bk_cursor bd d (b # p) of [] \<Rightarrow> None | es \<Rightarrow> Some (fst (last es)))"
| "ns_LastKey bd d _ = None"

fun ns_KeyCount :: "'d bolt \<Rightarrow> 'd \<Rightarrow> namespace \<Rightarrow> nat" where
  "ns_KeyCount bd d (Namespace (b # p)) = bk_keyn bd d (b # p)"
| "ns_KeyCount bd d _ = 0"

fun ns_ListSubNamespaces :: "'d bolt \<Rightarrow> 'd \<Rightarrow> namespace \<Rightarrow> bytes list" where
  "ns_ListSubNamespaces bd d (Namespace (b # p)) =
     filter (\<lambda>k. bk_exists bd d ((b # p) @ [k])) (map fst (bk_cursor bd d (b # p)))"
| "ns_ListSubNamespaces bd d _ = []"

subsection \<open>Transactions\<close>

record 'd bolt_store =
  bs_db :: 'd
  bs_cipher :: enigma

text \<open>A write transaction: the changes of \<open>f\<close> become the database when \<open>f\<close> succeeds and the commit
  does, and are discarded otherwise.\<close>

definition Command ::
  "'d bolt \<Rightarrow> 'd bolt_store \<Rightarrow> ('d \<Rightarrow> ('d \<times> (serr + 'a)) io) \<Rightarrow> ('d bolt_store \<times> (serr + 'a)) io" where
  "Command bd s f =
     io_bind (f (bs_db s)) (\<lambda>(d, r). Return (case r of
         Inl e \<Rightarrow> (s, Inl e)
       | Inr x \<Rightarrow> if bk_commit bd d then (s\<lparr>bs_db := d\<rparr>, Inr x) else (s, Inl ErrBolt)))"

definition Query :: "'d bolt_store \<Rightarrow> ('d \<Rightarrow> serr + 'a) \<Rightarrow> serr + 'a" where
  "Query s f = f (bs_db s)"

subsection \<open>The data cipher and its passphrase\<close>

definition DefaultNamespace :: bytes where "DefaultNamespace = lit ''kamune-store''"
definition PeersNamespace :: bytes where "PeersNamespace = lit ''peers''"
definition SettingsNamespace :: bytes where "SettingsNamespace = lit ''settings''"
definition SessionsNamespace :: bytes where "SessionsNamespace = lit ''sessions''"
definition kek :: bytes where "kek = lit ''key-encryption-key''"
definition dek :: bytes where "dek = lit ''data-encryption-key''"
definition dpk :: bytes where "dpk = lit ''derived-passphrase-key''"
definition wrappedSaltKey :: bytes where "wrappedSaltKey = lit ''wrapped-salt''"
definition wrappedKey :: bytes where "wrappedKey = lit ''wrapped-key''"
definition deriveSaltKey :: bytes where "deriveSaltKey = lit ''derive-salt''"
definition secretSaltKey :: bytes where "secretSaltKey = lit ''secret-salt''"

record cipher_meta =
  cm_secretSalt :: bytes
  cm_deriveSalt :: bytes
  cm_wrappedSalt :: bytes
  cm_wrappedKey :: bytes

text \<open>The cipher that wraps the data key: derived from the passphrase and two salts.\<close>

definition passphrase_cipher :: "crypto \<Rightarrow> bytes \<Rightarrow> bytes \<Rightarrow> bytes \<Rightarrow> serr + enigma" where
  "passphrase_cipher cr pass deriveSalt wrappedSalt =
     (case Derive cr pass deriveSalt dpk 32 of
        Inl e \<Rightarrow> Inl (ErrKeys e)
      | Inr derivedPass \<Rightarrow>
          (case NewEnigma cr derivedPass wrappedSalt kek of
             Inl e \<Rightarrow> Inl (ErrKeys e)
           | Inr c \<Rightarrow> Inr c))"

definition data_cipher :: "crypto \<Rightarrow> bytes \<Rightarrow> bytes \<Rightarrow> serr + enigma" where
  "data_cipher cr secret secretSalt =
     (case NewEnigma cr secret secretSalt dek of Inl e \<Rightarrow> Inl (ErrKeys e) | Inr c \<Rightarrow> Inr c)"

definition read_meta :: "'d bolt \<Rightarrow> 'd \<Rightarrow> cipher_meta option" where
  "read_meta bd d =
     (let get = bk_get bd d [DefaultNamespace] in
      case (get secretSaltKey, get deriveSaltKey, get wrappedSaltKey, get wrappedKey) of
        (Some ss, Some ds, Some ws, Some wk) \<Rightarrow>
          Some \<lparr>cm_secretSalt = ss, cm_deriveSalt = ds, cm_wrappedSalt = ws, cm_wrappedKey = wk\<rparr>
      | _ \<Rightarrow> None)"

text \<open>The secret under the passphrase, as both \<^verbatim>\<open>extractCipher\<close> and \<^verbatim>\<open>RotatePassphrase\<close> unwrap it.\<close>

definition unwrap_secret :: "crypto \<Rightarrow> bytes \<Rightarrow> cipher_meta \<Rightarrow> serr + bytes" where
  "unwrap_secret cr pass meta =
     (case passphrase_cipher cr pass (cm_deriveSalt meta) (cm_wrappedSalt meta) of
        Inl e \<Rightarrow> Inl e
      | Inr keyCipher \<Rightarrow>
          (case Decrypt cr keyCipher (cm_wrappedKey meta) of
             Inl e \<Rightarrow> Inl (ErrDecrypt e)
           | Inr secret \<Rightarrow> Inr secret))"

definition extractCipher :: "crypto \<Rightarrow> 'd bolt \<Rightarrow> 'd \<Rightarrow> bytes \<Rightarrow> serr + enigma \<times> cipher_meta" where
  "extractCipher cr bd d pass =
     (case read_meta bd d of
        None \<Rightarrow> Inl ErrMissingItem
      | Some meta \<Rightarrow>
          (case unwrap_secret cr pass meta of
             Inl e \<Rightarrow> Inl e
           | Inr secret \<Rightarrow>
               (case data_cipher cr secret (cm_secretSalt meta) of
                  Inl e \<Rightarrow> Inl e
                | Inr c \<Rightarrow> Inr (c, meta))))"

fun put_all :: "'d bolt \<Rightarrow> 'd \<Rightarrow> bytes list \<Rightarrow> (bytes \<times> bytes) list \<Rightarrow> 'd option" where
  "put_all bd d p [] = Some d"
| "put_all bd d p ((k, v) # kvs) =
     (case bk_put bd d p k v of None \<Rightarrow> None | Some d' \<Rightarrow> put_all bd d' p kvs)"

definition write_meta :: "'d bolt \<Rightarrow> 'd \<Rightarrow> (bytes \<times> bytes) list \<Rightarrow> 'd option" where
  "write_meta bd d kvs =
     (case put_all bd d [DefaultNamespace] kvs of
        None \<Rightarrow> None
      | Some d' \<Rightarrow> if bk_commit bd d' then Some d' else None)"

definition createCipher :: "crypto \<Rightarrow> 'd bolt \<Rightarrow> 'd \<Rightarrow> bytes \<Rightarrow> ('d \<times> (serr + enigma)) io" where
  "createCipher cr bd d pass =
     Random 32 (\<lambda>secret. Random 32 (\<lambda>secretSalt. Random 32 (\<lambda>deriveSalt. Random 32 (\<lambda>wrappedSalt.
     case passphrase_cipher cr pass deriveSalt wrappedSalt of
       Inl e \<Rightarrow> Return (d, Inl e)
     | Inr keyCipher \<Rightarrow>
         io_bind (Encrypt cr keyCipher secret) (\<lambda>wrapped.
         case data_cipher cr secret secretSalt of
           Inl e \<Rightarrow> Return (d, Inl e)
         | Inr c \<Rightarrow>
             (case write_meta bd d [(wrappedKey, wrapped), (wrappedSaltKey, wrappedSalt),
                      (deriveSaltKey, deriveSalt), (secretSaltKey, secretSalt)] of
                None \<Rightarrow> Return (d, Inl ErrBolt)
              | Some d' \<Rightarrow> Return (d', Inr c)))))))"

definition RotatePassphrase ::
  "crypto \<Rightarrow> 'd bolt \<Rightarrow> 'd bolt_store \<Rightarrow> bytes \<Rightarrow> bytes \<Rightarrow> ('d bolt_store \<times> (serr + unit)) io" where
  "RotatePassphrase cr bd s old new =
     (case extractCipher cr bd (bs_db s) old of
        Inl e \<Rightarrow> Return (s, Inl e)
      | Inr (_, meta) \<Rightarrow>
     case unwrap_secret cr old meta of
        Inl e \<Rightarrow> Return (s, Inl e)
      | Inr secret \<Rightarrow>
          Random 32 (\<lambda>newDeriveSalt. Random 32 (\<lambda>newWrappedSalt.
          case passphrase_cipher cr new newDeriveSalt newWrappedSalt of
            Inl e \<Rightarrow> Return (s, Inl e)
          | Inr newKeyCipher \<Rightarrow>
              io_bind (Encrypt cr newKeyCipher secret) (\<lambda>newWrapped.
              case write_meta bd (bs_db s) [(wrappedKey, newWrapped), (wrappedSaltKey, newWrappedSalt),
                      (deriveSaltKey, newDeriveSalt)] of
                None \<Rightarrow> Return (s, Inl ErrBolt)
              | Some d' \<Rightarrow>
                  (case extractCipher cr bd d' new of
                     Inl e \<Rightarrow> Return (s\<lparr>bs_db := d'\<rparr>, Inl e)
                   | Inr (c, _) \<Rightarrow> Return (\<lparr>bs_db = d', bs_cipher = c\<rparr>, Inr ()))))))"

text \<open>The second half of \<^verbatim>\<open>NewBoltDB\<close>, on the opened database: the four top-level buckets are
  created in one transaction, and the cipher is extracted or created.\<close>

fun create_all :: "'d bolt \<Rightarrow> 'd \<Rightarrow> bytes list \<Rightarrow> 'd option" where
  "create_all bd d [] = Some d"
| "create_all bd d (n # ns) =
     (if bk_exists bd d [n] then create_all bd d ns
      else case bk_create bd d [] n of None \<Rightarrow> None | Some d' \<Rightarrow> create_all bd d' ns)"

definition open_store :: "crypto \<Rightarrow> 'd bolt \<Rightarrow> 'd \<Rightarrow> bytes \<Rightarrow> ('d \<times> (serr + 'd bolt_store)) io" where
  "open_store cr bd d pass =
     (case create_all bd d [DefaultNamespace, SettingsNamespace, PeersNamespace, SessionsNamespace] of
        None \<Rightarrow> Return (d, Inl ErrBolt)
      | Some d1 \<Rightarrow>
          if \<not> bk_commit bd d1 then Return (d, Inl ErrBolt)
          else (case extractCipher cr bd d1 pass of
            Inr (c, _) \<Rightarrow> Return (d1, Inr \<lparr>bs_db = d1, bs_cipher = c\<rparr>)
          | Inl e \<Rightarrow>
              if e = ErrMissingItem then
                io_bind (createCipher cr bd d1 pass) (\<lambda>(d2, r). Return (d2, case r of
                  Inl e \<Rightarrow> Inl e | Inr c \<Rightarrow> Inr \<lparr>bs_db = d2, bs_cipher = c\<rparr>))
              else Return (d1, Inl e)))"

record options =
  o_CreateIfMissing :: bool
  o_Timeout :: duration

datatype engine_option = WithCreateIfMissing bool | WithTimeout duration

fun apply_options :: "options \<Rightarrow> engine_option list \<Rightarrow> serr + options" where
  "apply_options o' [] = Inr o'"
| "apply_options o' (WithCreateIfMissing v # opts) = apply_options (o'\<lparr>o_CreateIfMissing := v\<rparr>) opts"
| "apply_options o' (WithTimeout d # opts) =
     (if d < 0 then Inl ErrOption else apply_options (o'\<lparr>o_Timeout := d\<rparr>) opts)"

text \<open>Opening the file is a parameter: whether it exists, and what \<^verbatim>\<open>bolt.Open\<close> with a timeout gives.
  The opened database is returned with the store, since it keeps what was written to it on an error.\<close>

definition NewBoltDB ::
  "crypto \<Rightarrow> 'd bolt \<Rightarrow> bool \<Rightarrow> (duration \<Rightarrow> serr + 'd) \<Rightarrow> bytes \<Rightarrow> engine_option list \<Rightarrow>
   ('d option \<times> (serr + 'd bolt_store)) io" where
  "NewBoltDB cr bd file_exists bolt_Open pass opts =
     (case apply_options \<lparr>o_CreateIfMissing = True, o_Timeout = 0\<rparr> opts of
        Inl e \<Rightarrow> Return (None, Inl e)
      | Inr o' \<Rightarrow>
          if \<not> file_exists \<and> \<not> o_CreateIfMissing o' then Return (None, Inl ErrNotExist)
          else case bolt_Open (if 0 < o_Timeout o' then o_Timeout o' else 5 * second) of
                 Inl e \<Rightarrow> Return (None, Inl e)
               | Inr d \<Rightarrow> io_bind (open_store cr bd d pass) (\<lambda>(d', r). Return (Some d', r)))"

subsection \<open>Facts\<close>

lemma put_ok:
  assumes "bolt_laws bd" "p \<noteq> []" "bk_exists bd d p" "key_ok k" "\<not> bk_exists bd d (p @ [k])"
  shows "\<exists>d'. bk_put bd d p k v = Some d' \<and> bk_exists bd d' = bk_exists bd d \<and>
     bk_get bd d' = (bk_get bd d)(p := (bk_get bd d p)(k \<mapsto> v))"
  using assms by (simp add: bolt_laws_def put_law_def)

lemma delete_ok:
  assumes "bolt_laws bd" "p \<noteq> []" "bk_exists bd d p" "\<not> bk_exists bd d (p @ [k])"
  shows "\<exists>d'. bk_delete bd d p k = Some d' \<and> bk_exists bd d' = bk_exists bd d \<and>
     bk_get bd d' = (bk_get bd d)(p := (bk_get bd d p)(k := None))"
  using assms by (simp add: bolt_laws_def delete_law_def)

lemma create_ok:
  assumes "bolt_laws bd" "p = [] \<or> bk_exists bd d p" "n \<noteq> []" "\<not> bk_exists bd d (p @ [n])" "bk_get bd d p n = None"
  shows "\<exists>d'. bk_create bd d p n = Some d' \<and>
     (\<forall>p'. bk_exists bd d' p' \<longleftrightarrow> p' = p @ [n] \<or> bk_exists bd d p') \<and> bk_get bd d' = bk_get bd d"
  using assms by (simp add: bolt_laws_def create_law_def)

lemma commit_ok [simp]: "bolt_laws bd \<Longrightarrow> bk_commit bd d"
  by (simp add: bolt_laws_def)

lemma put_all_ok:
  assumes "bolt_laws bd" "p \<noteq> []" "bk_exists bd d p"
    and "\<forall>(k, v) \<in> set kvs. key_ok k \<and> \<not> bk_exists bd d (p @ [k])"
  shows "\<exists>d'. put_all bd d p kvs = Some d' \<and> bk_exists bd d' = bk_exists bd d \<and>
     bk_get bd d' = (bk_get bd d)(p := bk_get bd d p ++ map_of (rev kvs))"
  using assms(3,4)
proof (induction kvs arbitrary: d)
  case Nil
  then show ?case by simp
next
  case (Cons kv kvs)
  obtain k v where kv: "kv = (k, v)" by force
  obtain d1 where d1: "bk_put bd d p k v = Some d1" "bk_exists bd d1 = bk_exists bd d"
      "bk_get bd d1 = (bk_get bd d)(p := (bk_get bd d p)(k \<mapsto> v))"
    using put_ok [OF assms(1,2)] Cons.prems kv by fastforce
  have "bk_exists bd d1 p" "\<forall>(k, v) \<in> set kvs. key_ok k \<and> \<not> bk_exists bd d1 (p @ [k])"
    using Cons.prems d1(2) by auto
  from Cons.IH [OF this] obtain d' where d': "put_all bd d1 p kvs = Some d'" "bk_exists bd d' = bk_exists bd d1"
      "bk_get bd d' = (bk_get bd d1)(p := bk_get bd d1 p ++ map_of (rev kvs))" by blast
  have "bk_get bd d' = (bk_get bd d)(p := bk_get bd d p ++ map_of (rev (kv # kvs)))"
    unfolding d'(3) d1(3) by (simp add: kv)
  moreover have "put_all bd d p (kv # kvs) = Some d'" using d1(1) d'(1) by (simp add: kv)
  moreover have "bk_exists bd d' = bk_exists bd d" using d1(2) d'(2) by simp
  ultimately show ?case by blast
qed

lemma meta_keys: "key_ok wrappedKey" "key_ok wrappedSaltKey" "key_ok deriveSaltKey" "key_ok secretSaltKey"
  by (simp_all add: key_ok_def wrappedKey_def wrappedSaltKey_def deriveSaltKey_def secretSaltKey_def lit_def)

lemma meta_keys_distinct: "distinct [wrappedKey, wrappedSaltKey, deriveSaltKey, secretSaltKey]"
  by (simp add: wrappedKey_def wrappedSaltKey_def deriveSaltKey_def secretSaltKey_def lit_def)

text \<open>A database in which the cipher metadata can be kept.\<close>

definition meta_ready :: "'d bolt \<Rightarrow> 'd \<Rightarrow> bool" where
  "meta_ready bd d \<longleftrightarrow> bk_exists bd d [DefaultNamespace] \<and>
     (\<forall>k \<in> {wrappedKey, wrappedSaltKey, deriveSaltKey, secretSaltKey}. \<not> bk_exists bd d [DefaultNamespace, k])"

lemma write_meta_ok:
  assumes "bolt_laws bd" "meta_ready bd d"
    and "fst ` set kvs \<subseteq> {wrappedKey, wrappedSaltKey, deriveSaltKey, secretSaltKey}"
  shows "\<exists>d'. write_meta bd d kvs = Some d' \<and> bk_exists bd d' = bk_exists bd d \<and>
     bk_get bd d' = (bk_get bd d)([DefaultNamespace] := bk_get bd d [DefaultNamespace] ++ map_of (rev kvs))"
proof -
  have "\<forall>(k, v) \<in> set kvs. key_ok k \<and> \<not> bk_exists bd d ([DefaultNamespace] @ [k])"
    using assms(2,3) meta_keys by (fastforce simp: meta_ready_def)
  from put_all_ok [OF assms(1) _ _ this] assms(1,2) show ?thesis
    by (auto simp: write_meta_def meta_ready_def)
qed

text \<open>The values of a database as the cipher reads them.\<close>

definition plain :: "crypto \<Rightarrow> 'd bolt \<Rightarrow> enigma \<Rightarrow> 'd \<Rightarrow> bytes list \<Rightarrow> bytes \<Rightarrow> (kerror + bytes) option" where
  "plain cr bd c d p k = map_option (Decrypt cr c) (bk_get bd d p k)"

lemma plain_upd:
  "bk_get bd d' = (bk_get bd d)(p := (bk_get bd d p)(k \<mapsto> v)) \<Longrightarrow>
     plain cr bd c d' = (plain cr bd c d)(p := (plain cr bd c d p)(k \<mapsto> Decrypt cr c v))"
  by (simp add: plain_def fun_eq_iff)

lemma plain_del:
  "bk_get bd d' = (bk_get bd d)(p := (bk_get bd d p)(k := None)) \<Longrightarrow>
     plain cr bd c d' = (plain cr bd c d)(p := (plain cr bd c d p)(k := None))"
  by (simp add: plain_def fun_eq_iff)

lemma plain_same: "bk_get bd d' = bk_get bd d \<Longrightarrow> plain cr bd c d' = plain cr bd c d"
  by (simp add: plain_def fun_eq_iff)

lemma GetEncrypted_plain:
  "p \<noteq> [] \<Longrightarrow> ns_GetEncrypted cr bd c d (Namespace p) k =
     (case plain cr bd c d p k of
        None \<Rightarrow> Inl ErrMissingItem | Some (Inl e) \<Rightarrow> Inl (ErrDecrypt e) | Some (Inr x) \<Rightarrow> Inr x)"
  by (cases p) (auto simp: ns_GetEncrypted_def plain_def split: option.splits sum.splits)

lemma GetEncrypted_Nil [simp]: "ns_GetEncrypted cr bd c d NilNamespace k = Inl ErrMissingNamespace"
  by (simp add: ns_GetEncrypted_def)

lemma PutEncrypted_Nil [simp]: "ns_PutEncrypted cr bd c d NilNamespace k v = Return (d, Inl ErrMissingNamespace)"
  by (simp add: ns_PutEncrypted_def)

lemma PutEncrypted_yields:
  assumes "bolt_laws bd" "aead_law cr" "p \<noteq> []" "bk_exists bd d p" "key_ok k" "\<not> bk_exists bd d (p @ [k])"
  shows "yields (ns_PutEncrypted cr bd c d (Namespace p) k v) (\<lambda>(d', r). r = Inr () \<and>
     bk_exists bd d' = bk_exists bd d \<and>
     plain cr bd c d' = (plain cr bd c d)(p := (plain cr bd c d p)(k \<mapsto> Inr v)))"
proof -
  let ?P = "\<lambda>(d', r). r = Inr () \<and> bk_exists bd d' = bk_exists bd d \<and>
     plain cr bd c d' = (plain cr bd c d)(p := (plain cr bd c d p)(k \<mapsto> Inr v))"
  obtain b q where p: "p = b # q" using assms(3) by (cases p) auto
  have "?P (ns_put bd d (Namespace p) k (n @ xchacha_seal cr (aead_key c) n v))" if n: "length n = nonceSize" for n
  proof -
    obtain d' where d': "bk_put bd d p k (n @ xchacha_seal cr (aead_key c) n v) = Some d'"
        "bk_exists bd d' = bk_exists bd d"
        "bk_get bd d' = (bk_get bd d)(p := (bk_get bd d p)(k \<mapsto> n @ xchacha_seal cr (aead_key c) n v))"
      using put_ok [OF assms(1,3-6)] by blast
    then show ?thesis using plain_upd [OF d'(3), of cr c] Decrypt_seal [OF assms(2) n, of c v] p by simp
  qed
  then show ?thesis unfolding p by (simp add: ns_PutEncrypted_def Encrypt_def)
qed

lemma Delete_ok:
  assumes "bolt_laws bd" "p \<noteq> []" "bk_exists bd d p" "\<not> bk_exists bd d (p @ [k])"
  shows "\<exists>d'. ns_Delete bd d (Namespace p) k = (d', Inr ()) \<and> bk_exists bd d' = bk_exists bd d \<and>
     plain cr bd c d' = (plain cr bd c d)(p := (plain cr bd c d p)(k := None))"
proof -
  obtain d' where d': "bk_delete bd d p k = Some d'" "bk_exists bd d' = bk_exists bd d"
      "bk_get bd d' = (bk_get bd d)(p := (bk_get bd d p)(k := None))"
    using delete_ok [OF assms] by blast
  then show ?thesis using plain_del [OF d'(3), of cr c] assms(2) by (cases p) auto
qed

lemma passphrase_cipher_ok: "hkdf_law cr \<Longrightarrow> \<exists>c. passphrase_cipher cr pass ds ws = Inr c"
proof -
  assume h: "hkdf_law cr"
  obtain d where "Derive cr pass ds dpk 32 = Inr d" by (rule Derive_ok [OF h, of 32]) simp_all
  moreover obtain c where "NewEnigma cr d ws kek = Inr c" by (rule NewEnigma_ok [OF h])
  ultimately show ?thesis by (simp add: passphrase_cipher_def)
qed

lemma data_cipher_ok: "hkdf_law cr \<Longrightarrow> \<exists>c. data_cipher cr secret salt = Inr c"
proof -
  assume h: "hkdf_law cr"
  obtain c where "NewEnigma cr secret salt dek = Inr c" by (rule NewEnigma_ok [OF h])
  then show ?thesis by (simp add: data_cipher_def)
qed

lemma unwrap_wrapped:
  assumes "aead_law cr" "passphrase_cipher cr pass (cm_deriveSalt m) (cm_wrappedSalt m) = Inr c"
    and "length nonce = nonceSize" "cm_wrappedKey m = nonce @ xchacha_seal cr (aead_key c) nonce secret"
  shows "unwrap_secret cr pass m = Inr secret"
  using assms by (simp add: unwrap_secret_def Decrypt_seal)

text \<open>Everything in the database except the cipher metadata.\<close>

definition user_data :: "'d bolt \<Rightarrow> 'd \<Rightarrow> bytes list \<Rightarrow> bytes \<Rightarrow> bytes option" where
  "user_data bd d p k =
     (if p = [DefaultNamespace] \<and> k \<in> {wrappedKey, wrappedSaltKey, deriveSaltKey, secretSaltKey} then None
      else bk_get bd d p k)"

lemma createCipher_yields:
  assumes "bolt_laws bd" "hkdf_law cr" "aead_law cr" "meta_ready bd d"
  shows "yields (createCipher cr bd d pass) (\<lambda>(d', r). \<exists>c meta. r = Inr c \<and>
     extractCipher cr bd d' pass = Inr (c, meta) \<and> bk_exists bd d' = bk_exists bd d \<and>
     user_data bd d' = user_data bd d)"
proof -
  have "\<exists>c meta. data_cipher cr secret ss = Inr c \<and>
      (\<exists>d'. write_meta bd d [(wrappedKey, nonce @ xchacha_seal cr (aead_key k) nonce secret), (wrappedSaltKey, ws),
          (deriveSaltKey, ds), (secretSaltKey, ss)] = Some d' \<and>
        extractCipher cr bd d' pass = Inr (c, meta) \<and> bk_exists bd d' = bk_exists bd d \<and>
        user_data bd d' = user_data bd d)"
    if k: "passphrase_cipher cr pass ds ws = Inr k" and n: "length nonce = nonceSize" for secret ss ws ds nonce k
  proof -
    let ?w = "nonce @ xchacha_seal cr (aead_key k) nonce secret"
    let ?kvs = "[(wrappedKey, ?w), (wrappedSaltKey, ws), (deriveSaltKey, ds), (secretSaltKey, ss)]"
    obtain c where c: "data_cipher cr secret ss = Inr c" using data_cipher_ok [OF assms(2)] by blast
    obtain d' where d': "write_meta bd d ?kvs = Some d'" "bk_exists bd d' = bk_exists bd d"
        "bk_get bd d' = (bk_get bd d)([DefaultNamespace] := bk_get bd d [DefaultNamespace] ++ map_of (rev ?kvs))"
      using write_meta_ok [OF assms(1,4), of ?kvs] by auto
    let ?m = "\<lparr>cm_secretSalt = ss, cm_deriveSalt = ds, cm_wrappedSalt = ws, cm_wrappedKey = ?w\<rparr>"
    have "read_meta bd d' = Some ?m"
      using meta_keys_distinct by (simp add: read_meta_def d'(3))
    moreover have "unwrap_secret cr pass ?m = Inr secret"
      using unwrap_wrapped [OF assms(3), of pass ?m k nonce secret] k n by simp
    ultimately have "extractCipher cr bd d' pass = Inr (c, ?m)"
      using c by (simp add: extractCipher_def)
    moreover have "user_data bd d' = user_data bd d"
      by (auto simp: user_data_def d'(3) fun_eq_iff)
    ultimately show ?thesis using c d'(1,2) by blast
  qed
  note core = this
  show ?thesis
    unfolding createCipher_def yields.simps
  proof (intro allI impI)
    fix secret ss ds ws :: bytes
    obtain k where k: "passphrase_cipher cr pass ds ws = Inr k" using passphrase_cipher_ok [OF assms(2)] by blast
    let ?P = "\<lambda>(d', r). \<exists>c meta. r = Inr c \<and> extractCipher cr bd d' pass = Inr (c, meta) \<and>
         bk_exists bd d' = bk_exists bd d \<and> user_data bd d' = user_data bd d"
    let ?rest = "\<lambda>wrapped. case data_cipher cr secret ss of
           Inl e \<Rightarrow> Return (d, Inl e)
         | Inr c \<Rightarrow>
             (case write_meta bd d [(wrappedKey, wrapped), (wrappedSaltKey, ws), (deriveSaltKey, ds), (secretSaltKey, ss)] of
                None \<Rightarrow> Return (d, Inl ErrBolt)
              | Some d' \<Rightarrow> Return (d', Inr c))"
    have "yields (?rest (nonce @ xchacha_seal cr (aead_key k) nonce secret)) ?P" if "length nonce = nonceSize" for nonce
      using core [OF k that, of secret ss] by auto
    then show "yields (case passphrase_cipher cr pass ds ws of
       Inl e \<Rightarrow> Return (d, Inl e)
     | Inr keyCipher \<Rightarrow> io_bind (Encrypt cr keyCipher secret) ?rest) ?P"
      by (simp add: k Encrypt_def)
  qed
qed

lemma rotate_yields:
  assumes "bolt_laws bd" "hkdf_law cr" "aead_law cr" "meta_ready bd (bs_db s)"
    and "extractCipher cr bd (bs_db s) old = Inr (bs_cipher s, meta)"
  shows "yields (RotatePassphrase cr bd s old new) (\<lambda>(s', r). r = Inr () \<and> bs_cipher s' = bs_cipher s \<and>
     (\<exists>meta'. extractCipher cr bd (bs_db s') new = Inr (bs_cipher s, meta')) \<and>
     bk_exists bd (bs_db s') = bk_exists bd (bs_db s) \<and> user_data bd (bs_db s') = user_data bd (bs_db s))"
proof -
  let ?d = "bs_db s"
  let ?P = "\<lambda>(s', r). r = Inr () \<and> bs_cipher s' = bs_cipher s \<and>
     (\<exists>meta'. extractCipher cr bd (bs_db s') new = Inr (bs_cipher s, meta')) \<and>
     bk_exists bd (bs_db s') = bk_exists bd ?d \<and> user_data bd (bs_db s') = user_data bd ?d"
  from assms(5) obtain secret where old: "read_meta bd ?d = Some meta" "unwrap_secret cr old meta = Inr secret"
      "data_cipher cr secret (cm_secretSalt meta) = Inr (bs_cipher s)"
    by (auto simp: extractCipher_def split: option.splits sum.splits)
  let ?rest = "\<lambda>ds ws wrapped. case write_meta bd ?d [(wrappedKey, wrapped), (wrappedSaltKey, ws), (deriveSaltKey, ds)] of
                None \<Rightarrow> Return (s, Inl ErrBolt)
              | Some d' \<Rightarrow>
                  (case extractCipher cr bd d' new of
                     Inl e \<Rightarrow> Return (s\<lparr>bs_db := d'\<rparr>, Inl e)
                   | Inr (c, _) \<Rightarrow> Return (\<lparr>bs_db = d', bs_cipher = c\<rparr>, Inr ()))"
  have rest: "yields (?rest ds ws (nonce @ xchacha_seal cr (aead_key k) nonce secret)) ?P"
    if k: "passphrase_cipher cr new ds ws = Inr k" and n: "length nonce = nonceSize" for ds ws nonce k
  proof -
    let ?w = "nonce @ xchacha_seal cr (aead_key k) nonce secret"
    let ?kvs = "[(wrappedKey, ?w), (wrappedSaltKey, ws), (deriveSaltKey, ds)]"
    obtain d' where d': "write_meta bd ?d ?kvs = Some d'" "bk_exists bd d' = bk_exists bd ?d"
        "bk_get bd d' = (bk_get bd ?d)([DefaultNamespace] := bk_get bd ?d [DefaultNamespace] ++ map_of (rev ?kvs))"
      using write_meta_ok [OF assms(1,4), of ?kvs] by auto
    let ?m = "\<lparr>cm_secretSalt = cm_secretSalt meta, cm_deriveSalt = ds, cm_wrappedSalt = ws, cm_wrappedKey = ?w\<rparr>"
    have "read_meta bd d' = Some ?m"
      using meta_keys_distinct old(1) by (auto simp: read_meta_def Let_def d'(3) split: option.splits)
    moreover have "unwrap_secret cr new ?m = Inr secret"
      using unwrap_wrapped [OF assms(3), of new ?m k nonce secret] k n by simp
    ultimately have "extractCipher cr bd d' new = Inr (bs_cipher s, ?m)"
      using old(3) by (simp add: extractCipher_def)
    moreover have "user_data bd d' = user_data bd ?d"
      by (auto simp: user_data_def d'(3) fun_eq_iff)
    ultimately show ?thesis using d'(1,2) by simp
  qed
  show ?thesis
    unfolding RotatePassphrase_def assms(5) sum.case prod.case old(2) yields.simps
  proof (intro allI impI)
    fix ds ws :: bytes
    obtain k where k: "passphrase_cipher cr new ds ws = Inr k" using passphrase_cipher_ok [OF assms(2)] by blast
    show "yields (case passphrase_cipher cr new ds ws of
        Inl e \<Rightarrow> Return (s, Inl e)
      | Inr newKeyCipher \<Rightarrow> io_bind (Encrypt cr newKeyCipher secret) (?rest ds ws)) ?P"
      using rest [OF k] by (simp add: k Encrypt_def)
  qed
qed

lemma create_all_ok:
  assumes "bolt_laws bd" "\<forall>n \<in> set ns. n \<noteq> [] \<and> bk_get bd d [] n = None"
  shows "\<exists>d'. create_all bd d ns = Some d' \<and> bk_get bd d' = bk_get bd d \<and>
     (\<forall>p. bk_exists bd d' p \<longleftrightarrow> bk_exists bd d p \<or> p \<in> (\<lambda>n. [n]) ` set ns)"
  using assms(2)
proof (induction ns arbitrary: d)
  case (Cons n ns)
  show ?case
  proof (cases "bk_exists bd d [n]")
    case True
    from Cons.IH [of d] Cons.prems obtain d' where d': "create_all bd d ns = Some d'" "bk_get bd d' = bk_get bd d"
        "\<forall>p. bk_exists bd d' p \<longleftrightarrow> bk_exists bd d p \<or> p \<in> (\<lambda>n. [n]) ` set ns" by auto
    have "\<forall>p. bk_exists bd d' p \<longleftrightarrow> bk_exists bd d p \<or> p \<in> (\<lambda>n. [n]) ` set (n # ns)"
      using d'(3) True by auto
    with d' True show ?thesis by auto
  next
    case False
    with create_ok [OF assms(1), of "[]" d n] Cons.prems obtain d1 where d1: "bk_create bd d [] n = Some d1"
        "\<forall>p'. bk_exists bd d1 p' \<longleftrightarrow> p' = [n] \<or> bk_exists bd d p'" "bk_get bd d1 = bk_get bd d" by auto
    have "\<forall>n \<in> set ns. n \<noteq> [] \<and> bk_get bd d1 [] n = None" using Cons.prems d1(3) by simp
    from Cons.IH [OF this] obtain d' where d': "create_all bd d1 ns = Some d'" "bk_get bd d' = bk_get bd d1"
        "\<forall>p. bk_exists bd d' p \<longleftrightarrow> bk_exists bd d1 p \<or> p \<in> (\<lambda>n. [n]) ` set ns" by blast
    then have "create_all bd d (n # ns) = Some d'" using d1(1) False by simp
    moreover have "\<forall>p. bk_exists bd d' p \<longleftrightarrow> bk_exists bd d p \<or> p \<in> (\<lambda>n. [n]) ` set (n # ns)"
      using d'(3) d1(2) by auto
    ultimately show ?thesis using d'(2) d1(3) by auto
  qed
qed simp

subsection \<open>A concrete database\<close>

text \<open>An association list of buckets, each an association list: it satisfies the laws.\<close>

type_synonym demo_db = "(bytes list \<times> (bytes \<times> bytes) list) list"

definition demo_bolt :: "demo_db bolt" where
  "demo_bolt = \<lparr>
     bk_exists = \<lambda>d p. map_of d p \<noteq> None,
     bk_get = \<lambda>d p k. (case map_of d p of None \<Rightarrow> None | Some kvs \<Rightarrow> map_of kvs k),
     bk_put = \<lambda>d p k v. (case map_of d p of None \<Rightarrow> None | Some kvs \<Rightarrow> Some ((p, (k, v) # kvs) # d)),
     bk_delete = \<lambda>d p k. (case map_of d p of None \<Rightarrow> None
        | Some kvs \<Rightarrow> Some ((p, filter (\<lambda>(k', _). k' \<noteq> k) kvs) # d)),
     bk_create = \<lambda>d p n. Some ((p @ [n], []) # d),
     bk_drop = \<lambda>d p n. (if map_of d (p @ [n]) = None then Inl True
        else Inr (filter (\<lambda>(q, _). take (Suc (length p)) q \<noteq> p @ [n]) d)),
     bk_cursor = \<lambda>d p. (case map_of d p of None \<Rightarrow> []
        | Some kvs \<Rightarrow> map (\<lambda>k. (k, map_of kvs k)) (remdups (map fst kvs)) @
            map (\<lambda>n. (n, None)) (remdups (map last (filter (\<lambda>q. q \<noteq> [] \<and> butlast q = p) (map fst d))))),
     bk_keyn = \<lambda>d p. (case map_of d p of None \<Rightarrow> 0 | Some kvs \<Rightarrow> length kvs),
     bk_commit = \<lambda>_. True\<rparr>"

lemma map_of_filter_key: "map_of (filter (\<lambda>(k', _). k' \<noteq> k) kvs) = (map_of kvs)(k := None)"
  by (induction kvs) auto

lemma map_of_filter_path: "map_of (filter (\<lambda>(q, _). Q q) d) q = (if Q q then map_of d q else None)"
  by (induction d) auto

lemma demo_drop_law: "drop_law demo_bolt"
  unfolding drop_law_def demo_bolt_def bolt.simps
  by (auto simp: map_of_filter_path fun_eq_iff split: option.splits)

lemma mem_children: "n \<in> last ` {q \<in> Q. q \<noteq> [] \<and> butlast q = p} \<longleftrightarrow> p @ [n] \<in> Q"
proof
  assume "p @ [n] \<in> Q"
  then show "n \<in> last ` {q \<in> Q. q \<noteq> [] \<and> butlast q = p}"
    by (intro image_eqI [where x = "p @ [n]"]) simp_all
next
  assume "n \<in> last ` {q \<in> Q. q \<noteq> [] \<and> butlast q = p}"
  then obtain q where q: "q \<in> Q" "q \<noteq> []" "butlast q = p" "last q = n" by auto
  have "q = p @ [n]" using append_butlast_last_id [OF q(2)] q(3,4) by simp
  with q(1) show "p @ [n] \<in> Q" by simp
qed

lemma demo_cursor_law: "cursor_law demo_bolt"
proof -
  have "distinct (map fst (bk_cursor demo_bolt d p)) \<and>
      (\<forall>k v. (k, Some v) \<in> set (bk_cursor demo_bolt d p) \<longleftrightarrow> bk_get demo_bolt d p k = Some v) \<and>
      (\<forall>k. (k, None) \<in> set (bk_cursor demo_bolt d p) \<longleftrightarrow> bk_exists demo_bolt d (p @ [k]))"
    if e: "bk_exists demo_bolt d p" and n: "\<forall>k. bk_exists demo_bolt d (p @ [k]) \<longrightarrow> bk_get demo_bolt d p k = None"
    for d p
  proof -
    obtain kvs where kvs: "map_of d p = Some kvs" using e by (auto simp: demo_bolt_def)
    let ?ns = "last ` {q \<in> fst ` set d. q \<noteq> [] \<and> butlast q = p}"
    have ns: "n \<in> ?ns \<longleftrightarrow> p @ [n] \<in> fst ` set d" for n by (rule mem_children)
    have ex: "bk_exists demo_bolt d q \<longleftrightarrow> q \<in> fst ` set d" for q
      by (simp add: demo_bolt_def map_of_eq_None_iff)
    have get: "bk_get demo_bolt d p = map_of kvs" by (simp add: demo_bolt_def kvs fun_eq_iff)
    have cur: "bk_cursor demo_bolt d p = map (\<lambda>k. (k, map_of kvs k)) (remdups (map fst kvs)) @
        map (\<lambda>n. (n, None)) (remdups (map last (filter (\<lambda>q. q \<noteq> [] \<and> butlast q = p) (map fst d))))"
      by (simp add: demo_bolt_def kvs)
    have setc: "set (bk_cursor demo_bolt d p) = (\<lambda>k. (k, map_of kvs k)) ` fst ` set kvs \<union> (\<lambda>n. (n, None)) ` ?ns"
      unfolding cur by simp
    have none: "map_of kvs n = None" if "n \<in> ?ns" for n
      using that n ns ex get by simp
    then have dis: "fst ` set kvs \<inter> ?ns = {}" by (auto simp: map_of_eq_None_iff)
    have fsts: "map fst (bk_cursor demo_bolt d p) = remdups (map fst kvs) @
        remdups (map last (filter (\<lambda>q. q \<noteq> [] \<and> butlast q = p) (map fst d)))"
      unfolding cur by (simp add: comp_def)
    have "distinct (map fst (bk_cursor demo_bolt d p))"
      unfolding fsts using dis by simp
    moreover have "(k, Some v) \<in> set (bk_cursor demo_bolt d p) \<longleftrightarrow> bk_get demo_bolt d p k = Some v" for k v
    proof -
      have "k \<in> fst ` set kvs" if "map_of kvs k = Some v" using map_of_SomeD [OF that] by force
      then show ?thesis unfolding setc get by auto
    qed
    moreover have "(k, None) \<in> set (bk_cursor demo_bolt d p) \<longleftrightarrow> bk_exists demo_bolt d (p @ [k])" for k
    proof -
      have "(k, None) \<notin> (\<lambda>k. (k, map_of kvs k)) ` fst ` set kvs"
      proof
        assume "(k, None) \<in> (\<lambda>k. (k, map_of kvs k)) ` fst ` set kvs"
        then have "k \<in> fst ` set kvs" "map_of kvs k = None" by auto
        then show False by (simp add: map_of_eq_None_iff)
      qed
      then show ?thesis unfolding setc ex ns [symmetric] by blast
    qed
    ultimately show ?thesis by blast
  qed
  then show ?thesis unfolding cursor_law_def by blast
qed

lemma demo_bolt_laws: "bolt_laws demo_bolt"
proof -
  have "put_law demo_bolt" "delete_law demo_bolt" "create_law demo_bolt" "get_law demo_bolt"
    by (auto simp: put_law_def delete_law_def create_law_def get_law_def demo_bolt_def
        map_of_filter_key fun_eq_iff)
  then show ?thesis
    using demo_drop_law demo_cursor_law by (simp add: bolt_laws_def demo_bolt_def)
qed

subsection \<open>Properties\<close>

text \<open>A database opened for the first time and closed opens again with the same passphrase to the
  same cipher, so everything written in between can be read: the second opening changes nothing and
  gives the store the first one gave.\<close>

theorem reopen_same_store:
  assumes "bolt_laws bd" "hkdf_law cr" "aead_law cr"
    and "\<forall>p. \<not> bk_exists bd d p" "\<forall>k. bk_get bd d [] k = None"
    and "run (open_store cr bd d pass) es = Some ((d', r), es')"
  shows "\<exists>s. r = Inr s \<and> bs_db s = d' \<and> open_store cr bd d' pass = Return (d', Inr s)"
proof -
  let ?ns = "[DefaultNamespace, SettingsNamespace, PeersNamespace, SessionsNamespace]"
  have ne: "\<forall>n \<in> set ?ns. n \<noteq> []"
    by (simp add: DefaultNamespace_def SettingsNamespace_def PeersNamespace_def SessionsNamespace_def lit_def)
  obtain d1 where d1: "create_all bd d ?ns = Some d1" "bk_get bd d1 = bk_get bd d"
      "\<forall>p. bk_exists bd d1 p \<longleftrightarrow> p \<in> (\<lambda>n. [n]) ` set ?ns"
    using create_all_ok [OF assms(1), of ?ns d] ne assms(4,5) by auto
  have none: "bk_get bd d p k = None" for p k
    using assms(1,4) by (simp add: bolt_laws_def get_law_def)
  have "read_meta bd d1 = None" by (simp add: read_meta_def Let_def d1(2) none)
  then have missing: "extractCipher cr bd d1 pass = Inl ErrMissingItem" by (simp add: extractCipher_def)
  have ready: "meta_ready bd d1" using d1(3) by (simp add: meta_ready_def)
  from assms(6) obtain c0 where c0: "run (createCipher cr bd d1 pass) es = Some ((d', c0), es')"
      "r = (case c0 of Inl e \<Rightarrow> Inl e | Inr c \<Rightarrow> Inr \<lparr>bs_db = d', bs_cipher = c\<rparr>)"
    unfolding open_store_def d1(1) by (auto simp: missing commit_ok [OF assms(1)] run_bind split: option.splits)
  from yields_run [OF c0(1) createCipher_yields [OF assms(1-3) ready]] obtain c meta where c:
      "c0 = Inr c" "extractCipher cr bd d' pass = Inr (c, meta)" "bk_exists bd d' = bk_exists bd d1" by auto
  have "create_all bd d' ?ns = Some d'" using c(3) d1(3) by simp
  then have "open_store cr bd d' pass = Return (d', Inr \<lparr>bs_db = d', bs_cipher = c\<rparr>)"
    unfolding open_store_def by (simp add: commit_ok [OF assms(1)] c(2) del: create_all.simps)
  then show ?thesis using c0(2) c(1) by simp
qed

lemma live_createCipher [simp]: "live (createCipher cr bd d pass)"
  by (simp add: createCipher_def Encrypt_def split: sum.splits option.splits)

lemma live_open_store [simp]: "live (open_store cr bd d pass)"
  by (simp add: open_store_def del: create_all.simps split: option.splits sum.splits prod.splits)

theorem reopen_same_store_witness:
  "\<exists>es d' s. run (open_store demo_crypto demo_bolt [] (lit ''pass'')) es = Some ((d', Inr s), []) \<and>
     open_store demo_crypto demo_bolt d' (lit ''pass'') = Return (d', Inr s)"
proof -
  obtain es d' r where r: "run (open_store demo_crypto demo_bolt [] (lit ''pass'')) es = Some ((d', r), [])"
    using live_run [OF live_open_store [of demo_crypto demo_bolt "[]" "lit ''pass''"]] by auto
  have h: "hkdf_law demo_crypto" "aead_law demo_crypto" using demo_crypto_laws by (simp_all add: crypto_laws_def)
  have e: "\<forall>p. \<not> bk_exists demo_bolt [] p" "\<forall>k. bk_get demo_bolt [] [] k = None" by (simp_all add: demo_bolt_def)
  from reopen_same_store [OF demo_bolt_laws h e r] r show ?thesis by auto
qed

text \<open>C14. Rotating the passphrase of a store opened with the old one succeeds: the data cipher stays,
  the database opens to it with the new passphrase, and no value but the key-wrapping metadata changes.\<close>

theorem rotation_keeps_data:
  assumes "bolt_laws bd" "hkdf_law cr" "aead_law cr" "meta_ready bd (bs_db s)"
    and "extractCipher cr bd (bs_db s) old = Inr (bs_cipher s, meta)"
    and "run (RotatePassphrase cr bd s old new) es = Some ((s', r), es')"
  shows "r = Inr () \<and> bs_cipher s' = bs_cipher s \<and>
     (\<exists>meta'. extractCipher cr bd (bs_db s') new = Inr (bs_cipher s, meta')) \<and>
     user_data bd (bs_db s') = user_data bd (bs_db s)"
  using yields_run [OF assms(6) rotate_yields [OF assms(1-5)]] by auto

lemma live_RotatePassphrase [simp]: "live (RotatePassphrase cr bd s old new)"
  by (simp add: RotatePassphrase_def Encrypt_def split: sum.splits option.splits prod.splits)

theorem rotation_keeps_data_witness:
  "\<exists>s meta es s'. extractCipher demo_crypto demo_bolt (bs_db s) (lit ''old'') = Inr (bs_cipher s, meta) \<and>
     run (RotatePassphrase demo_crypto demo_bolt s (lit ''old'') (lit ''new'')) es = Some ((s', Inr ()), []) \<and>
     (\<exists>meta'. extractCipher demo_crypto demo_bolt (bs_db s') (lit ''new'') = Inr (bs_cipher s, meta'))"
proof -
  let ?d = "[([DefaultNamespace], [])] :: demo_db"
  have h: "hkdf_law demo_crypto" "aead_law demo_crypto" using demo_crypto_laws by (simp_all add: crypto_laws_def)
  have ready: "meta_ready demo_bolt ?d" by (simp add: meta_ready_def demo_bolt_def)
  obtain es d1 r where run1: "run (createCipher demo_crypto demo_bolt ?d (lit ''old'')) es = Some ((d1, r), [])"
    using live_run [OF live_createCipher [of demo_crypto demo_bolt ?d "lit ''old''"]] by auto
  from yields_run [OF this createCipher_yields [OF demo_bolt_laws h ready]] obtain c meta where c:
      "extractCipher demo_crypto demo_bolt d1 (lit ''old'') = Inr (c, meta)"
      "bk_exists demo_bolt d1 = bk_exists demo_bolt ?d" by auto
  let ?s = "\<lparr>bs_db = d1, bs_cipher = c\<rparr>"
  have s: "meta_ready demo_bolt (bs_db ?s)" "extractCipher demo_crypto demo_bolt (bs_db ?s) (lit ''old'') = Inr (bs_cipher ?s, meta)"
    using c ready by (simp_all add: meta_ready_def)
  obtain es' s' r' where run2:
      "run (RotatePassphrase demo_crypto demo_bolt ?s (lit ''old'') (lit ''new'')) es' = Some ((s', r'), [])"
    using live_run [OF live_RotatePassphrase [of demo_crypto demo_bolt ?s "lit ''old''" "lit ''new''"]] by auto
  from rotation_keeps_data [OF demo_bolt_laws h s run2] run2 s(2) show ?thesis by blast
qed

end
