(* ===== verification/Refinement.thy ===== *)
theory Refinement
  imports Process
begin

text \<open>
  The contract between a stateful component and its specification: the component is a process per
  operation, the specification a function on abstract states. When every single operation keeps the
  invariant and matches the specification, so does every sequence of operations.
\<close>

fun perform :: "('s \<Rightarrow> 'o \<Rightarrow> ('s \<times> 'r) io) \<Rightarrow> 's \<Rightarrow> 'o list \<Rightarrow> ('s \<times> 'r list) io" where
  "perform exec s [] = Return (s, [])"
| "perform exec s (x # xs) =
     io_bind (exec s x) (\<lambda>(s', r). io_bind (perform exec s' xs) (\<lambda>(s'', rs). Return (s'', r # rs)))"

fun spec_perform :: "('a \<Rightarrow> 'o \<Rightarrow> 'a \<times> 'r) \<Rightarrow> 'a \<Rightarrow> 'o list \<Rightarrow> 'a \<times> 'r list" where
  "spec_perform spec a [] = (a, [])"
| "spec_perform spec a (x # xs) =
     (let (a', r) = spec a x; (a'', rs) = spec_perform spec a' xs in (a'', r # rs))"

locale implements =
  fixes exec :: "'s \<Rightarrow> 'o \<Rightarrow> ('s \<times> 'r) io"
    and spec :: "'a \<Rightarrow> 'o \<Rightarrow> 'a \<times> 'r"
    and abs :: "'s \<Rightarrow> 'a"
    and inv :: "'s \<Rightarrow> bool"
    and allowed :: "'o \<Rightarrow> bool"
  assumes one: "inv s \<Longrightarrow> allowed x \<Longrightarrow> yields (exec s x) (\<lambda>(s', r). inv s' \<and> spec (abs s) x = (abs s', r))"
begin

lemma all:
  "inv s \<Longrightarrow> list_all allowed xs \<Longrightarrow>
     yields (perform exec s xs) (\<lambda>(s', rs). inv s' \<and> spec_perform spec (abs s) xs = (abs s', rs))"
proof (induction xs arbitrary: s)
  case (Cons x xs)
  show ?case
    unfolding perform.simps
  proof (rule yields_bind [OF one [OF Cons.prems(1)]], use Cons.prems in simp)
    fix z
    assume z: "case z of (s', r) \<Rightarrow> inv s' \<and> spec (abs s) x = (abs s', r)"
    obtain s' r where zz: "z = (s', r)" by force
    from z have "inv s'" "spec (abs s) x = (abs s', r)" by (simp_all add: zz)
    with Cons show "yields (case z of (s', r) \<Rightarrow> io_bind (perform exec s' xs) (\<lambda>(s'', rs). Return (s'', r # rs)))
        (\<lambda>(s', rs). inv s' \<and> spec_perform spec (abs s) (x # xs) = (abs s', rs))"
      unfolding zz prod.case by (intro yields_bind [OF Cons.IH]) auto
  qed
qed simp

end

end
