(* ===== verification/Storage.thy ===== *)
theory Storage
  imports Engine Transport Refinement "HOL-Library.Multiset"
begin

text \<open>
  The typed store of pkg/storage over the engine: the local identity and the peers (storage.go,
  peer.go), the metadata and packed token lists of a session (session.go), chat histories, session
  names and application settings (storage.go). Every operation takes the store and returns it with
  its result; the clock and the random source are calls of the process.
\<close>

subsection \<open>The store\<close>

record 'd storage =
  sto_engine :: "'d bolt_store"
  sto_expiry :: duration

definition sto_Command ::
  "'d bolt \<Rightarrow> 'd storage \<Rightarrow> ('d \<Rightarrow> ('d \<times> (serr + 'a)) io) \<Rightarrow> ('d storage \<times> (serr + 'a)) io" where
  "sto_Command bd s f =
     io_bind (Command bd (sto_engine s) f) (\<lambda>(e, r). Return (s\<lparr>sto_engine := e\<rparr>, r))"

definition sto_Query :: "'d storage \<Rightarrow> ('d \<Rightarrow> serr + 'a) \<Rightarrow> serr + 'a" where
  "sto_Query s f = Query (sto_engine s) f"

abbreviation sto_cipher :: "'d storage \<Rightarrow> enigma" where
  "sto_cipher s \<equiv> bs_cipher (sto_engine s)"

abbreviation sto_db :: "'d storage \<Rightarrow> 'd" where
  "sto_db s \<equiv> bs_db (sto_engine s)"

definition isMissing :: "serr \<Rightarrow> bool" where
  "isMissing e \<longleftrightarrow> e = ErrMissingItem \<or> e = ErrMissingNamespace"

definition attestKey :: bytes where "attestKey = lit ''attest''"
definition sessionMetaKey :: bytes where "sessionMetaKey = lit ''name''"
definition chatName :: bytes where "chatName = lit ''chat''"
definition metaName :: bytes where "metaName = lit ''meta''"
definition valueMagic :: bytes where "valueMagic = lit ''KMNE'' @ [1]"

definition top_namespace :: "'d bolt \<Rightarrow> 'd \<Rightarrow> bytes \<Rightarrow> namespace" where
  "top_namespace bd d name = ns_Sub bd d root_namespace name"

definition sessionChat :: "'d bolt \<Rightarrow> 'd \<Rightarrow> bytes \<Rightarrow> namespace" where
  "sessionChat bd d sid =
     ns_Sub bd d (ns_Sub bd d (ns_Sub bd d root_namespace SessionsNamespace) sid) chatName"

definition sessionMeta :: "'d bolt \<Rightarrow> 'd \<Rightarrow> bytes \<Rightarrow> namespace" where
  "sessionMeta bd d sid =
     ns_Sub bd d (ns_Sub bd d (ns_Sub bd d root_namespace SessionsNamespace) sid) metaName"

text \<open>The local identity: loaded, or made and stored on first use.\<close>

definition Attester :: "crypto \<Rightarrow> 'd bolt \<Rightarrow> 'd storage \<Rightarrow> ('d storage \<times> (serr + attest)) io" where
  "Attester cr bd s =
     (case sto_Query s (\<lambda>d. ns_GetEncrypted cr bd (sto_cipher s) d (top_namespace bd d DefaultNamespace) attestKey) of
        Inr i \<Rightarrow> Return (s, case attest_Load cr i of Inl e \<Rightarrow> Inl (ErrKey e) | Inr at \<Rightarrow> Inr at)
      | Inl e \<Rightarrow>
          if e \<noteq> ErrMissingItem then Return (s, Inl e)
          else io_bind (attest_New cr) (\<lambda>at.
            io_bind (sto_Command bd s (\<lambda>d.
                let (d', ns) = ns_Ensure bd d root_namespace DefaultNamespace
                in ns_PutEncrypted cr bd (sto_cipher s) d' ns attestKey (MarshalPrivateKey cr at)))
              (\<lambda>(s', r). Return (s', case r of Inl e \<Rightarrow> Inl e | Inr _ \<Rightarrow> Inr at))))"

definition storage_PublicKey :: "crypto \<Rightarrow> 'd bolt \<Rightarrow> 'd storage \<Rightarrow> ('d storage \<times> (serr + bytes)) io" where
  "storage_PublicKey cr bd s =
     io_bind (Attester cr bd s) (\<lambda>(s', r).
       Return (s', case r of Inl e \<Rightarrow> Inl e | Inr at \<Rightarrow> Inr (MarshalPublicKey cr at)))"

subsection \<open>Peers\<close>

definition peerKey :: "crypto \<Rightarrow> bytes \<Rightarrow> bytes" where
  "peerKey cr claim = sha3_512 cr claim"

text \<open>\<^verbatim>\<open>AsTime\<close> of an absent timestamp is the epoch; an absent \<^verbatim>\<open>LastSeen\<close> is the zero time.\<close>

definition as_time :: "gotime option \<Rightarrow> gotime" where
  "as_time t = (case t of None \<Rightarrow> 0 | Some x \<Rightarrow> x)"

definition peer_of_pb :: "pb_peer \<Rightarrow> peer" where
  "peer_of_pb p = \<lparr>FirstSeen = as_time (pp_FirstSeen p),
     LastSeen = (case pp_LastSeen p of None \<Rightarrow> zero_time | Some t \<Rightarrow> t),
     Name = pp_Name p, AppVersionOf = pp_AppVersion p, PublicKey = pp_PublicKey p\<rparr>"

definition peer_expired :: "'d storage \<Rightarrow> pb_peer \<Rightarrow> gotime \<Rightarrow> bool" where
  "peer_expired s p now \<longleftrightarrow> as_time (pp_FirstSeen p) + sto_expiry s < now"

text \<open>\<^verbatim>\<open>findPeer\<close> on the database of the surrounding transaction. Removing an expired peer takes a
  write transaction of its own, and the database has one writer: inside another write transaction
  (\<open>writing\<close>) the call waits for itself.\<close>

definition findPeer ::
  "crypto \<Rightarrow> wire \<Rightarrow> 'd bolt \<Rightarrow> 'd storage \<Rightarrow> bool \<Rightarrow> 'd \<Rightarrow> bytes \<Rightarrow> ('d storage \<times> (serr + peer)) io" where
  "findPeer cr wr bd s writing d key =
     (case ns_GetEncrypted cr bd (sto_cipher s) d (top_namespace bd d PeersNamespace) key of
        Inl e \<Rightarrow> Return (s, Inl e)
      | Inr data \<Rightarrow>
     (case dec (w_peer wr) data of
        None \<Rightarrow> Return (s, Inl ErrPeerFormat)
      | Some p \<Rightarrow>
          Now (\<lambda>now.
            if peer_expired s p now then
              (if writing then Hang
               else io_bind (sto_Command bd s (\<lambda>d'. Return (ns_Delete bd d' (top_namespace bd d' PeersNamespace) key)))
                      (\<lambda>(s', _). Return (s', Inl ErrPeerExpired)))
            else Return (s, Inr (peer_of_pb p)))))"

definition FindPeer ::
  "crypto \<Rightarrow> wire \<Rightarrow> 'd bolt \<Rightarrow> 'd storage \<Rightarrow> bytes \<Rightarrow> ('d storage \<times> (serr + peer)) io" where
  "FindPeer cr wr bd s claim = findPeer cr wr bd s False (sto_db s) (peerKey cr claim)"

definition StorePeer ::
  "crypto \<Rightarrow> wire \<Rightarrow> 'd bolt \<Rightarrow> 'd storage \<Rightarrow> peer \<Rightarrow> ('d storage \<times> (serr + unit)) io" where
  "StorePeer cr wr bd s p =
     (if length (PublicKey p) \<noteq> 44 then Return (s, Inl ErrInvalidPublicKey)
      else Now (\<lambda>now.
        let firstSeen = (if FirstSeen p = zero_time then now else FirstSeen p);
            lastSeen = (if LastSeen p = zero_time then now else LastSeen p)
        in case enc (w_peer wr) \<lparr>pp_Name = Name p, pp_PublicKey = PublicKey p, pp_FirstSeen = Some firstSeen,
                  pp_LastSeen = Some lastSeen, pp_AppVersion = AppVersionOf p\<rparr> of
             None \<Rightarrow> Return (s, Inl ErrPeerFormat)
           | Some data \<Rightarrow>
               sto_Command bd s (\<lambda>d.
                 ns_PutEncrypted cr bd (sto_cipher s) d (top_namespace bd d PeersNamespace)
                   (peerKey cr (PublicKey p)) data)))"

definition UpdatePeerLastSeen ::
  "crypto \<Rightarrow> wire \<Rightarrow> 'd bolt \<Rightarrow> 'd storage \<Rightarrow> bytes \<Rightarrow> gotime \<Rightarrow> ('d storage \<times> (serr + unit)) io" where
  "UpdatePeerLastSeen cr wr bd s claim t =
     (let key = peerKey cr claim in
      case sto_Query s (\<lambda>d. ns_GetEncrypted cr bd (sto_cipher s) d (top_namespace bd d PeersNamespace) key) of
        Inl e \<Rightarrow> Return (s, if isMissing e then Inr () else Inl e)
      | Inr data \<Rightarrow>
     (case dec (w_peer wr) data of
        None \<Rightarrow> Return (s, Inl ErrPeerFormat)
      | Some p \<Rightarrow>
          io_bind (if t = zero_time then Now Return else Return t) (\<lambda>t'.
          case enc (w_peer wr) (p\<lparr>pp_LastSeen := Some t'\<rparr>) of
            None \<Rightarrow> Return (s, Inl ErrPeerFormat)
          | Some updated \<Rightarrow>
              sto_Command bd s (\<lambda>d.
                ns_PutEncrypted cr bd (sto_cipher s) d (top_namespace bd d PeersNamespace) key updated))))"

definition DeletePeer :: "crypto \<Rightarrow> 'd bolt \<Rightarrow> 'd storage \<Rightarrow> bytes \<Rightarrow> ('d storage \<times> (serr + unit)) io" where
  "DeletePeer cr bd s claim =
     sto_Command bd s (\<lambda>d. Return (ns_Delete bd d (top_namespace bd d PeersNamespace) (peerKey cr claim)))"

text \<open>The two loops of \<^verbatim>\<open>ListPeers\<close>: the entries split into live peers and expired keys, reading the
  clock for each; then one write transaction per expired key, failures ignored.\<close>

fun split_peers :: "wire \<Rightarrow> 'd storage \<Rightarrow> (bytes \<times> bytes) list \<Rightarrow> (peer list \<times> bytes list) io" where
  "split_peers wr s [] = Return ([], [])"
| "split_peers wr s ((key, v) # rest) =
     (case dec (w_peer wr) v of
        None \<Rightarrow> split_peers wr s rest
      | Some p \<Rightarrow>
          Now (\<lambda>now. io_bind (split_peers wr s rest) (\<lambda>(peers, expired). Return (
            if peer_expired s p now then (peers, key # expired) else (peer_of_pb p # peers, expired)))))"

fun remove_expired :: "'d bolt \<Rightarrow> 'd storage \<Rightarrow> bytes list \<Rightarrow> 'd storage io" where
  "remove_expired bd s [] = Return s"
| "remove_expired bd s (key # keys) =
     io_bind (sto_Command bd s (\<lambda>d. Return (ns_Delete bd d (top_namespace bd d PeersNamespace) key)))
       (\<lambda>(s', _). remove_expired bd s' keys)"

definition ListPeers ::
  "crypto \<Rightarrow> wire \<Rightarrow> 'd bolt \<Rightarrow> 'd storage \<Rightarrow> ('d storage \<times> (serr + peer list)) io" where
  "ListPeers cr wr bd s =
     io_bind (split_peers wr s
         (ns_IterateEncrypted cr bd (sto_cipher s) (sto_db s) (top_namespace bd (sto_db s) PeersNamespace)))
       (\<lambda>(peers, expired). io_bind (remove_expired bd s expired) (\<lambda>s'. Return (s', Inr peers)))"

subsection \<open>Packed lists\<close>

definition ElemSize :: nat where "ElemSize = 32"

text \<open>\<^verbatim>\<open>copy(dst[off:], src)\<close>.\<close>

definition copy_at :: "bytes \<Rightarrow> nat \<Rightarrow> bytes \<Rightarrow> bytes" where
  "copy_at dst off src = take off dst @ take (length dst - off) src @ drop (off + length src) dst"

fun pack_items :: "nat \<Rightarrow> bytes \<Rightarrow> bytes list \<Rightarrow> bytes" where
  "pack_items i data [] = data"
| "pack_items i data (item # items) = pack_items (Suc i) (copy_at data (4 + i * ElemSize) item) items"

definition serializeList :: "bytes list \<Rightarrow> bytes" where
  "serializeList xs =
     pack_items 0 (put_uint32 (of_nat (length xs)) @ replicate (length xs * ElemSize) 0) xs"

definition deserializeList :: "bytes \<Rightarrow> serr + bytes list" where
  "deserializeList data =
     (if length data < 4 then Inr []
      else let count = unat (get_uint32 data) in
        if 4 + count * ElemSize \<noteq> length data then Inl ErrNotFound
        else Inr (map (\<lambda>i. take ElemSize (drop (4 + i * ElemSize) data)) [0..<count]))"

fun index_of :: "bytes \<Rightarrow> bytes list \<Rightarrow> nat option" where
  "index_of x [] = None"
| "index_of x (y # ys) = (if y = x then Some 0 else map_option Suc (index_of x ys))"

text \<open>The entry is overwritten by the last one and the list cut by one.\<close>

definition drop_entry :: "bytes \<Rightarrow> bytes list \<Rightarrow> bytes list option" where
  "drop_entry x xs = map_option (\<lambda>i. butlast (xs[i := last xs])) (index_of x xs)"

subsection \<open>Session metadata\<close>

text \<open>A \<^verbatim>\<open>Meta\<close>. A nil value is the empty one: opening the ciphertext of an empty value gives nil.\<close>

record meta =
  m_key :: bytes
  m_value :: bytes

definition NewBytesMeta :: "bytes \<Rightarrow> bytes \<Rightarrow> meta" where
  "NewBytesMeta key v = \<lparr>m_key = key, m_value = v\<rparr>"

definition NewByteSlicesMeta :: "bytes \<Rightarrow> bytes list \<Rightarrow> meta" where
  "NewByteSlicesMeta key xs = \<lparr>m_key = key, m_value = serializeList xs\<rparr>"

definition PeerKey :: bytes where "PeerKey = lit ''peer''"
definition EstablishedAtKey :: bytes where "EstablishedAtKey = lit ''established_at''"
definition ResumptionTokensKey :: bytes where "ResumptionTokensKey = lit ''resumption_tokens''"
definition RelayTokensKey :: bytes where "RelayTokensKey = lit ''relay_tokens''"

text \<open>\<^verbatim>\<open>UnixNano\<close> wraps to 64 bits; \<^verbatim>\<open>time.Unix(0, n)\<close> reads them as signed.\<close>

definition unix_nano :: "gotime \<Rightarrow> 64 word" where
  "unix_nano t = word_of_int t"

definition from_nano :: "64 word \<Rightarrow> gotime" where
  "from_nano w = sint w"

definition CreateSession ::
  "crypto \<Rightarrow> wire \<Rightarrow> 'd bolt \<Rightarrow> 'd storage \<Rightarrow> bytes \<Rightarrow> bytes \<Rightarrow> ('d storage \<times> (serr + unit)) io" where
  "CreateSession cr wr bd s sid pub =
     sto_Command bd s (\<lambda>d.
       io_bind (findPeer cr wr bd s True d (peerKey cr pub)) (\<lambda>(_, r).
       case r of
         Inl e \<Rightarrow> Return (d, Inl e)
       | Inr p \<Rightarrow>
           (let (d1, sessions) = ns_Ensure bd d root_namespace SessionsNamespace;
                (d2, session) = ns_Ensure bd d1 sessions sid;
                (d3, meta) = ns_Ensure bd d2 session metaName;
                (d4, _) = ns_Ensure bd d3 session chatName
            in io_bind (ns_PutEncrypted cr bd (sto_cipher s) d4 meta PeerKey (PublicKey p)) (\<lambda>(d5, r1).
               case r1 of
                 Inl e \<Rightarrow> Return (d5, Inl e)
               | Inr _ \<Rightarrow>
                   Now (\<lambda>now. ns_PutEncrypted cr bd (sto_cipher s) d5 meta EstablishedAtKey
                                (put_uint64 (unix_nano now)))))))"

definition GetMeta :: "crypto \<Rightarrow> 'd bolt \<Rightarrow> 'd storage \<Rightarrow> bytes \<Rightarrow> bytes \<Rightarrow> serr + meta" where
  "GetMeta cr bd s sid key =
     (case sto_Query s (\<lambda>d. ns_GetEncrypted cr bd (sto_cipher s) d (sessionMeta bd d sid) key) of
        Inl e \<Rightarrow> if isMissing e then Inr \<lparr>m_key = [], m_value = []\<rparr> else Inl e
      | Inr v \<Rightarrow> Inr (NewBytesMeta key v))"

definition SetMeta ::
  "crypto \<Rightarrow> 'd bolt \<Rightarrow> 'd storage \<Rightarrow> bytes \<Rightarrow> meta \<Rightarrow> ('d storage \<times> (serr + unit)) io" where
  "SetMeta cr bd s sid m =
     sto_Command bd s (\<lambda>d. ns_PutEncrypted cr bd (sto_cipher s) d (sessionMeta bd d sid) (m_key m) (m_value m))"

definition DeleteMeta :: "'d bolt \<Rightarrow> 'd storage \<Rightarrow> bytes \<Rightarrow> bytes \<Rightarrow> ('d storage \<times> (serr + unit)) io" where
  "DeleteMeta bd s sid key =
     sto_Command bd s (\<lambda>d. Return (ns_Delete bd d (sessionMeta bd d sid) key))"

definition GetPeer ::
  "crypto \<Rightarrow> wire \<Rightarrow> 'd bolt \<Rightarrow> 'd storage \<Rightarrow> bytes \<Rightarrow> ('d storage \<times> (serr + peer)) io" where
  "GetPeer cr wr bd s sid =
     (case GetMeta cr bd s sid PeerKey of
        Inl e \<Rightarrow> Return (s, Inl e)
      | Inr m \<Rightarrow>
          if m_value m = [] then Return (s, Inl ErrSessionNotFound)
          else findPeer cr wr bd s False (sto_db s) (peerKey cr (m_value m)))"

definition GetEstablishedAt :: "crypto \<Rightarrow> 'd bolt \<Rightarrow> 'd storage \<Rightarrow> bytes \<Rightarrow> serr + gotime" where
  "GetEstablishedAt cr bd s sid =
     (case GetMeta cr bd s sid EstablishedAtKey of
        Inl e \<Rightarrow> Inl e
      | Inr m \<Rightarrow>
          if length (m_value m) < 8 then Inl ErrSessionNotFound
          else Inr (from_nano (get_uint64 (m_value m))))"

definition missing_not_found :: "serr + 'a \<Rightarrow> serr + 'a" where
  "missing_not_found r = (case r of Inl e \<Rightarrow> Inl (if isMissing e then ErrNotFound else e) | Inr x \<Rightarrow> Inr x)"

definition PopList ::
  "crypto \<Rightarrow> 'd bolt \<Rightarrow> 'd storage \<Rightarrow> bytes \<Rightarrow> bytes \<Rightarrow> ('d storage \<times> (serr + bytes)) io" where
  "PopList cr bd s sid key =
     io_bind (sto_Command bd s (\<lambda>d.
       let meta = sessionMeta bd d sid in
       case ns_GetEncrypted cr bd (sto_cipher s) d meta key of
         Inl e \<Rightarrow> Return (d, Inl e)
       | Inr data \<Rightarrow>
           (case deserializeList data of
              Inl e \<Rightarrow> Return (d, Inl e)
            | Inr [] \<Rightarrow> Return (d, Inl ErrNotFound)
            | Inr (entry # rest) \<Rightarrow>
                io_bind (ns_PutEncrypted cr bd (sto_cipher s) d meta key (serializeList rest)) (\<lambda>(d', r).
                  Return (d', case r of Inl e \<Rightarrow> Inl e | Inr _ \<Rightarrow> Inr entry)))))
       (\<lambda>(s', r). Return (s', missing_not_found r))"

definition RemoveListItem ::
  "crypto \<Rightarrow> 'd bolt \<Rightarrow> 'd storage \<Rightarrow> bytes \<Rightarrow> bytes \<Rightarrow> bytes \<Rightarrow> ('d storage \<times> (serr + unit)) io" where
  "RemoveListItem cr bd s sid key entry =
     io_bind (sto_Command bd s (\<lambda>d.
       let meta = sessionMeta bd d sid in
       case ns_GetEncrypted cr bd (sto_cipher s) d meta key of
         Inl e \<Rightarrow> Return (d, Inl e)
       | Inr data \<Rightarrow>
           (case deserializeList data of
              Inl e \<Rightarrow> Return (d, Inl e)
            | Inr xs \<Rightarrow>
                (case drop_entry entry xs of
                   None \<Rightarrow> Return (d, Inl ErrNotFound)
                 | Some ys \<Rightarrow> ns_PutEncrypted cr bd (sto_cipher s) d meta key (serializeList ys)))))
       (\<lambda>(s', r). Return (s', missing_not_found r))"

subsection \<open>The layout of the database\<close>

text \<open>The four top buckets, and below the sessions one bucket per session with its metadata and chat;
  no values elsewhere than in the leaves.\<close>

definition meta_path :: "bytes \<Rightarrow> bytes list" where
  "meta_path sid = [SessionsNamespace, sid, metaName]"

definition chat_path :: "bytes \<Rightarrow> bytes list" where
  "chat_path sid = [SessionsNamespace, sid, chatName]"

definition top_names :: "bytes set" where
  "top_names = {DefaultNamespace, SettingsNamespace, PeersNamespace, SessionsNamespace}"

definition inner :: "bytes list \<Rightarrow> bool" where
  "inner p \<longleftrightarrow> p = [] \<or> p = [SessionsNamespace] \<or> (\<exists>sid. p = [SessionsNamespace, sid])"

definition layout :: "'d bolt \<Rightarrow> 'd \<Rightarrow> bool" where
  "layout bd d \<longleftrightarrow>
     (\<forall>n \<in> top_names. bk_exists bd d [n]) \<and>
     (\<forall>p. bk_exists bd d p \<longrightarrow> (\<exists>n \<in> top_names. p = [n]) \<or>
        (\<exists>sid. p = [SessionsNamespace, sid] \<or> p = meta_path sid \<or> p = chat_path sid)) \<and>
     (\<forall>sid. bk_exists bd d (meta_path sid) \<longleftrightarrow> bk_exists bd d [SessionsNamespace, sid]) \<and>
     (\<forall>sid. bk_exists bd d (chat_path sid) \<longleftrightarrow> bk_exists bd d [SessionsNamespace, sid]) \<and>
     (\<forall>p k. inner p \<longrightarrow> bk_get bd d p k = None)"

lemmas path_defs = meta_path_def chat_path_def inner_def

lemma names_distinct [simp]:
  "DefaultNamespace \<noteq> SessionsNamespace" "SettingsNamespace \<noteq> SessionsNamespace" "PeersNamespace \<noteq> SessionsNamespace"
  "DefaultNamespace \<noteq> PeersNamespace" "SettingsNamespace \<noteq> PeersNamespace" "DefaultNamespace \<noteq> SettingsNamespace"
  "metaName \<noteq> chatName" "chatName \<noteq> metaName" "metaName \<noteq> []" "chatName \<noteq> []" "SessionsNamespace \<noteq> []"
  by (simp_all add: DefaultNamespace_def SettingsNamespace_def PeersNamespace_def SessionsNamespace_def
      metaName_def chatName_def lit_def)

lemma sessionMeta_eq:
  "layout bd d \<Longrightarrow> sessionMeta bd d sid =
     (if bk_exists bd d [SessionsNamespace, sid] then Namespace (meta_path sid) else NilNamespace)"
  by (auto simp: layout_def sessionMeta_def root_namespace_def top_names_def meta_path_def)

lemma sessionChat_eq:
  "layout bd d \<Longrightarrow> sessionChat bd d sid =
     (if bk_exists bd d [SessionsNamespace, sid] then Namespace (chat_path sid) else NilNamespace)"
  by (auto simp: layout_def sessionChat_def root_namespace_def top_names_def chat_path_def)

lemma top_namespace_eq: "layout bd d \<Longrightarrow> n \<in> top_names \<Longrightarrow> top_namespace bd d n = Namespace [n]"
  by (auto simp: layout_def top_namespace_def root_namespace_def)

lemma layout_leaf:
  assumes "layout bd d"
  shows "\<not> bk_exists bd d (meta_path sid @ [k])" "\<not> bk_exists bd d (chat_path sid @ [k])"
    "n \<noteq> SessionsNamespace \<Longrightarrow> \<not> bk_exists bd d [n, k]"
  using assms unfolding layout_def by (auto simp: path_defs)

lemma plain_None: "plain cr bd c d p k = None \<longleftrightarrow> bk_get bd d p k = None"
  by (simp add: plain_def)

lemma layout_upd:
  assumes "layout bd d" "bk_exists bd d' = bk_exists bd d"
    and "plain cr bd c d' = (plain cr bd c d)(p := m)" "\<not> inner p"
  shows "layout bd d'"
proof -
  have "bk_get bd d' q k = None" if "inner q" for q k
  proof -
    have "q \<noteq> p" using that assms(4) by blast
    then have "plain cr bd c d' q k = plain cr bd c d q k" using assms(3) by simp
    moreover have "plain cr bd c d q k = None" using assms(1) that by (simp add: plain_None layout_def)
    ultimately have "plain cr bd c d' q k = None" by simp
    then show ?thesis unfolding plain_None .
  qed
  then show ?thesis using assms(1) unfolding layout_def assms(2) by blast
qed

lemma not_inner [simp]: "\<not> inner (meta_path sid)" "\<not> inner (chat_path sid)" "\<not> inner [PeersNamespace]"
  "\<not> inner [SettingsNamespace]" "\<not> inner [DefaultNamespace]"
  by (simp_all add: path_defs)

lemma path_nonempty [simp]: "meta_path sid \<noteq> []" "chat_path sid \<noteq> []"
  by (simp_all add: path_defs)

lemma path_inject [simp]: "meta_path a = meta_path b \<longleftrightarrow> a = b" "chat_path a = chat_path b \<longleftrightarrow> a = b"
  "meta_path a \<noteq> chat_path b" "chat_path a \<noteq> meta_path b" "meta_path a \<noteq> [n]" "chat_path a \<noteq> [n]"
  by (auto simp: path_defs)

lemma sto_Command_yields:
  assumes "bolt_laws bd" "yields (f (sto_db s)) P"
    and "\<And>d e. P (d, Inl e) \<Longrightarrow> Q (s, Inl e)"
    and "\<And>d x. P (d, Inr x) \<Longrightarrow> Q (s\<lparr>sto_engine := (sto_engine s)\<lparr>bs_db := d\<rparr>\<rparr>, Inr x)"
  shows "yields (sto_Command bd s f) Q"
  unfolding sto_Command_def Command_def io_bind_assoc
proof (rule yields_bind [OF assms(2)])
  fix z assume z: "P z"
  obtain d r where "z = (d, r)" by force
  with z assms(1,3,4) show "yields (io_bind (case z of (d, r) \<Rightarrow> Return (case r of
         Inl e \<Rightarrow> (sto_engine s, Inl e)
       | Inr x \<Rightarrow> if bk_commit bd d then ((sto_engine s)\<lparr>bs_db := d\<rparr>, Inr x) else (sto_engine s, Inl ErrBolt)))
      (\<lambda>(e, r). Return (s\<lparr>sto_engine := e\<rparr>, r))) Q"
    by (cases r) (auto simp: commit_ok)
qed

subsection \<open>Session metadata as plain maps\<close>

text \<open>What the metadata operations promise, with encryption, buckets and transactions taken away: a
  session has a map from keys to values, a value that does not decrypt being an error.\<close>

type_synonym meta_state = "bytes \<Rightarrow> (bytes \<Rightarrow> (kerror + bytes) option) option"

definition metas :: "crypto \<Rightarrow> 'd bolt \<Rightarrow> 'd storage \<Rightarrow> meta_state" where
  "metas cr bd s sid =
     (if bk_exists bd (sto_db s) [SessionsNamespace, sid]
      then Some (plain cr bd (sto_cipher s) (sto_db s) (meta_path sid)) else None)"

definition spec_get :: "meta_state \<Rightarrow> bytes \<Rightarrow> bytes \<Rightarrow> serr + bytes" where
  "spec_get m sid k =
     (case m sid of
        None \<Rightarrow> Inl ErrMissingNamespace
      | Some f \<Rightarrow> (case f k of
            None \<Rightarrow> Inl ErrMissingItem | Some (Inl e) \<Rightarrow> Inl (ErrDecrypt e) | Some (Inr x) \<Rightarrow> Inr x))"

definition spec_set :: "meta_state \<Rightarrow> bytes \<Rightarrow> bytes \<Rightarrow> bytes \<Rightarrow> meta_state" where
  "spec_set m sid k v = m(sid := map_option (\<lambda>f. f(k \<mapsto> Inr v)) (m sid))"

datatype meta_op =
    OpGet bytes bytes | OpSet bytes bytes bytes | OpDelete bytes bytes
  | OpPop bytes bytes | OpRemove bytes bytes bytes

datatype meta_result = GotMeta "serr + meta" | Did "serr + unit" | Popped "serr + bytes"

fun meta_op_ok :: "meta_op \<Rightarrow> bool" where
  "meta_op_ok (OpGet sid k) = True"
| "meta_op_ok (OpSet sid k v) = key_ok k"
| "meta_op_ok (OpDelete sid k) = True"
| "meta_op_ok (OpPop sid k) = key_ok k"
| "meta_op_ok (OpRemove sid k x) = key_ok k"

fun spec_meta :: "meta_state \<Rightarrow> meta_op \<Rightarrow> meta_state \<times> meta_result" where
  "spec_meta m (OpGet sid k) =
     (m, GotMeta (case spec_get m sid k of
        Inl e \<Rightarrow> if isMissing e then Inr \<lparr>m_key = [], m_value = []\<rparr> else Inl e
      | Inr v \<Rightarrow> Inr \<lparr>m_key = k, m_value = v\<rparr>))"
| "spec_meta m (OpSet sid k v) =
     (if m sid = None then (m, Did (Inl ErrMissingNamespace)) else (spec_set m sid k v, Did (Inr ())))"
| "spec_meta m (OpDelete sid k) =
     (case m sid of
        None \<Rightarrow> (m, Did (Inl ErrMissingNamespace))
      | Some f \<Rightarrow> (m(sid \<mapsto> f(k := None)), Did (Inr ())))"
| "spec_meta m (OpPop sid k) =
     (case spec_get m sid k of
        Inl e \<Rightarrow> (m, Popped (missing_not_found (Inl e)))
      | Inr data \<Rightarrow> (case deserializeList data of
            Inl e \<Rightarrow> (m, Popped (Inl e))
          | Inr [] \<Rightarrow> (m, Popped (Inl ErrNotFound))
          | Inr (x # xs) \<Rightarrow> (spec_set m sid k (serializeList xs), Popped (Inr x))))"
| "spec_meta m (OpRemove sid k x) =
     (case spec_get m sid k of
        Inl e \<Rightarrow> (m, Did (missing_not_found (Inl e)))
      | Inr data \<Rightarrow> (case deserializeList data of
            Inl e \<Rightarrow> (m, Did (Inl e))
          | Inr xs \<Rightarrow> (case drop_entry x xs of
                None \<Rightarrow> (m, Did (Inl ErrNotFound))
              | Some ys \<Rightarrow> (spec_set m sid k (serializeList ys), Did (Inr ())))))"

fun exec_meta :: "crypto \<Rightarrow> 'd bolt \<Rightarrow> 'd storage \<Rightarrow> meta_op \<Rightarrow> ('d storage \<times> meta_result) io" where
  "exec_meta cr bd s (OpGet sid k) = Return (s, GotMeta (GetMeta cr bd s sid k))"
| "exec_meta cr bd s (OpSet sid k v) =
     io_bind (SetMeta cr bd s sid (NewBytesMeta k v)) (\<lambda>(s', r). Return (s', Did r))"
| "exec_meta cr bd s (OpDelete sid k) = io_bind (DeleteMeta bd s sid k) (\<lambda>(s', r). Return (s', Did r))"
| "exec_meta cr bd s (OpPop sid k) = io_bind (PopList cr bd s sid k) (\<lambda>(s', r). Return (s', Popped r))"
| "exec_meta cr bd s (OpRemove sid k x) =
     io_bind (RemoveListItem cr bd s sid k x) (\<lambda>(s', r). Return (s', Did r))"

definition store_ok :: "crypto \<Rightarrow> 'd bolt \<Rightarrow> 'd storage \<Rightarrow> bool" where
  "store_ok cr bd s \<longleftrightarrow> bolt_laws bd \<and> aead_law cr \<and> layout bd (sto_db s)"

lemma get_meta_spec:
  "layout bd (sto_db s) \<Longrightarrow>
     ns_GetEncrypted cr bd (sto_cipher s) (sto_db s) (sessionMeta bd (sto_db s) sid) k = spec_get (metas cr bd s) sid k"
  by (simp add: sessionMeta_eq spec_get_def metas_def GetEncrypted_plain)

definition with_db :: "'d storage \<Rightarrow> 'd \<Rightarrow> 'd storage" where
  "with_db s d = s\<lparr>sto_engine := (sto_engine s)\<lparr>bs_db := d\<rparr>\<rparr>"

lemma with_db_simps [simp]: "sto_db (with_db s d) = d" "sto_cipher (with_db s d) = sto_cipher s"
  "sto_expiry (with_db s d) = sto_expiry s"
  by (simp_all add: with_db_def)

lemma metas_upd:
  assumes "bk_exists bd d' = bk_exists bd (sto_db s)" "bk_exists bd (sto_db s) [SessionsNamespace, sid]"
    and "plain cr bd (sto_cipher s) d' = (plain cr bd (sto_cipher s) (sto_db s))(meta_path sid := f)"
  shows "metas cr bd (with_db s d') = (metas cr bd s)(sid \<mapsto> f)"
  using assms by (auto simp: metas_def fun_eq_iff)

text \<open>Session metadata and peers are kept apart.\<close>

definition same_peers :: "crypto \<Rightarrow> 'd bolt \<Rightarrow> 'd storage \<Rightarrow> 'd storage \<Rightarrow> bool" where
  "same_peers cr bd s s' \<longleftrightarrow> sto_expiry s' = sto_expiry s \<and>
     plain cr bd (sto_cipher s') (sto_db s') [PeersNamespace] = plain cr bd (sto_cipher s) (sto_db s) [PeersNamespace]"

lemma same_peers_refl [simp]: "same_peers cr bd s s"
  by (simp add: same_peers_def)

lemma same_peers_trans [trans]: "same_peers cr bd s s' \<Longrightarrow> same_peers cr bd s' s'' \<Longrightarrow> same_peers cr bd s s''"
  by (simp add: same_peers_def)

lemma put_meta_yields:
  assumes "store_ok cr bd s" "key_ok k"
  shows "yields (ns_PutEncrypted cr bd (sto_cipher s) (sto_db s) (sessionMeta bd (sto_db s) sid) k v)
     (\<lambda>(d', r). if metas cr bd s sid = None then r = Inl ErrMissingNamespace
        else r = Inr () \<and> store_ok cr bd (with_db s d') \<and> metas cr bd (with_db s d') = spec_set (metas cr bd s) sid k v \<and>
          same_peers cr bd s (with_db s d'))"
proof (cases "bk_exists bd (sto_db s) [SessionsNamespace, sid]")
  case False
  then show ?thesis using assms(1) by (simp add: store_ok_def sessionMeta_eq metas_def)
next
  case True
  let ?d = "sto_db s" and ?c = "sto_cipher s"
  have l: "layout bd ?d" using assms(1) by (simp add: store_ok_def)
  then have e: "bk_exists bd ?d (meta_path sid)" using True by (simp add: layout_def)
  have "yields (ns_PutEncrypted cr bd ?c ?d (Namespace (meta_path sid)) k v) (\<lambda>(d', r). r = Inr () \<and>
     bk_exists bd d' = bk_exists bd ?d \<and> plain cr bd ?c d' =
       (plain cr bd ?c ?d)(meta_path sid := (plain cr bd ?c ?d (meta_path sid))(k \<mapsto> Inr v)))"
    using PutEncrypted_yields [of bd cr "meta_path sid" ?d k ?c v] assms e layout_leaf(1) [OF l]
    by (simp add: store_ok_def)
  then show ?thesis
    unfolding sessionMeta_eq [OF l] using True
  proof (simp, elim yields_mono, clarsimp simp: metas_def [of cr bd s])
    fix d'
    assume d': "bk_exists bd d' = bk_exists bd ?d"
      "plain cr bd ?c d' = (plain cr bd ?c ?d)(meta_path sid := (plain cr bd ?c ?d (meta_path sid))(k \<mapsto> Inr v))"
    have "same_peers cr bd s (with_db s d')" by (simp add: same_peers_def d'(2) meta_path_def)
    then show "store_ok cr bd (with_db s d') \<and> metas cr bd (with_db s d') = spec_set (metas cr bd s) sid k v \<and>
        same_peers cr bd s (with_db s d')"
      using assms(1) layout_upd [OF l d'] metas_upd [OF d'(1) True d'(2)] True
      by (simp add: store_ok_def spec_set_def metas_def [of cr bd s sid])
  qed
qed

lemma sto_Command_meta:
  assumes "store_ok cr bd s" "yields (f (sto_db s)) P"
    and "\<And>d e. P (d, Inl e) \<Longrightarrow> Q (s, Inl e)" "\<And>d x. P (d, Inr x) \<Longrightarrow> Q (with_db s d, Inr x)"
  shows "yields (sto_Command bd s f) Q"
  using assms by (intro sto_Command_yields [where P = P]) (auto simp: store_ok_def with_db_def)

lemma set_meta_refines:
  assumes "store_ok cr bd s" "key_ok k"
  shows "yields (SetMeta cr bd s sid (NewBytesMeta k v)) (\<lambda>(s', r). store_ok cr bd s' \<and>
     spec_meta (metas cr bd s) (OpSet sid k v) = (metas cr bd s', Did r))"
  unfolding SetMeta_def NewBytesMeta_def meta.simps
  by (rule sto_Command_meta [OF assms(1)], rule put_meta_yields [OF assms])
    (use assms(1) in \<open>auto split: if_splits\<close>)

lemma delete_meta_refines:
  assumes "store_ok cr bd s"
  shows "yields (DeleteMeta bd s sid k) (\<lambda>(s', r). store_ok cr bd s' \<and>
     spec_meta (metas cr bd s) (OpDelete sid k) = (metas cr bd s', Did r))"
proof -
  let ?d = "sto_db s" and ?c = "sto_cipher s"
  have l: "layout bd ?d" and b: "bolt_laws bd" using assms by (simp_all add: store_ok_def)
  show ?thesis
  proof (cases "bk_exists bd ?d [SessionsNamespace, sid]")
    case False
    then show ?thesis using assms b
      by (simp add: DeleteMeta_def sto_Command_def Command_def sessionMeta_eq [OF l] metas_def)
  next
    case True
    then have "bk_exists bd ?d (meta_path sid)" using l by (simp add: layout_def)
    from Delete_ok [OF b _ this layout_leaf(1) [OF l], where cr = cr and c = ?c] obtain d' where d':
        "ns_Delete bd ?d (Namespace (meta_path sid)) k = (d', Inr ())" "bk_exists bd d' = bk_exists bd ?d"
        "plain cr bd ?c d' = (plain cr bd ?c ?d)(meta_path sid := (plain cr bd ?c ?d (meta_path sid))(k := None))"
      by auto
    then show ?thesis
      using assms layout_upd [OF l d'(2,3)] metas_upd [OF d'(2) True d'(3)] True b
      by (simp add: DeleteMeta_def sto_Command_def Command_def sessionMeta_eq [OF l] metas_def [of cr bd s sid]
          store_ok_def flip: with_db_def)
  qed
qed

lemma list_meta_refines:
  assumes ok: "store_ok cr bd s" "key_ok k"
    and P: "\<And>e. spec_get (metas cr bd s) sid k = Inl e \<Longrightarrow> Q (s, Inl e)"
    and D: "\<And>data. spec_get (metas cr bd s) sid k = Inr data \<Longrightarrow>
      (\<exists>e. g data = Inl e \<and> Q (s, Inl e)) \<or>
      (\<exists>v x. g data = Inr (v, x) \<and> (\<forall>s'. store_ok cr bd s' \<and> metas cr bd s' = spec_set (metas cr bd s) sid k v \<and>
         same_peers cr bd s s' \<longrightarrow> Q (s', Inr x)))"
  shows "yields (sto_Command bd s (\<lambda>d. case ns_GetEncrypted cr bd (sto_cipher s) d (sessionMeta bd d sid) k of
       Inl e \<Rightarrow> Return (d, Inl e)
     | Inr data \<Rightarrow> (case g data of
          Inl e \<Rightarrow> Return (d, Inl e)
        | Inr (v, x) \<Rightarrow> io_bind (ns_PutEncrypted cr bd (sto_cipher s) d (sessionMeta bd d sid) k v) (\<lambda>(d', r).
            Return (d', case r of Inl e \<Rightarrow> Inl e | Inr _ \<Rightarrow> Inr x))))) Q"
proof (cases "spec_get (metas cr bd s) sid k")
  case (Inl e)
  then show ?thesis using ok P get_meta_spec [of bd s cr sid k]
    by (intro sto_Command_meta [OF ok(1), where P = "\<lambda>z. snd z = Inl e"]) (auto simp: store_ok_def)
next
  case (Inr data)
  have l: "layout bd (sto_db s)" using ok by (simp add: store_ok_def)
  have ne: "metas cr bd s sid \<noteq> None" using Inr by (auto simp: spec_get_def split: option.splits)
  from D [OF Inr] show ?thesis
  proof (elim disjE exE conjE)
    fix e assume "g data = Inl e" "Q (s, Inl e)"
    then show ?thesis using Inr get_meta_spec [OF l]
      by (intro sto_Command_meta [OF ok(1), where P = "\<lambda>z. snd z = Inl e"]) auto
  next
    fix v x
    assume g: "g data = Inr (v, x)"
      and q: "\<forall>s'. store_ok cr bd s' \<and> metas cr bd s' = spec_set (metas cr bd s) sid k v \<and>
        same_peers cr bd s s' \<longrightarrow> Q (s', Inr x)"
    let ?P = "\<lambda>(d', r). r = Inr x \<and> store_ok cr bd (with_db s d') \<and>
      metas cr bd (with_db s d') = spec_set (metas cr bd s) sid k v \<and> same_peers cr bd s (with_db s d')"
    have "yields (io_bind (ns_PutEncrypted cr bd (sto_cipher s) (sto_db s) (sessionMeta bd (sto_db s) sid) k v)
        (\<lambda>(d', r). Return (d', case r of Inl e \<Rightarrow> Inl e | Inr _ \<Rightarrow> Inr x))) ?P"
      by (rule yields_bind [OF put_meta_yields [OF ok]]) (use ne in auto)
    then show ?thesis using q Inr g get_meta_spec [OF l]
      by (intro sto_Command_meta [OF ok(1), where P = ?P]) auto
  qed
qed

lemma PopList_alt:
  "PopList cr bd s sid k =
     io_bind (sto_Command bd s (\<lambda>d. case ns_GetEncrypted cr bd (sto_cipher s) d (sessionMeta bd d sid) k of
         Inl e \<Rightarrow> Return (d, Inl e)
       | Inr data \<Rightarrow>
           (case (case deserializeList data of Inl e \<Rightarrow> Inl e | Inr [] \<Rightarrow> Inl ErrNotFound
                  | Inr (x # xs) \<Rightarrow> Inr (serializeList xs, x)) of
              Inl e \<Rightarrow> Return (d, Inl e)
            | Inr (v, x) \<Rightarrow> io_bind (ns_PutEncrypted cr bd (sto_cipher s) d (sessionMeta bd d sid) k v) (\<lambda>(d', r).
                Return (d', case r of Inl e \<Rightarrow> Inl e | Inr _ \<Rightarrow> Inr x)))))
       (\<lambda>(s', r). Return (s', missing_not_found r))"
  unfolding PopList_def Let_def
  by (intro arg_cong2 [where f = io_bind] arg_cong [where f = "sto_Command bd s"] ext refl)
    (auto split: sum.splits list.splits)

lemma put_unit:
  fixes p :: "('d \<times> (serr + unit)) io"
  shows "io_bind p (\<lambda>(d', r). Return (d', case r of Inl e \<Rightarrow> Inl e | Inr _ \<Rightarrow> Inr ())) = p"
proof -
  have "(\<lambda>(d' :: 'd, r :: serr + unit). Return (d', case r of Inl e \<Rightarrow> Inl e | Inr _ \<Rightarrow> Inr ())) = Return"
    by (auto simp: fun_eq_iff split: sum.splits)
  then show ?thesis by simp
qed

lemma RemoveListItem_alt:
  "RemoveListItem cr bd s sid k x =
     io_bind (sto_Command bd s (\<lambda>d. case ns_GetEncrypted cr bd (sto_cipher s) d (sessionMeta bd d sid) k of
         Inl e \<Rightarrow> Return (d, Inl e)
       | Inr data \<Rightarrow>
           (case (case deserializeList data of Inl e \<Rightarrow> Inl e
                  | Inr xs \<Rightarrow> (case drop_entry x xs of None \<Rightarrow> Inl ErrNotFound | Some ys \<Rightarrow> Inr (serializeList ys, ()))) of
              Inl e \<Rightarrow> Return (d, Inl e)
            | Inr (v, x) \<Rightarrow> io_bind (ns_PutEncrypted cr bd (sto_cipher s) d (sessionMeta bd d sid) k v) (\<lambda>(d', r).
                Return (d', case r of Inl e \<Rightarrow> Inl e | Inr _ \<Rightarrow> Inr x)))))
       (\<lambda>(s', r). Return (s', missing_not_found r))"
  unfolding RemoveListItem_def Let_def
  by (intro arg_cong2 [where f = io_bind] arg_cong [where f = "sto_Command bd s"] ext refl)
    (auto simp: put_unit split: sum.splits option.splits)

lemma pop_refines:
  assumes "store_ok cr bd s" "key_ok k"
  shows "yields (PopList cr bd s sid k) (\<lambda>(s', r). store_ok cr bd s' \<and>
     spec_meta (metas cr bd s) (OpPop sid k) = (metas cr bd s', Popped r))"
proof -
  let ?Q = "\<lambda>(s', r). store_ok cr bd s' \<and> spec_meta (metas cr bd s) (OpPop sid k) =
     (metas cr bd s', Popped (missing_not_found r))"
  show ?thesis
    unfolding PopList_alt
    by (rule yields_bind [where P = ?Q], rule list_meta_refines [OF assms])
      (use assms(1) in \<open>auto simp: missing_not_found_def isMissing_def deserializeList_def Let_def
        split: sum.splits list.splits if_splits\<close>)
qed

lemma remove_refines:
  assumes "store_ok cr bd s" "key_ok k"
  shows "yields (RemoveListItem cr bd s sid k x) (\<lambda>(s', r). store_ok cr bd s' \<and>
     spec_meta (metas cr bd s) (OpRemove sid k x) = (metas cr bd s', Did r))"
proof -
  let ?Q = "\<lambda>(s', r). store_ok cr bd s' \<and> spec_meta (metas cr bd s) (OpRemove sid k x) =
     (metas cr bd s', Did (missing_not_found r))"
  show ?thesis
    unfolding RemoveListItem_alt
    by (rule yields_bind [where P = ?Q], rule list_meta_refines [OF assms])
      (use assms(1) in \<open>auto simp: missing_not_found_def isMissing_def deserializeList_def Let_def
        split: sum.splits option.splits if_splits\<close>)
qed

text \<open>None of them touches a peer.\<close>

lemma lists_keep_peers:
  assumes "store_ok cr bd s" "key_ok k"
  shows "yields (PopList cr bd s sid k) (\<lambda>(s', r). same_peers cr bd s s')"
    "yields (RemoveListItem cr bd s sid k x) (\<lambda>(s', r). same_peers cr bd s s')"
  unfolding PopList_alt RemoveListItem_alt
  by (rule yields_bind [where P = "\<lambda>(s', r). same_peers cr bd s s'"], rule list_meta_refines [OF assms],
      auto split: sum.splits list.splits option.splits)+

lemma set_meta_keeps_peers:
  assumes "store_ok cr bd s" "key_ok k"
  shows "yields (SetMeta cr bd s sid (NewBytesMeta k v)) (\<lambda>(s', r). same_peers cr bd s s')"
  unfolding SetMeta_def NewBytesMeta_def meta.simps
  by (rule sto_Command_meta [OF assms(1)], rule put_meta_yields [OF assms]) (auto split: if_splits)

lemma get_meta_refines:
  "store_ok cr bd s \<Longrightarrow> spec_meta (metas cr bd s) (OpGet sid k) = (metas cr bd s, GotMeta (GetMeta cr bd s sid k))"
  by (simp add: GetMeta_def sto_Query_def Query_def get_meta_spec store_ok_def NewBytesMeta_def split: sum.splits)

interpretation metadata: implements "exec_meta cr bd" spec_meta "metas cr bd" "store_ok cr bd" meta_op_ok for cr bd
proof unfold_locales
  fix s x assume ok: "store_ok cr bd s" "meta_op_ok x"
  let ?Q = "\<lambda>x (s', r). store_ok cr bd s' \<and> spec_meta (metas cr bd s) x = (metas cr bd s', r)"
  show "yields (exec_meta cr bd s x) (?Q x)"
  proof (cases x)
    case (OpGet sid k)
    then show ?thesis using ok get_meta_refines [OF ok(1)] by simp
  next
    case (OpSet sid k v)
    then show ?thesis using ok unfolding OpSet exec_meta.simps
      by (intro yields_bind [OF set_meta_refines [OF ok(1)]]) auto
  next
    case (OpDelete sid k)
    then show ?thesis using ok unfolding OpDelete exec_meta.simps
      by (intro yields_bind [OF delete_meta_refines [OF ok(1)]]) auto
  next
    case (OpPop sid k)
    then show ?thesis using ok unfolding OpPop exec_meta.simps
      by (intro yields_bind [OF pop_refines [OF ok(1)]]) auto
  next
    case (OpRemove sid k e)
    then show ?thesis using ok unfolding OpRemove exec_meta.simps
      by (intro yields_bind [OF remove_refines [OF ok(1)]]) auto
  qed
qed

subsection \<open>Facts about packed lists\<close>

abbreviation elems :: "bytes list \<Rightarrow> bool" where
  "elems xs \<equiv> list_all (\<lambda>x. length x = ElemSize) xs"

lemma length_concat_elems: "elems xs \<Longrightarrow> length (concat xs) = length xs * ElemSize"
  by (induction xs) simp_all

lemma copy_at_exact:
  "length x = length y \<Longrightarrow> copy_at (a @ x @ b) (length a) y = a @ y @ b"
  by (simp add: copy_at_def)

lemma pack_items_eq:
  assumes "length hdr = 4" "elems ys" "elems xs"
  shows "pack_items (length ys) (hdr @ concat ys @ replicate (length xs * ElemSize) 0) xs = hdr @ concat ys @ concat xs"
  using assms(2,3)
proof (induction xs arbitrary: ys)
  case (Cons x xs)
  have len: "4 + length ys * ElemSize = length (hdr @ concat ys)"
    using assms(1) Cons.prems by (simp add: length_concat_elems)
  have "copy_at (hdr @ concat ys @ replicate (length (x # xs) * ElemSize) 0) (4 + length ys * ElemSize) x =
      hdr @ concat (ys @ [x]) @ replicate (length xs * ElemSize) 0"
    using copy_at_exact [of "replicate ElemSize 0" x "hdr @ concat ys" "replicate (length xs * ElemSize) 0"] Cons.prems
    by (simp add: len replicate_add)
  with Cons.IH [of "ys @ [x]"] Cons.prems show ?case by simp
qed simp

lemma serializeList_eq: "elems xs \<Longrightarrow> serializeList xs = put_uint32 (of_nat (length xs)) @ concat xs"
  using pack_items_eq [of "put_uint32 (of_nat (length xs))" "[]" xs] by (simp add: serializeList_def)

lemma drop_concat_elems:
  "elems xs \<Longrightarrow> i < length xs \<Longrightarrow> take ElemSize (drop (i * ElemSize) (concat xs)) = xs ! i"
proof (induction xs arbitrary: i)
  case (Cons x xs)
  then show ?case by (cases i) (simp_all add: add.commute)
qed simp

lemma deserialize_serialize:
  assumes "elems xs" "length xs < 2 ^ 32"
  shows "deserializeList (serializeList xs) = Inr xs"
proof -
  have "unat (of_nat (length xs) :: 32 word) = length xs" using assms(2) by (simp add: unat_of_nat)
  moreover have "map (\<lambda>i. take ElemSize (drop (4 + i * ElemSize) (put_uint32 (of_nat (length xs)) @ concat xs)))
      [0..<length xs] = xs"
    using assms(1) by (intro nth_equalityI) (simp_all add: drop_concat_elems)
  ultimately show ?thesis
    using assms(1) by (simp add: deserializeList_def serializeList_eq length_concat_elems)
qed

lemma index_of_Some: "index_of x xs = Some i \<Longrightarrow> i < length xs \<and> xs ! i = x"
  by (induction xs arbitrary: i) (auto split: if_splits)

lemma index_of_None: "index_of x xs = None \<longleftrightarrow> x \<notin> set xs"
  by (induction xs) auto

lemma mset_drop_entry:
  assumes "drop_entry x xs = Some ys"
  shows "x \<in> set xs \<and> mset xs = add_mset x (mset ys)"
proof -
  from assms obtain i where i: "index_of x xs = Some i" "ys = butlast (xs[i := last xs])"
    by (auto simp: drop_entry_def)
  from index_of_Some [OF i(1)] have l: "i < length xs" "xs ! i = x" by auto
  then obtain zs z where xs: "xs = zs @ [z]" by (metis length_0_conv less_nat_zero_code rev_exhaust)
  show ?thesis
  proof (cases "i = length zs")
    case True
    with l xs i show ?thesis by auto
  next
    case False
    then have il: "i < length zs" using l xs by simp
    then have "ys = zs[i := z]" using i(2) xs by (simp add: butlast_list_update list_update_append)
    moreover have "zs ! i = x" using l il xs by (simp add: nth_append)
    ultimately show ?thesis using il xs nth_mem [OF il] by (simp add: mset_update)
  qed
qed

lemma elems_drop_entry: "drop_entry x xs = Some ys \<Longrightarrow> elems xs \<Longrightarrow> elems ys"
  using mset_drop_entry [of x xs ys] by (auto simp: list_all_iff dest: arg_cong [where f = set_mset])

subsection \<open>Facts about sessions and peers\<close>

lemma ensure_new:
  assumes "bolt_laws bd" "p = [] \<or> bk_exists bd d p" "n \<noteq> []" "\<not> bk_exists bd d (p @ [n])" "bk_get bd d p n = None"
  shows "\<exists>d'. ns_Ensure bd d (Namespace p) n = (d', Namespace (p @ [n])) \<and> bk_get bd d' = bk_get bd d \<and>
     (\<forall>q. bk_exists bd d' q \<longleftrightarrow> q = p @ [n] \<or> bk_exists bd d q)"
  using create_ok [OF assms] assms(4) by auto

lemma ensure_session:
  assumes b: "bolt_laws bd" and l: "layout bd d" and sid: "sid \<noteq> []"
  shows "\<exists>d2 d3 d4. ns_Ensure bd d root_namespace SessionsNamespace = (d, Namespace [SessionsNamespace]) \<and>
     ns_Ensure bd d (Namespace [SessionsNamespace]) sid = (d2, Namespace [SessionsNamespace, sid]) \<and>
     ns_Ensure bd d2 (Namespace [SessionsNamespace, sid]) metaName = (d3, Namespace (meta_path sid)) \<and>
     ns_Ensure bd d3 (Namespace [SessionsNamespace, sid]) chatName = (d4, Namespace (chat_path sid)) \<and>
     layout bd d4 \<and> bk_get bd d4 = bk_get bd d \<and>
     (\<forall>q. bk_exists bd d4 q \<longleftrightarrow> bk_exists bd d q \<or> q \<in> {[SessionsNamespace, sid], meta_path sid, chat_path sid})"
proof -
  have top: "bk_exists bd d [SessionsNamespace]" using l by (simp add: layout_def top_names_def)
  then have e1: "ns_Ensure bd d root_namespace SessionsNamespace = (d, Namespace [SessionsNamespace])"
    by (simp add: root_namespace_def)
  have ap: "[SessionsNamespace] @ [sid] = [SessionsNamespace, sid]"
      "[SessionsNamespace, sid] @ [metaName] = meta_path sid" "[SessionsNamespace, sid] @ [chatName] = chat_path sid"
    by (simp_all add: path_defs)
  have none: "bk_get bd d [SessionsNamespace] k = None" "bk_get bd d [SessionsNamespace, sid] k = None" for k
    using l by (simp_all add: layout_def inner_def)
  show ?thesis
  proof (cases "bk_exists bd d [SessionsNamespace, sid]")
    case True
    then have "bk_exists bd d (meta_path sid)" "bk_exists bd d (chat_path sid)" using l by (simp_all add: layout_def)
    with True e1 l show ?thesis by (intro exI [of _ d]) (auto simp: path_defs)
  next
    case False
    then have ex: "\<not> bk_exists bd d (meta_path sid)" "\<not> bk_exists bd d (chat_path sid)" using l by (simp_all add: layout_def)
    obtain d2 where d2: "ns_Ensure bd d (Namespace [SessionsNamespace]) sid = (d2, Namespace [SessionsNamespace, sid])"
        "bk_get bd d2 = bk_get bd d" "\<forall>q. bk_exists bd d2 q \<longleftrightarrow> q = [SessionsNamespace, sid] \<or> bk_exists bd d q"
      using ensure_new [OF b, of "[SessionsNamespace]" d sid] sid top False none(1) [of sid] unfolding ap by auto
    obtain d3 where d3: "ns_Ensure bd d2 (Namespace [SessionsNamespace, sid]) metaName = (d3, Namespace (meta_path sid))"
        "bk_get bd d3 = bk_get bd d" "\<forall>q. bk_exists bd d3 q \<longleftrightarrow> q = meta_path sid \<or> bk_exists bd d2 q"
      using ensure_new [OF b, of "[SessionsNamespace, sid]" d2 metaName] d2 ex none(2) unfolding ap
      by (auto simp: path_defs)
    obtain d4 where d4: "ns_Ensure bd d3 (Namespace [SessionsNamespace, sid]) chatName = (d4, Namespace (chat_path sid))"
        "bk_get bd d4 = bk_get bd d" "\<forall>q. bk_exists bd d4 q \<longleftrightarrow> q = chat_path sid \<or> bk_exists bd d3 q"
      using ensure_new [OF b, of "[SessionsNamespace, sid]" d3 chatName] d2(3) d3 ex none(2) unfolding ap
      by (auto simp: path_defs)
    have ex4: "\<forall>q. bk_exists bd d4 q \<longleftrightarrow> bk_exists bd d q \<or> q \<in> {[SessionsNamespace, sid], meta_path sid, chat_path sid}"
      using d2(3) d3(3) d4(3) by auto
    moreover have "layout bd d4"
      using l unfolding layout_def d4(2) by (auto simp: ex4 path_defs)
    ultimately show ?thesis using e1 d2(1) d3(1) d4(1,2) by blast
  qed
qed

text \<open>The record of a session that has just been created.\<close>

definition session_record :: "meta_state \<Rightarrow> bytes \<Rightarrow> bytes \<Rightarrow> gotime \<Rightarrow> meta_state" where
  "session_record m sid pub now =
     (let f = (case m sid of None \<Rightarrow> Map.empty | Some f \<Rightarrow> f)
      in m(sid \<mapsto> f(PeerKey \<mapsto> Inr pub, EstablishedAtKey \<mapsto> Inr (put_uint64 (unix_nano now)))))"

lemma meta_keys_ok [simp]: "key_ok PeerKey" "key_ok EstablishedAtKey" "key_ok ResumptionTokensKey" "key_ok RelayTokensKey"
  by (simp_all add: key_ok_def PeerKey_def EstablishedAtKey_def ResumptionTokensKey_def RelayTokensKey_def lit_def)

definition finish_command :: "'d bolt \<Rightarrow> 'd storage \<Rightarrow> 'd \<times> (serr + 'a) \<Rightarrow> ('d storage \<times> (serr + 'a)) io" where
  "finish_command bd s = (\<lambda>(d, r). Return (case r of
         Inl e \<Rightarrow> (s, Inl e)
       | Inr x \<Rightarrow> if bk_commit bd d then (with_db s d, Inr x) else (s, Inl ErrBolt)))"

lemma sto_Command_eq: "sto_Command bd s f = io_bind (f (sto_db s)) (finish_command bd s)"
  unfolding sto_Command_def Command_def io_bind_assoc finish_command_def
  by (rule arg_cong [where f = "io_bind (f (sto_db s))"]) (auto simp: with_db_def fun_eq_iff split: sum.splits)

text \<open>The two values of a session record, written into a fresh metadata bucket.\<close>

lemma put_record_yields:
  assumes ok: "store_ok cr bd s" and f: "metas cr bd s sid = Some f"
  shows "yields (io_bind (ns_PutEncrypted cr bd (sto_cipher s) (sto_db s) (Namespace (meta_path sid)) PeerKey pub) (\<lambda>(d5, r1).
       case r1 of
         Inl e \<Rightarrow> Return (d5, Inl e)
       | Inr _ \<Rightarrow> Now (\<lambda>now. ns_PutEncrypted cr bd (sto_cipher s) d5 (Namespace (meta_path sid)) EstablishedAtKey
                          (put_uint64 (unix_nano now)))))
     (\<lambda>(d', r). r = Inr () \<and> store_ok cr bd (with_db s d') \<and> same_peers cr bd s (with_db s d') \<and>
        (\<exists>now. time_ok now \<and> metas cr bd (with_db s d') =
           (metas cr bd s)(sid \<mapsto> f(PeerKey \<mapsto> Inr pub, EstablishedAtKey \<mapsto> Inr (put_uint64 (unix_nano now))))))"
proof -
  have ns: "sessionMeta bd (sto_db x) sid = Namespace (meta_path sid)" if "store_ok cr bd x" "metas cr bd x sid \<noteq> None" for x
    using that by (auto simp: metas_def store_ok_def sessionMeta_eq split: if_splits)
  show ?thesis
  proof (rule yields_bind [OF put_meta_yields [OF ok meta_keys_ok(1), of sid, unfolded ns [OF ok, unfolded f, simplified]]])
    fix z
    assume "case z of (d', r) \<Rightarrow> if metas cr bd s sid = None then r = Inl ErrMissingNamespace
        else r = Inr () \<and> store_ok cr bd (with_db s d') \<and>
          metas cr bd (with_db s d') = spec_set (metas cr bd s) sid PeerKey pub \<and> same_peers cr bd s (with_db s d')"
    then obtain d5 where z: "z = (d5, Inr ())" "store_ok cr bd (with_db s d5)" "same_peers cr bd s (with_db s d5)"
        "metas cr bd (with_db s d5) = (metas cr bd s)(sid \<mapsto> f(PeerKey \<mapsto> Inr pub))"
      using f by (cases z) (auto simp: spec_set_def)
    have db: "with_db (with_db s d5) d' = with_db s d'" for d' by (simp add: with_db_def)
    have ne: "metas cr bd (with_db s d5) sid \<noteq> None" using z(4) by simp
    note put = put_meta_yields [OF z(2) meta_keys_ok(2), of sid, unfolded with_db_simps db ns [OF z(2) ne, unfolded with_db_simps]]
    have "yields (ns_PutEncrypted cr bd (sto_cipher s) d5 (Namespace (meta_path sid)) EstablishedAtKey (put_uint64 (unix_nano now)))
       (\<lambda>(d', r). r = Inr () \<and> store_ok cr bd (with_db s d') \<and> same_peers cr bd s (with_db s d') \<and>
          metas cr bd (with_db s d') =
           (metas cr bd s)(sid \<mapsto> f(PeerKey \<mapsto> Inr pub, EstablishedAtKey \<mapsto> Inr (put_uint64 (unix_nano now)))))" for now
      by (rule yields_mono [OF put [of "put_uint64 (unix_nano now)"]])
         (use ne z(4) in \<open>auto simp: spec_set_def intro: same_peers_trans [OF z(3)]\<close>)
    then show "yields (case z of (d5, r1) \<Rightarrow> case r1 of Inl e \<Rightarrow> Return (d5, Inl e)
        | Inr _ \<Rightarrow> Now (\<lambda>now. ns_PutEncrypted cr bd (sto_cipher s) d5 (Namespace (meta_path sid)) EstablishedAtKey
              (put_uint64 (unix_nano now))))
      (\<lambda>(d', r). r = Inr () \<and> store_ok cr bd (with_db s d') \<and> same_peers cr bd s (with_db s d') \<and>
        (\<exists>now. time_ok now \<and> metas cr bd (with_db s d') =
           (metas cr bd s)(sid \<mapsto> f(PeerKey \<mapsto> Inr pub, EstablishedAtKey \<mapsto> Inr (put_uint64 (unix_nano now))))))"
      unfolding z(1) by (simp, intro allI impI, rule yields_mono) auto
  qed
qed

lemma CreateSession_live:
  assumes ok: "store_ok cr bd s" and sid: "sid \<noteq> []"
    and p: "plain cr bd (sto_cipher s) (sto_db s) [PeersNamespace] (peerKey cr pub) = Some (Inr data)"
      "dec (w_peer wr) data = Some p"
  shows "\<exists>k. CreateSession cr wr bd s sid pub = Now (\<lambda>now. if peer_expired s p now then Hang else k) \<and>
     yields k (\<lambda>(s', r). r = Inr () \<and> store_ok cr bd s' \<and> same_peers cr bd s s' \<and>
       (\<exists>now. time_ok now \<and> metas cr bd s' = session_record (metas cr bd s) sid (pp_PublicKey p) now))"
proof -
  let ?d = "sto_db s" and ?c = "sto_cipher s"
  have l: "layout bd ?d" and b: "bolt_laws bd" using ok by (simp_all add: store_ok_def)
  obtain d2 d3 d4 where e: "ns_Ensure bd ?d root_namespace SessionsNamespace = (?d, Namespace [SessionsNamespace])"
     "ns_Ensure bd ?d (Namespace [SessionsNamespace]) sid = (d2, Namespace [SessionsNamespace, sid])"
     "ns_Ensure bd d2 (Namespace [SessionsNamespace, sid]) metaName = (d3, Namespace (meta_path sid))"
     "ns_Ensure bd d3 (Namespace [SessionsNamespace, sid]) chatName = (d4, Namespace (chat_path sid))"
     "layout bd d4" "bk_get bd d4 = bk_get bd ?d"
     "\<forall>q. bk_exists bd d4 q \<longleftrightarrow> bk_exists bd ?d q \<or> q \<in> {[SessionsNamespace, sid], meta_path sid, chat_path sid}"
    using ensure_session [OF b l sid] by blast
  let ?s4 = "with_db s d4"
  have ok4: "store_ok cr bd ?s4" using ok e(5) by (simp add: store_ok_def)
  have peers4: "same_peers cr bd s ?s4" by (simp add: same_peers_def plain_same [OF e(6)])
  have gone: "plain cr bd ?c ?d (meta_path sid) = Map.empty" if "\<not> bk_exists bd ?d [SessionsNamespace, sid]"
  proof -
    have "\<not> bk_exists bd ?d (meta_path sid)" using that l by (simp add: layout_def)
    then show ?thesis using b by (simp add: bolt_laws_def get_law_def plain_def fun_eq_iff)
  qed
  have m4: "metas cr bd ?s4 = (metas cr bd s)(sid \<mapsto> case metas cr bd s sid of None \<Rightarrow> Map.empty | Some f \<Rightarrow> f)"
    using gone by (auto simp: metas_def plain_same [OF e(6)] e(7) fun_eq_iff path_defs)
  have db: "with_db ?s4 d' = with_db s d'" for d' by (simp add: with_db_def)
  let ?body = "io_bind (ns_PutEncrypted cr bd ?c d4 (Namespace (meta_path sid)) PeerKey (pp_PublicKey p)) (\<lambda>(d5, r1).
      case r1 of Inl e \<Rightarrow> Return (d5, Inl e) | Inr _ \<Rightarrow>
        Now (\<lambda>now. ns_PutEncrypted cr bd ?c d5 (Namespace (meta_path sid)) EstablishedAtKey (put_uint64 (unix_nano now))))"
  have eq: "CreateSession cr wr bd s sid pub = Now (\<lambda>now. if peer_expired s p now then Hang else io_bind ?body (finish_command bd s))"
    unfolding CreateSession_def sto_Command_eq findPeer_def
    using p by (auto simp: top_namespace_eq [OF l] top_names_def GetEncrypted_plain e peer_of_pb_def fun_eq_iff
        simp del: ns_Ensure.simps)
  have "yields ?body (\<lambda>(d', r). r = Inr () \<and> store_ok cr bd (with_db s d') \<and> same_peers cr bd s (with_db s d') \<and>
      (\<exists>now. time_ok now \<and> metas cr bd (with_db s d') = session_record (metas cr bd s) sid (pp_PublicKey p) now))"
    using put_record_yields [OF ok4, of sid, unfolded with_db_simps db]
    by (rule yields_mono) (use m4 in \<open>auto simp: session_record_def Let_def intro: same_peers_trans [OF peers4]\<close>)
  then have "yields (io_bind ?body (finish_command bd s)) (\<lambda>(s', r). r = Inr () \<and> store_ok cr bd s' \<and> same_peers cr bd s s' \<and>
       (\<exists>now. time_ok now \<and> metas cr bd s' = session_record (metas cr bd s) sid (pp_PublicKey p) now))"
    by (rule yields_bind) (auto simp: finish_command_def commit_ok [OF b])
  with eq show ?thesis by blast
qed

text \<open>A hash of 64 bytes, which the database takes as a key.\<close>

definition sha3_law :: "crypto \<Rightarrow> bool" where
  "sha3_law cr \<longleftrightarrow> (\<forall>x. length (sha3_512 cr x) = 64)"

lemma peerKey_ok: "sha3_law cr \<Longrightarrow> key_ok (peerKey cr claim)"
  by (auto simp: sha3_law_def key_ok_def peerKey_def) (metis length_0_conv zero_neq_numeral)

definition peer_ok :: "peer \<Rightarrow> bool" where
  "peer_ok p \<longleftrightarrow> length (PublicKey p) = 44 \<and> ascii (Name p) \<and> ascii (AppVersionOf p) \<and>
     time_ok (FirstSeen p) \<and> time_ok (LastSeen p)"

text \<open>The peer as stored: unset times become the present.\<close>

definition seen_at :: "gotime \<Rightarrow> peer \<Rightarrow> peer" where
  "seen_at now p = p\<lparr>FirstSeen := if FirstSeen p = zero_time then now else FirstSeen p,
     LastSeen := if LastSeen p = zero_time then now else LastSeen p\<rparr>"

definition pb_of_peer :: "peer \<Rightarrow> pb_peer" where
  "pb_of_peer p = \<lparr>pp_Name = Name p, pp_PublicKey = PublicKey p, pp_FirstSeen = Some (FirstSeen p),
     pp_LastSeen = Some (LastSeen p), pp_AppVersion = AppVersionOf p\<rparr>"

lemma peer_of_pb_of_peer [simp]: "peer_of_pb (pb_of_peer p) = p"
  by (simp add: peer_of_pb_def pb_of_peer_def as_time_def)

lemma peer_expired_pb [simp]: "peer_expired s (pb_of_peer p) now \<longleftrightarrow> FirstSeen p + sto_expiry s < now"
  by (simp add: peer_expired_def pb_of_peer_def as_time_def)

text \<open>The stored entry of a peer, as the wire format decodes it.\<close>

definition peer_entry :: "crypto \<Rightarrow> wire \<Rightarrow> 'd bolt \<Rightarrow> 'd storage \<Rightarrow> bytes \<Rightarrow> pb_peer option" where
  "peer_entry cr wr bd s claim =
     (case plain cr bd (sto_cipher s) (sto_db s) [PeersNamespace] (peerKey cr claim) of
        Some (Inr data) \<Rightarrow> dec (w_peer wr) data | _ \<Rightarrow> None)"

lemma peer_entry_Some:
  "peer_entry cr wr bd s claim = Some p \<longleftrightarrow>
     (\<exists>data. plain cr bd (sto_cipher s) (sto_db s) [PeersNamespace] (peerKey cr claim) = Some (Inr data) \<and>
        dec (w_peer wr) data = Some p)"
  by (auto simp: peer_entry_def split: option.splits sum.splits)

lemma put_peer_yields:
  assumes "store_ok cr bd s" "sha3_law cr"
  shows "yields (sto_Command bd s (\<lambda>d. ns_PutEncrypted cr bd (sto_cipher s) d (top_namespace bd d PeersNamespace)
        (peerKey cr claim) data))
     (\<lambda>(s', r). r = Inr () \<and> store_ok cr bd s' \<and> sto_expiry s' = sto_expiry s \<and> metas cr bd s' = metas cr bd s \<and>
        plain cr bd (sto_cipher s') (sto_db s') [PeersNamespace] (peerKey cr claim) = Some (Inr data))"
proof -
  let ?d = "sto_db s" and ?c = "sto_cipher s"
  have l: "layout bd ?d" and b: "bolt_laws bd" "aead_law cr" using assms(1) by (simp_all add: store_ok_def)
  have top: "bk_exists bd ?d [PeersNamespace]" using l by (simp add: layout_def top_names_def)
  have ns: "top_namespace bd ?d PeersNamespace = Namespace [PeersNamespace]"
    using top_namespace_eq [OF l] by (simp add: top_names_def)
  show ?thesis
  proof (rule sto_Command_meta [OF assms(1)], unfold ns, rule PutEncrypted_yields [OF b _ top peerKey_ok [OF assms(2)]])
    fix d' and x :: unit
    assume d': "case (d', Inr x :: serr + unit) of (d', r) \<Rightarrow> r = Inr () \<and> bk_exists bd d' = bk_exists bd ?d \<and>
      plain cr bd ?c d' = (plain cr bd ?c ?d)([PeersNamespace] := (plain cr bd ?c ?d [PeersNamespace])(peerKey cr claim \<mapsto> Inr data))"
    then have "layout bd d'" by (auto intro: layout_upd [OF l])
    with d' b show "case (with_db s d', Inr x) of (s', r) \<Rightarrow> r = Inr () \<and> store_ok cr bd s' \<and> sto_expiry s' = sto_expiry s \<and>
        metas cr bd s' = metas cr bd s \<and> plain cr bd (sto_cipher s') (sto_db s') [PeersNamespace] (peerKey cr claim) = Some (Inr data)"
      by (auto simp: store_ok_def metas_def fun_eq_iff)
  qed (use layout_leaf(3) [OF l, of PeersNamespace] in auto)
qed

lemma StorePeer_alt:
  "length (PublicKey p) = 44 \<Longrightarrow> StorePeer cr wr bd s p =
     Now (\<lambda>now. case enc (w_peer wr) (pb_of_peer (seen_at now p)) of
          None \<Rightarrow> Return (s, Inl ErrPeerFormat)
        | Some data \<Rightarrow> sto_Command bd s (\<lambda>d. ns_PutEncrypted cr bd (sto_cipher s) d (top_namespace bd d PeersNamespace)
                   (peerKey cr (PublicKey p)) data))"
  by (simp add: StorePeer_def Let_def pb_of_peer_def seen_at_def)

lemma StorePeer_yields:
  assumes ok: "store_ok cr bd s" "sha3_law cr" "wire_laws wr" "peer_ok p"
  shows "yields (StorePeer cr wr bd s p) (\<lambda>(s', r). r = Inr () \<and> store_ok cr bd s' \<and> sto_expiry s' = sto_expiry s \<and>
     metas cr bd s' = metas cr bd s \<and>
     (\<exists>now. time_ok now \<and> peer_entry cr wr bd s' (PublicKey p) = Some (pb_of_peer (seen_at now p))))"
proof -
  have "\<exists>data. enc (w_peer wr) (pb_of_peer (seen_at now p)) = Some data \<and> dec (w_peer wr) data = Some (pb_of_peer (seen_at now p))"
    if "time_ok now" for now
  proof -
    have "pb_peer_ok (pb_of_peer (seen_at now p))"
      using ok(4) that by (auto simp: pb_peer_ok_def pb_of_peer_def seen_at_def peer_ok_def)
    moreover have "codec_ok pb_peer_ok (w_peer wr)" using ok(3) by (simp add: wire_laws_def)
    ultimately show ?thesis unfolding codec_ok_def by blast
  qed
  then obtain data where data: "enc (w_peer wr) (pb_of_peer (seen_at now p)) = Some (data now) \<and>
      dec (w_peer wr) (data now) = Some (pb_of_peer (seen_at now p))" if "time_ok now" for now
    by metis
  have len: "length (PublicKey p) = 44" using ok(4) by (simp add: peer_ok_def)
  have "yields (StorePeer cr wr bd s p) (\<lambda>(s', r). r = Inr () \<and> store_ok cr bd s' \<and> sto_expiry s' = sto_expiry s \<and>
     metas cr bd s' = metas cr bd s \<and> (\<exists>now. time_ok now \<and>
        plain cr bd (sto_cipher s') (sto_db s') [PeersNamespace] (peerKey cr (PublicKey p)) = Some (Inr (data now))))"
    unfolding StorePeer_alt [OF len] yields.simps
  proof (intro allI impI)
    fix now assume t: "time_ok now"
    show "yields (case enc (w_peer wr) (pb_of_peer (seen_at now p)) of
          None \<Rightarrow> Return (s, Inl ErrPeerFormat)
        | Some data \<Rightarrow> sto_Command bd s (\<lambda>d. ns_PutEncrypted cr bd (sto_cipher s) d (top_namespace bd d PeersNamespace)
                   (peerKey cr (PublicKey p)) data))
      (\<lambda>(s', r). r = Inr () \<and> store_ok cr bd s' \<and> sto_expiry s' = sto_expiry s \<and> metas cr bd s' = metas cr bd s \<and>
        (\<exists>now. time_ok now \<and>
          plain cr bd (sto_cipher s') (sto_db s') [PeersNamespace] (peerKey cr (PublicKey p)) = Some (Inr (data now))))"
      unfolding data [OF t, THEN conjunct1] option.case
      by (rule yields_mono [OF put_peer_yields [OF ok(1,2)]]) (use t in auto)
  qed
  then show ?thesis
    by (rule yields_mono) (use data in \<open>auto simp: peer_entry_Some\<close>)
qed

lemma FindPeer_live:
  assumes "store_ok cr bd s" "peer_entry cr wr bd s claim = Some p"
  shows "FindPeer cr wr bd s claim = Now (\<lambda>now. if peer_expired s p now
     then io_bind (sto_Command bd s (\<lambda>d'. Return (ns_Delete bd d' (top_namespace bd d' PeersNamespace) (peerKey cr claim))))
                      (\<lambda>(s', _). Return (s', Inl ErrPeerExpired))
     else Return (s, Inr (peer_of_pb p)))"
  using assms top_namespace_eq [of bd "sto_db s" PeersNamespace]
  by (auto simp: FindPeer_def findPeer_def peer_entry_Some store_ok_def top_names_def GetEncrypted_plain fun_eq_iff)

subsection \<open>Properties\<close>

text \<open>A store with one session, over the concrete database.\<close>

definition demo_session :: bytes where "demo_session = lit ''s''"

definition demo_storage :: "demo_db storage" where
  "demo_storage = \<lparr>sto_engine = \<lparr>bs_db = [([DefaultNamespace], []), ([SettingsNamespace], []), ([PeersNamespace], []),
       ([SessionsNamespace], []), ([SessionsNamespace, demo_session], []), (meta_path demo_session, []),
       (chat_path demo_session, [])], bs_cipher = \<lparr>aead_key = replicate 32 0\<rparr>\<rparr>,
     sto_expiry = 7 * 24 * hour\<rparr>"

lemma demo_store_ok: "store_ok demo_crypto demo_bolt demo_storage"
proof -
  have "layout demo_bolt (sto_db demo_storage)"
    by (auto simp: layout_def demo_storage_def demo_bolt_def top_names_def path_defs split: if_splits)
  then show ?thesis using demo_bolt_laws demo_crypto_laws by (simp add: store_ok_def crypto_laws_def)
qed

text \<open>C13. Metadata refinement. Whatever sequence of metadata reads, writes, deletions, list pops and
  list removals is performed on a store, and whatever nonces are drawn, the results are those of plain
  maps from keys to values, one per session, and the store ends in the corresponding state: encryption,
  buckets and transactions are invisible. Every sequence ends.\<close>

theorem metadata_refines_maps:
  assumes "store_ok cr bd s" "list_all meta_op_ok ops"
  shows "yields (perform (exec_meta cr bd) s ops)
     (\<lambda>(s', rs). store_ok cr bd s' \<and> spec_perform spec_meta (metas cr bd s) ops = (metas cr bd s', rs))"
  using metadata.all [OF assms] .

theorem metadata_refines_maps_witness:
  "yields (perform (exec_meta demo_crypto demo_bolt) demo_storage
        [OpSet demo_session PeerKey [1], OpGet demo_session PeerKey])
     (\<lambda>(s', rs). rs = [Did (Inr ()), GotMeta (Inr \<lparr>m_key = PeerKey, m_value = [1]\<rparr>)])"
proof -
  have "metas demo_crypto demo_bolt demo_storage demo_session \<noteq> None"
    by (simp add: metas_def demo_storage_def demo_bolt_def path_defs)
  then have "snd (spec_perform spec_meta (metas demo_crypto demo_bolt demo_storage)
      [OpSet demo_session PeerKey [1], OpGet demo_session PeerKey]) =
      [Did (Inr ()), GotMeta (Inr \<lparr>m_key = PeerKey, m_value = [1]\<rparr>)]"
    by (auto simp: spec_set_def spec_get_def)
  moreover have "list_all meta_op_ok [OpSet demo_session PeerKey [1], OpGet demo_session PeerKey]" by simp
  ultimately show ?thesis
    by (intro yields_mono [OF metadata_refines_maps [OF demo_store_ok]]) (auto simp del: spec_perform.simps)
qed

text \<open>A packed list reads back as it was written: 32-byte entries, up to the 32-bit count.\<close>

theorem packed_list_round_trip:
  assumes "list_all (\<lambda>x. length x = ElemSize) xs" "length xs < 2 ^ 32"
  shows "deserializeList (serializeList xs) = Inr xs"
  using deserialize_serialize [OF assms] .

theorem packed_list_round_trip_witness:
  "deserializeList (serializeList [replicate 32 1, replicate 32 2]) = Inr [replicate 32 1, replicate 32 2]"
  by (rule packed_list_round_trip) (simp_all add: ElemSize_def)

text \<open>C27. A token is used once. When a session holds a list of distinct tokens, removing one of them
  succeeds, removing it again fails as not found, and the tokens left are the others.\<close>

theorem token_single_use:
  assumes "store_ok cr bd s" "key_ok k" "elems ts" "distinct ts" "length ts < 2 ^ 32" "t \<in> set ts"
    and "spec_get (metas cr bd s) sid k = Inr (serializeList ts)"
  shows "yields (perform (exec_meta cr bd) s [OpRemove sid k t, OpRemove sid k t])
     (\<lambda>(s', rs). rs = [Did (Inr ()), Did (Inl ErrNotFound)] \<and>
        (\<exists>us. spec_get (metas cr bd s') sid k = Inr (serializeList us) \<and> set us = set ts - {t}))"
proof -
  obtain us where us: "drop_entry t ts = Some us" using assms(6) index_of_None [of t ts] by (auto simp: drop_entry_def)
  from mset_drop_entry [OF us] have m: "mset ts = add_mset t (mset us)" by simp
  then have "distinct (t # us)" using assms(4) mset_eq_imp_distinct_iff [of ts "t # us"] by simp
  moreover have "set ts = insert t (set us)" using mset_eq_setD [of ts "t # us"] m by simp
  ultimately have set: "t \<notin> set us" "set us = set ts - {t}" by auto
  have "length us < 2 ^ 32" using assms(5) arg_cong [OF m, of size] by simp
  then have des: "deserializeList (serializeList ts) = Inr ts" "deserializeList (serializeList us) = Inr us"
    using deserialize_serialize assms(3,5) elems_drop_entry [OF us assms(3)] by simp_all
  obtain f where f: "metas cr bd s sid = Some f" using assms(7) by (auto simp: spec_get_def split: option.splits)
  have "drop_entry t us = None" using set(1) index_of_None [of t us] by (simp add: drop_entry_def)
  then have "spec_perform spec_meta (metas cr bd s) [OpRemove sid k t, OpRemove sid k t] =
      (spec_set (metas cr bd s) sid k (serializeList us), [Did (Inr ()), Did (Inl ErrNotFound)])"
    using assms(7) us des f by (simp add: spec_get_def spec_set_def)
  moreover have "spec_get (spec_set (metas cr bd s) sid k (serializeList us)) sid k = Inr (serializeList us)"
    using f by (simp add: spec_get_def spec_set_def)
  moreover have "list_all meta_op_ok [OpRemove sid k t, OpRemove sid k t]" using assms(2) by simp
  ultimately show ?thesis
    using set(2) by (intro yields_mono [OF metadata.all [OF assms(1)]]) (auto simp del: spec_perform.simps)
qed

theorem token_single_use_witness:
  "\<exists>s. yields (perform (exec_meta demo_crypto demo_bolt) s
        [OpRemove demo_session ResumptionTokensKey (replicate 32 7), OpRemove demo_session ResumptionTokensKey (replicate 32 7)])
     (\<lambda>(s', rs). rs = [Did (Inr ()), Did (Inl ErrNotFound)])"
proof -
  let ?ts = "[replicate 32 7, replicate 32 9] :: bytes list" and ?m = "metas demo_crypto demo_bolt"
  have ne: "?m demo_storage demo_session \<noteq> None"
    by (simp add: metas_def demo_storage_def demo_bolt_def path_defs)
  obtain s r where s0: "store_ok demo_crypto demo_bolt s" "spec_meta (?m demo_storage)
      (OpSet demo_session ResumptionTokensKey (serializeList ?ts)) = (?m s, Did r)"
    using yields_ex [OF set_meta_refines [OF demo_store_ok meta_keys_ok(3)]] by blast
  with ne have "?m s = spec_set (?m demo_storage) demo_session ResumptionTokensKey (serializeList ?ts)" by auto
  with s0 ne have s: "store_ok demo_crypto demo_bolt s"
      "spec_get (?m s) demo_session ResumptionTokensKey = Inr (serializeList ?ts)"
    by (auto simp: spec_set_def spec_get_def)
  have "replicate 32 (7 :: byte) \<noteq> replicate 32 9" by (simp add: numeral_eq_Suc)
  then have "elems ?ts" "distinct ?ts" "length ?ts < 2 ^ 32" "replicate 32 7 \<in> set ?ts" by (simp_all add: ElemSize_def)
  from token_single_use [OF s(1) meta_keys_ok(3) this s(2)] show ?thesis
    by (intro exI [of _ s]) (erule yields_mono, auto)
qed

text \<open>A stored peer is found again as it was stored, unset times filled in, until its expiry; the
  metadata of every session is left alone.\<close>

theorem store_then_find_peer:
  assumes "store_ok cr bd s" "sha3_law cr" "wire_laws wr" "peer_ok p"
  shows "yields (StorePeer cr wr bd s p) (\<lambda>(s1, r1). r1 = Inr () \<and> metas cr bd s1 = metas cr bd s \<and>
     (\<exists>now. \<forall>es s2 r2 es'. run (FindPeer cr wr bd s1 (PublicKey p)) es = Some ((s2, r2), es') \<longrightarrow>
        (r2 = Inr (seen_at now p) \<and> s2 = s1) \<or>
        (r2 = Inl ErrPeerExpired \<and> (\<exists>later. hd es = ENow later \<and> FirstSeen (seen_at now p) + sto_expiry s < later))))"
proof (rule yields_mono [OF StorePeer_yields [OF assms]], clarify)
  fix s1 r1 now
  assume ok: "store_ok cr bd s1" and e: "peer_entry cr wr bd s1 (PublicKey p) = Some (pb_of_peer (seen_at now p))"
    and x: "sto_expiry s1 = sto_expiry s" and m: "metas cr bd s1 = metas cr bd s"
  have "\<forall>es s2 r2 es'. run (FindPeer cr wr bd s1 (PublicKey p)) es = Some ((s2, r2), es') \<longrightarrow>
        (r2 = Inr (seen_at now p) \<and> s2 = s1) \<or>
        (r2 = Inl ErrPeerExpired \<and> (\<exists>later. hd es = ENow later \<and> FirstSeen (seen_at now p) + sto_expiry s < later))"
    unfolding FindPeer_live [OF ok e]
    by (auto simp: run_Now run_bind x split: if_splits option.splits)
  with m show "Inr () = Inr () \<and> metas cr bd s1 = metas cr bd s \<and>
      (\<exists>now. \<forall>es s2 r2 es'. run (FindPeer cr wr bd s1 (PublicKey p)) es = Some ((s2, r2), es') \<longrightarrow>
        (r2 = Inr (seen_at now p) \<and> s2 = s1) \<or>
        (r2 = Inl ErrPeerExpired \<and> (\<exists>later. hd es = ENow later \<and> FirstSeen (seen_at now p) + sto_expiry s < later)))"
    by blast
qed

definition demo_peer :: peer where
  "demo_peer = \<lparr>FirstSeen = zero_time, LastSeen = 5, Name = lit ''ann'', AppVersionOf = lit ''1.0.0'', PublicKey = replicate 44 3\<rparr>"

lemma demo_peer_ok: "peer_ok demo_peer"
  by (simp add: peer_ok_def demo_peer_def ascii_def lit_def time_ok_def zero_time_def)

lemma demo_sha3_law: "sha3_law demo_crypto"
  by (auto simp: sha3_law_def demo_crypto_def fit_def min_def)

theorem store_then_find_peer_witness:
  "\<exists>es s. run (StorePeer demo_crypto demo_wire demo_bolt demo_storage demo_peer) es = Some ((s, Inr ()), [])"
  using yields_ex [OF store_then_find_peer [OF demo_store_ok demo_sha3_law demo_wire_laws demo_peer_ok]] by auto

text \<open>Recording a session needs a live peer. When the peer's entry is not yet expired the session
  is recorded under its key; when it has expired, removing it opens a second write transaction inside
  the first, and the call never returns.\<close>

theorem create_session_needs_live_peer:
  assumes "store_ok cr bd s" "sid \<noteq> []" "peer_entry cr wr bd s pub = Some p"
    and "run (CreateSession cr wr bd s sid pub) (ENow now # es) = Some ((s', r), es')"
  shows "now \<le> as_time (pp_FirstSeen p) + sto_expiry s \<and> r = Inr () \<and> store_ok cr bd s' \<and>
     (\<exists>at. metas cr bd s' = session_record (metas cr bd s) sid (pp_PublicKey p) at)"
proof -
  obtain data where "plain cr bd (sto_cipher s) (sto_db s) [PeersNamespace] (peerKey cr pub) = Some (Inr data)"
      "dec (w_peer wr) data = Some p"
    using assms(3) by (auto simp: peer_entry_Some)
  from CreateSession_live [OF assms(1,2) this] obtain k where k:
      "CreateSession cr wr bd s sid pub = Now (\<lambda>now. if peer_expired s p now then Hang else k)"
      "yields k (\<lambda>(s', r). r = Inr () \<and> store_ok cr bd s' \<and> same_peers cr bd s s' \<and>
         (\<exists>now. time_ok now \<and> metas cr bd s' = session_record (metas cr bd s) sid (pp_PublicKey p) now))" by blast
  from assms(4) have "\<not> peer_expired s p now" "run k es = Some ((s', r), es')"
    by (auto simp: k(1) split: if_splits)
  with yields_run [OF this(2) k(2)] show ?thesis by (auto simp: peer_expired_def)
qed

theorem create_session_needs_live_peer_witness:
  "\<exists>s now es s' at. run (CreateSession demo_crypto demo_wire demo_bolt s demo_session (PublicKey demo_peer)) (ENow now # es) =
       Some ((s', Inr ()), []) \<and>
     metas demo_crypto demo_bolt s' = session_record (metas demo_crypto demo_bolt s) demo_session (PublicKey demo_peer) at"
proof -
  obtain s t where s: "store_ok demo_crypto demo_bolt s" "sto_expiry s = sto_expiry demo_storage" "time_ok t"
      "peer_entry demo_crypto demo_wire demo_bolt s (PublicKey demo_peer) = Some (pb_of_peer (seen_at t demo_peer))"
    using yields_ex [OF StorePeer_yields [OF demo_store_ok demo_sha3_law demo_wire_laws demo_peer_ok]] by auto
  let ?p = "pb_of_peer (seen_at t demo_peer)"
  have sid: "demo_session \<noteq> []" by (simp add: demo_session_def lit_def)
  obtain data where d: "plain demo_crypto demo_bolt (sto_cipher s) (sto_db s) [PeersNamespace]
      (peerKey demo_crypto (PublicKey demo_peer)) = Some (Inr data)" "dec (w_peer demo_wire) data = Some ?p"
    using s(4) by (auto simp: peer_entry_Some)
  from CreateSession_live [OF s(1) sid d] obtain k Q where k:
      "CreateSession demo_crypto demo_wire demo_bolt s demo_session (PublicKey demo_peer) =
         Now (\<lambda>now. if peer_expired s ?p now then Hang else k)" "yields k Q" by blast
  obtain es z where "run k es = Some (z, [])" using yields_ex [OF k(2)] by blast
  moreover have "\<not> peer_expired s ?p t"
    by (simp add: seen_at_def demo_peer_def s(2) demo_storage_def hour_def second_def)
  ultimately have r: "run (CreateSession demo_crypto demo_wire demo_bolt s demo_session (PublicKey demo_peer)) (ENow t # es) =
      Some ((fst z, snd z), [])" using s(3) by (simp add: k(1))
  have "pp_PublicKey ?p = PublicKey demo_peer" by (simp add: pb_of_peer_def seen_at_def)
  with create_session_needs_live_peer [OF s(1) sid s(4) r] r show ?thesis by metis
qed

end
