(* ===== verification/Chats.thy ===== *)
theory Chats
  imports Storage
begin

text \<open>
  The rest of pkg/storage/storage.go: chat histories, session listings and names, application
  settings, and the deletion of a session. \<^verbatim>\<open>slices.SortFunc\<close> does not say how it orders equal
  elements, so it is a parameter with the law of a sort.
\<close>

subsection \<open>Chat histories\<close>

definition SenderLocal :: "16 word" where "SenderLocal = 0"
definition SenderPeer :: "16 word" where "SenderPeer = 1"

record chat_entry =
  ce_Timestamp :: gotime
  ce_Data :: bytes
  ce_Sender :: "16 word"

type_synonym 'a sort_func = "('a \<Rightarrow> 'a \<Rightarrow> int) \<Rightarrow> 'a list \<Rightarrow> 'a list"

definition sort_law :: "'a sort_func \<Rightarrow> bool" where
  "sort_law srt \<longleftrightarrow> (\<forall>cmp xs. mset (srt cmp xs) = mset xs \<and>
     ((\<forall>a b c. cmp a b \<le> 0 \<and> cmp b c \<le> 0 \<longrightarrow> cmp a c \<le> 0) \<and> (\<forall>a b. cmp a b \<le> 0 \<or> cmp b a \<le> 0) \<longrightarrow>
        sorted_wrt (\<lambda>a b. cmp a b \<le> 0) (srt cmp xs)))"

definition time_Compare :: "gotime \<Rightarrow> gotime \<Rightarrow> int" where
  "time_Compare a b = (if a < b then -1 else if b < a then 1 else 0)"

definition chat_compare :: "chat_entry \<Rightarrow> chat_entry \<Rightarrow> int" where
  "chat_compare a b =
     (let c = time_Compare (ce_Timestamp a) (ce_Timestamp b)
      in if c \<noteq> 0 then c else int (unat (ce_Sender a)) - int (unat (ce_Sender b)))"

definition chat_key :: "gotime \<Rightarrow> 16 word \<Rightarrow> bytes \<Rightarrow> bytes" where
  "chat_key now who suffix = put_uint64 (unix_nano now) @ put_uint16 who @ suffix"

definition chat_value :: "gotime \<Rightarrow> bytes \<Rightarrow> bytes" where
  "chat_value ts payload = valueMagic @ put_uint64 (unix_nano ts) @ payload"

definition AddChatEntry ::
  "crypto \<Rightarrow> 'd bolt \<Rightarrow> 'd storage \<Rightarrow> bytes \<Rightarrow> bytes \<Rightarrow> gotime \<Rightarrow> 16 word \<Rightarrow> ('d storage \<times> (serr + unit)) io" where
  "AddChatEntry cr bd s sid payload ts who =
     Now (\<lambda>now. Random 4 (\<lambda>suffix.
       sto_Command bd s (\<lambda>d. ns_PutEncrypted cr bd (sto_cipher s) d (sessionChat bd d sid)
         (chat_key now who suffix) (chat_value ts payload))))"

text \<open>The loop of \<^verbatim>\<open>GetChatHistory\<close>: short keys are skipped, a value of less than 13 bytes panics.\<close>

fun decode_entries :: "(bytes \<times> bytes) list \<Rightarrow> serr + chat_entry list" where
  "decode_entries [] = Inr []"
| "decode_entries ((key, v) # rest) =
     (if length key < 14 then decode_entries rest
      else if length v < 13 then Inl Panicked
      else case decode_entries rest of
             Inl e \<Rightarrow> Inl e
           | Inr es \<Rightarrow> Inr (\<lparr>ce_Timestamp = from_nano (get_uint64 (drop 5 v)), ce_Data = drop 13 v,
                            ce_Sender = get_uint16 (drop 8 key)\<rparr> # es))"

definition GetChatHistory ::
  "chat_entry sort_func \<Rightarrow> crypto \<Rightarrow> 'd bolt \<Rightarrow> 'd storage \<Rightarrow> bytes \<Rightarrow> serr + chat_entry list" where
  "GetChatHistory srt cr bd s sid =
     (case sto_Query s (\<lambda>d. decode_entries (ns_IterateEncrypted cr bd (sto_cipher s) d (sessionChat bd d sid))) of
        Inl e \<Rightarrow> Inl e
      | Inr entries \<Rightarrow> Inr (srt chat_compare entries))"

subsection \<open>Sessions\<close>

definition ListSessions :: "'d bolt \<Rightarrow> 'd storage \<Rightarrow> serr + bytes list" where
  "ListSessions bd s = sto_Query s (\<lambda>d. Inr (ns_ListSubNamespaces bd d (top_namespace bd d SessionsNamespace)))"

fun first_session :: "crypto \<Rightarrow> 'd bolt \<Rightarrow> enigma \<Rightarrow> 'd \<Rightarrow> bytes \<Rightarrow> bytes list \<Rightarrow> bytes" where
  "first_session cr bd c d pubKey [] = []"
| "first_session cr bd c d pubKey (sid # sids) =
     (case ns_GetEncrypted cr bd c d (sessionMeta bd d sid) PeerKey of
        Inl _ \<Rightarrow> first_session cr bd c d pubKey sids
      | Inr data \<Rightarrow> if data = pubKey then sid else first_session cr bd c d pubKey sids)"

definition FindSessionByPeer :: "crypto \<Rightarrow> 'd bolt \<Rightarrow> 'd storage \<Rightarrow> bytes \<Rightarrow> serr + bytes" where
  "FindSessionByPeer cr bd s pubKey =
     sto_Query s (\<lambda>d. Inr (first_session cr bd (sto_cipher s) d pubKey
       (ns_ListSubNamespaces bd d (top_namespace bd d SessionsNamespace))))"

definition key_time :: "bytes option \<Rightarrow> gotime" where
  "key_time k = (case k of None \<Rightarrow> zero_time
     | Some b \<Rightarrow> if length b \<noteq> 0 \<and> 8 \<le> length b then from_nano (get_uint64 b) else zero_time)"

definition SessionTimestamps :: "'d bolt \<Rightarrow> 'd storage \<Rightarrow> bytes \<Rightarrow> serr + gotime \<times> gotime \<times> nat" where
  "SessionTimestamps bd s sid =
     sto_Query s (\<lambda>d. let chat = sessionChat bd d sid
       in Inr (key_time (ns_FirstKey bd d chat), key_time (ns_LastKey bd d chat), ns_KeyCount bd d chat))"

definition GetSessionName :: "crypto \<Rightarrow> 'd bolt \<Rightarrow> 'd storage \<Rightarrow> bytes \<Rightarrow> serr + bytes" where
  "GetSessionName cr bd s sid =
     (case sto_Query s (\<lambda>d. ns_GetEncrypted cr bd (sto_cipher s) d (sessionMeta bd d sid) sessionMetaKey) of
        Inl e \<Rightarrow> if isMissing e then Inr [] else Inl e
      | Inr name \<Rightarrow> Inr name)"

definition SetSessionName ::
  "crypto \<Rightarrow> 'd bolt \<Rightarrow> 'd storage \<Rightarrow> bytes \<Rightarrow> bytes \<Rightarrow> ('d storage \<times> (serr + unit)) io" where
  "SetSessionName cr bd s sid name =
     (if name = [] then
        io_bind (sto_Command bd s (\<lambda>d. Return (ns_Delete bd d (sessionMeta bd d sid) sessionMetaKey)))
          (\<lambda>(s', r). Return (s', case r of
              Inl e \<Rightarrow> if e = ErrMissingNamespace then Inr () else Inl e | Inr _ \<Rightarrow> Inr ()))
      else sto_Command bd s (\<lambda>d.
        ns_PutEncrypted cr bd (sto_cipher s) d (sessionMeta bd d sid) sessionMetaKey name))"

record session_summary =
  ss_FirstMessage :: gotime
  ss_LastMessage :: gotime
  ss_ID :: bytes
  ss_Name :: bytes
  ss_MessageCount :: nat

definition summarise :: "crypto \<Rightarrow> 'd bolt \<Rightarrow> 'd storage \<Rightarrow> bytes \<Rightarrow> session_summary list" where
  "summarise cr bd s sid =
     (case SessionTimestamps bd s sid of
        Inl _ \<Rightarrow> []
      | Inr (first, latest, n) \<Rightarrow>
          [\<lparr>ss_FirstMessage = first, ss_LastMessage = latest, ss_ID = sid,
            ss_Name = (case GetSessionName cr bd s sid of Inl _ \<Rightarrow> [] | Inr m \<Rightarrow> m), ss_MessageCount = n\<rparr>])"

definition ListSessionsByRecent ::
  "session_summary sort_func \<Rightarrow> crypto \<Rightarrow> 'd bolt \<Rightarrow> 'd storage \<Rightarrow> serr + session_summary list" where
  "ListSessionsByRecent srt cr bd s =
     (case ListSessions bd s of
        Inl e \<Rightarrow> Inl e
      | Inr ids \<Rightarrow>
          Inr (srt (\<lambda>a b. time_Compare (ss_LastMessage b) (ss_LastMessage a)) (concat (map (summarise cr bd s) ids))))"

definition DeleteSession :: "'d bolt \<Rightarrow> 'd storage \<Rightarrow> bytes \<Rightarrow> ('d storage \<times> (serr + unit)) io" where
  "DeleteSession bd s sid =
     sto_Command bd s (\<lambda>d. Return (case ns_DeleteNamespace bd d (top_namespace bd d SessionsNamespace) sid of
         (d', Inl e) \<Rightarrow> if e = ErrMissingNamespace then (d', Inr ()) else (d', Inl e)
       | (d', Inr _) \<Rightarrow> (d', Inr ())))"

subsection \<open>Settings\<close>

definition settings_key :: "bytes \<Rightarrow> bytes \<Rightarrow> bytes" where
  "settings_key app key = app @ lit '':'' @ key"

definition GetSettings :: "crypto \<Rightarrow> 'd bolt \<Rightarrow> 'd storage \<Rightarrow> bytes \<Rightarrow> bytes \<Rightarrow> serr + bytes" where
  "GetSettings cr bd s app key =
     (if app = [] then Inl ErrEmptyAppName
      else case sto_Query s (\<lambda>d. ns_GetEncrypted cr bd (sto_cipher s) d (top_namespace bd d SettingsNamespace)
             (settings_key app key)) of
        Inl e \<Rightarrow> if e = ErrMissingItem then Inr [] else Inl e
      | Inr v \<Rightarrow> Inr v)"

definition SetSettings ::
  "crypto \<Rightarrow> 'd bolt \<Rightarrow> 'd storage \<Rightarrow> bytes \<Rightarrow> bytes \<Rightarrow> bytes \<Rightarrow> ('d storage \<times> (serr + unit)) io" where
  "SetSettings cr bd s app key v =
     (if app = [] then Return (s, Inl ErrEmptyAppName)
      else if v = [] then
        io_bind (sto_Command bd s (\<lambda>d.
            let (d', settings) = ns_Ensure bd d root_namespace SettingsNamespace
            in Return (ns_Delete bd d' settings (settings_key app key))))
          (\<lambda>(s', r). Return (s', case r of
              Inl e \<Rightarrow> if e = ErrMissingItem then Inr () else Inl e | Inr _ \<Rightarrow> Inr ()))
      else sto_Command bd s (\<lambda>d.
        let (d', settings) = ns_Ensure bd d root_namespace SettingsNamespace
        in ns_PutEncrypted cr bd (sto_cipher s) d' settings (settings_key app key) v))"

subsection \<open>Opening a store\<close>

text \<open>The options of \<^verbatim>\<open>OpenStorage\<close> as they set its fields. \<^verbatim>\<open>WithClock\<close> has no counterpart: the
  clock is a call of the process.\<close>

record 'd storage_config =
  sc_passphraseHandler :: "serr + bytes"
  sc_engine :: "'d bolt_store option"
  sc_dbPath :: bytes
  sc_expiryDuration :: duration
  sc_timeout :: duration
  sc_createDB :: bool

datatype 'd storage_option =
    WithDBPath bytes
  | WithPassphraseHandler "serr + bytes"
  | WithExpiryDuration duration
  | WithNoPassphrase
  | WithBackend "'d bolt_store"
  | WithCreateDB bool
  | WithStorageTimeout duration

fun apply_storage_option :: "'d storage_config \<Rightarrow> 'd storage_option \<Rightarrow> 'd storage_config" where
  "apply_storage_option c (WithDBPath p) = c\<lparr>sc_dbPath := p\<rparr>"
| "apply_storage_option c (WithPassphraseHandler r) = c\<lparr>sc_passphraseHandler := r\<rparr>"
| "apply_storage_option c (WithExpiryDuration d) = c\<lparr>sc_expiryDuration := d\<rparr>"
| "apply_storage_option c WithNoPassphrase = c\<lparr>sc_passphraseHandler := Inr []\<rparr>"
| "apply_storage_option c (WithBackend b) = c\<lparr>sc_engine := Some b\<rparr>"
| "apply_storage_option c (WithCreateDB v) = c\<lparr>sc_createDB := v\<rparr>"
| "apply_storage_option c (WithStorageTimeout d) = c\<lparr>sc_timeout := d\<rparr>"

text \<open>The operating system as \<^verbatim>\<open>OpenStorage\<close> sees it: the two environment variables (empty when
  unset), the default path under the home directory, the creation of the parent directory of a path,
  and the database file at a path.\<close>

record 'd os_env =
  env_db_path :: bytes
  env_passphrase :: bytes
  env_default_path :: "serr + bytes"
  env_mkdir :: "bytes \<Rightarrow> serr + unit"
  env_file_exists :: "bytes \<Rightarrow> bool"
  env_bolt_open :: "bytes \<Rightarrow> duration \<Rightarrow> serr + 'd"

definition defaultPassphraseHandler :: "'d os_env \<Rightarrow> serr + bytes" where
  "defaultPassphraseHandler os = (if env_passphrase os \<noteq> [] then Inr (env_passphrase os) else Inl ErrPassphrase)"

definition OpenStorage ::
  "crypto \<Rightarrow> 'd bolt \<Rightarrow> 'd os_env \<Rightarrow> 'd storage_option list \<Rightarrow> (serr + 'd storage) io" where
  "OpenStorage cr bd os opts =
     (let c = foldl apply_storage_option \<lparr>sc_passphraseHandler = defaultPassphraseHandler os, sc_engine = None,
                sc_dbPath = [], sc_expiryDuration = 7 * 24 * hour, sc_timeout = 5 * second, sc_createDB = True\<rparr> opts
      in case sc_engine c of
        Some b \<Rightarrow> Return (Inr \<lparr>sto_engine = b, sto_expiry = sc_expiryDuration c\<rparr>)
      | None \<Rightarrow>
     (case (if sc_dbPath c \<noteq> [] then Inr (sc_dbPath c)
            else if env_db_path os \<noteq> [] then Inr (env_db_path os) else env_default_path os) of
        Inl e \<Rightarrow> Return (Inl e)
      | Inr path \<Rightarrow>
     (case env_mkdir os path of
        Inl e \<Rightarrow> Return (Inl e)
      | Inr _ \<Rightarrow>
     (case sc_passphraseHandler c of
        Inl e \<Rightarrow> Return (Inl e)
      | Inr pass \<Rightarrow>
          io_bind (NewBoltDB cr bd (env_file_exists os path) (env_bolt_open os path) pass
                     [WithCreateIfMissing (sc_createDB c), WithTimeout (sc_timeout c)])
            (\<lambda>(_, r). Return (case r of
                Inl e \<Rightarrow> Inl e
              | Inr db \<Rightarrow> Inr \<lparr>sto_engine = db, sto_expiry = sc_expiryDuration c\<rparr>))))))"

subsection \<open>Facts\<close>

lemma distinct_keyed:
  assumes "\<And>x. f x = [] \<or> (\<exists>y. f x = [(fst x, y)])" "distinct (map fst es)"
  shows "distinct (concat (map f es)) \<and> fst ` set (concat (map f es)) \<subseteq> fst ` set es"
  using assms(2)
proof (induction es)
  case (Cons e es)
  then have IH: "distinct (concat (map f es))" "fst ` set (concat (map f es)) \<subseteq> fst ` set es" by auto
  have "fst e \<notin> fst ` set (concat (map f es))" using IH(2) Cons.prems by auto
  then have "(fst e, y) \<notin> set (concat (map f es))" for y by (metis fst_conv image_eqI)
  with IH assms(1) [of e] show ?case by (elim disjE exE) auto
qed simp

lemma iterate_set:
  assumes "bolt_laws bd" "bk_exists bd d p" "p \<noteq> []" "\<forall>k. \<not> bk_exists bd d (p @ [k])"
  shows "set (ns_IterateEncrypted cr bd c d (Namespace p)) = {(k, v). plain cr bd c d p k = Some (Inr v)}"
    and "distinct (ns_IterateEncrypted cr bd c d (Namespace p))"
proof -
  obtain b q where p: "p = b # q" using assms(3) by (cases p) auto
  let ?f = "\<lambda>(k, v). case Decrypt cr c (case v of None \<Rightarrow> [] | Some x \<Rightarrow> x) of Inl _ \<Rightarrow> [] | Inr x \<Rightarrow> [(k, x)]"
  have cur: "distinct (map fst (bk_cursor bd d p))"
      "\<forall>k v. (k, Some v) \<in> set (bk_cursor bd d p) \<longleftrightarrow> bk_get bd d p k = Some v"
      "\<forall>k. (k, None) \<notin> set (bk_cursor bd d p)"
    using assms(1,2,4) unfolding bolt_laws_def cursor_law_def by auto
  have it: "ns_IterateEncrypted cr bd c d (Namespace p) = concat (map ?f (bk_cursor bd d p))"
    by (simp add: p)
  have "(k, v) \<in> set (concat (map ?f (bk_cursor bd d p))) \<longleftrightarrow> plain cr bd c d p k = Some (Inr v)" for k v
  proof
    assume "(k, v) \<in> set (concat (map ?f (bk_cursor bd d p)))"
    then obtain w where "(k, w) \<in> set (bk_cursor bd d p)" "(k, v) \<in> set (?f (k, w))" by (auto split: sum.splits)
    with cur show "plain cr bd c d p k = Some (Inr v)" by (cases w) (auto simp: plain_def split: sum.splits)
  next
    assume "plain cr bd c d p k = Some (Inr v)"
    then obtain x where x: "bk_get bd d p k = Some x" "Decrypt cr c x = Inr v" by (auto simp: plain_def)
    then have "(k, Some x) \<in> set (bk_cursor bd d p)" using cur(2) by simp
    with x(2) show "(k, v) \<in> set (concat (map ?f (bk_cursor bd d p)))" by force
  qed
  then show "set (ns_IterateEncrypted cr bd c d (Namespace p)) = {(k, v). plain cr bd c d p k = Some (Inr v)}"
    unfolding it by auto
  have "?f x = [] \<or> (\<exists>y. ?f x = [(fst x, y)])" for x by (auto split: prod.splits sum.splits)
  from distinct_keyed [of ?f, OF this cur(1)] show "distinct (ns_IterateEncrypted cr bd c d (Namespace p))"
    unfolding it by blast
qed

text \<open>What an entry of the chat bucket decodes to, and when the loop panics on it.\<close>

definition entry_of :: "bytes \<times> bytes \<Rightarrow> chat_entry" where
  "entry_of kv = \<lparr>ce_Timestamp = from_nano (get_uint64 (drop 5 (snd kv))), ce_Data = drop 13 (snd kv),
     ce_Sender = get_uint16 (drop 8 (fst kv))\<rparr>"

lemma decode_entries_eq:
  "decode_entries kvs =
     (if \<exists>kv \<in> set kvs. 14 \<le> length (fst kv) \<and> length (snd kv) < 13 then Inl Panicked
      else Inr (map entry_of (filter (\<lambda>kv. 14 \<le> length (fst kv)) kvs)))"
  by (induction kvs rule: decode_entries.induct) (auto simp: entry_of_def)

lemma length_chat_key: "length suffix = 4 \<Longrightarrow> length (chat_key now who suffix) = 14"
  by (simp add: chat_key_def)

lemma entry_of_chat:
  "length suffix = 4 \<Longrightarrow> entry_of (chat_key now who suffix, chat_value ts payload) =
     \<lparr>ce_Timestamp = from_nano (unix_nano ts), ce_Data = payload, ce_Sender = who\<rparr>"
  by (simp add: entry_of_def chat_key_def chat_value_def valueMagic_def)

lemma from_unix_nano: "- (2 ^ 63) \<le> t \<Longrightarrow> t < 2 ^ 63 \<Longrightarrow> from_nano (unix_nano t) = t"
  by (simp add: from_nano_def unix_nano_def sint_sbintrunc' signed_take_bit_int_eq_self)

lemma add_chat_yields:
  assumes ok: "store_ok cr bd s" and e: "bk_exists bd (sto_db s) [SessionsNamespace, sid]" and k: "key_ok k"
  shows "yields (sto_Command bd s (\<lambda>d. ns_PutEncrypted cr bd (sto_cipher s) d (sessionChat bd d sid) k v))
     (\<lambda>(s', r). r = Inr () \<and> store_ok cr bd s' \<and> sto_cipher s' = sto_cipher s \<and>
        bk_exists bd (sto_db s') = bk_exists bd (sto_db s) \<and>
        plain cr bd (sto_cipher s) (sto_db s') (chat_path sid) =
          (plain cr bd (sto_cipher s) (sto_db s) (chat_path sid))(k \<mapsto> Inr v))"
proof -
  let ?d = "sto_db s" and ?c = "sto_cipher s"
  have l: "layout bd ?d" and b: "bolt_laws bd" "aead_law cr" using ok by (simp_all add: store_ok_def)
  then have ce: "bk_exists bd ?d (chat_path sid)" using e by (simp add: layout_def)
  have ns: "sessionChat bd ?d sid = Namespace (chat_path sid)" by (simp add: sessionChat_eq [OF l] e)
  show ?thesis
  proof (rule sto_Command_meta [OF ok], unfold ns, rule PutEncrypted_yields [OF b path_nonempty(2) ce k layout_leaf(2) [OF l]])
    fix d' and x :: unit
    assume d': "case (d', Inr x :: serr + unit) of (d', r) \<Rightarrow> r = Inr () \<and> bk_exists bd d' = bk_exists bd ?d \<and>
      plain cr bd ?c d' = (plain cr bd ?c ?d)(chat_path sid := (plain cr bd ?c ?d (chat_path sid))(k \<mapsto> Inr v))"
    then have "layout bd d'" by (auto intro: layout_upd [OF l])
    with d' b show "case (with_db s d', Inr x) of (s', r) \<Rightarrow> r = Inr () \<and> store_ok cr bd s' \<and> sto_cipher s' = ?c \<and>
        bk_exists bd (sto_db s') = bk_exists bd ?d \<and>
        plain cr bd ?c (sto_db s') (chat_path sid) = (plain cr bd ?c ?d (chat_path sid))(k \<mapsto> Inr v)"
      by (auto simp: store_ok_def)
  qed auto
qed

lemma mset_insert_set:
  assumes "distinct xs" "distinct ys" "set ys = insert x (set xs)" "x \<notin> set xs"
  shows "mset ys = add_mset x (mset xs)"
  using assms set_eq_iff_mset_eq_distinct [of ys "x # xs"] by simp

lemma chat_sorted: "sort_law srt \<Longrightarrow> sorted_wrt (\<lambda>a b. chat_compare a b \<le> 0) (srt chat_compare es)"
proof -
  have "\<forall>a b c. chat_compare a b \<le> 0 \<and> chat_compare b c \<le> 0 \<longrightarrow> chat_compare a c \<le> 0"
    "\<forall>a b. chat_compare a b \<le> 0 \<or> chat_compare b a \<le> 0"
    by (auto simp: chat_compare_def time_Compare_def Let_def split: if_splits)
  then show "sort_law srt \<Longrightarrow> sorted_wrt (\<lambda>a b. chat_compare a b \<le> 0) (srt chat_compare es)"
    unfolding sort_law_def by blast
qed

subsection \<open>Properties\<close>

text \<open>A chat entry is kept. Adding a message to a recorded session, under a key not used before,
  adds exactly that message to the history that is read back, with the sender's own time: nothing else
  of the history changes, and the result is again sorted by time and sender.\<close>

theorem chat_entry_kept:
  assumes "store_ok cr bd s" "bk_exists bd (sto_db s) [SessionsNamespace, sid]" "sort_law srt"
    and "GetChatHistory srt cr bd s sid = Inr h"
    and "plain cr bd (sto_cipher s) (sto_db s) (chat_path sid) (chat_key now who suffix) = None"
    and "- (2 ^ 63) \<le> ts" "ts < 2 ^ 63"
    and "run (AddChatEntry cr bd s sid payload ts who) (ENow now # ERandom suffix # es) = Some ((s', r), es')"
  shows "r = Inr () \<and> (\<exists>h'. GetChatHistory srt cr bd s' sid = Inr h' \<and>
     mset h' = add_mset \<lparr>ce_Timestamp = ts, ce_Data = payload, ce_Sender = who\<rparr> (mset h) \<and>
     sorted_wrt (\<lambda>a b. chat_compare a b \<le> 0) h')"
proof -
  let ?k = "chat_key now who suffix" and ?v = "chat_value ts payload" and ?p = "chat_path sid"
  let ?it = "\<lambda>s. ns_IterateEncrypted cr bd (sto_cipher s) (sto_db s) (Namespace ?p)"
  from assms(8) have suf: "length suffix = 4" and cmd: "run (sto_Command bd s (\<lambda>d. ns_PutEncrypted cr bd (sto_cipher s) d
      (sessionChat bd d sid) ?k ?v)) es = Some ((s', r), es')" by (auto simp: AddChatEntry_def split: if_splits)
  have "key_ok ?k" using length_chat_key [OF suf, of now who] by (auto simp: key_ok_def)
  from yields_run [OF cmd add_chat_yields [OF assms(1,2) this]] have s': "r = Inr ()" "store_ok cr bd s'"
      "sto_cipher s' = sto_cipher s" "bk_exists bd (sto_db s') = bk_exists bd (sto_db s)"
      "plain cr bd (sto_cipher s) (sto_db s') ?p = (plain cr bd (sto_cipher s) (sto_db s) ?p)(?k \<mapsto> Inr ?v)" by auto
  have b: "bolt_laws bd" and l: "layout bd (sto_db s)" using assms(1) by (simp_all add: store_ok_def)
  have it: "bk_exists bd (sto_db s) ?p" "\<forall>k. \<not> bk_exists bd (sto_db s) (?p @ [k])"
    using l assms(2) layout_leaf(2) [OF l] by (auto simp: layout_def)
  have hist: "GetChatHistory srt cr bd t sid = (case decode_entries (?it t) of Inl e \<Rightarrow> Inl e | Inr es \<Rightarrow> Inr (srt chat_compare es))"
    if "store_ok cr bd t" "bk_exists bd (sto_db t) = bk_exists bd (sto_db s)" for t
    using that assms(2) by (simp add: GetChatHistory_def sto_Query_def Query_def store_ok_def sessionChat_eq)
  have "set (?it s') = insert (?k, ?v) (set (?it s))"
    using iterate_set(1) [OF b, of "sto_db s" ?p cr "sto_cipher s"] iterate_set(1) [OF b, of "sto_db s'" ?p cr "sto_cipher s'"]
      it s'(3-5) assms(5) by (auto split: if_splits)
  moreover have "(?k, ?v) \<notin> set (?it s)"
    using iterate_set(1) [OF b, of "sto_db s" ?p cr "sto_cipher s"] it assms(5) by simp
  ultimately have ms: "mset (?it s') = add_mset (?k, ?v) (mset (?it s))"
    using iterate_set(2) [OF b] it s'(4) by (intro mset_insert_set) auto
  have len: "length ?k = 14" "13 \<le> length ?v"
    by (simp_all add: length_chat_key [OF suf] chat_value_def valueMagic_def)
  have ok: "\<not> (\<exists>kv \<in> set (?it s). 14 \<le> length (fst kv) \<and> length (snd kv) < 13)"
    and h: "h = srt chat_compare (map entry_of (filter (\<lambda>kv. 14 \<le> length (fst kv)) (?it s)))"
    using assms(4) unfolding hist [OF assms(1) refl] decode_entries_eq by (auto split: if_splits)
  let ?es = "map entry_of (filter (\<lambda>kv. 14 \<le> length (fst kv)) (?it s'))"
  have "set (?it s') = insert (?k, ?v) (set (?it s))" using arg_cong [OF ms, of set_mset] by simp
  then have "\<not> (\<exists>kv \<in> set (?it s'). 14 \<le> length (fst kv) \<and> length (snd kv) < 13)" using ok len by auto
  then have h': "GetChatHistory srt cr bd s' sid = Inr (srt chat_compare ?es)"
    unfolding hist [OF s'(2,4)] decode_entries_eq by (simp only: if_False sum.case)
  have srt: "mset (srt chat_compare xs) = mset xs" for xs using assms(3) unfolding sort_law_def by blast
  have "mset (srt chat_compare ?es) = add_mset (entry_of (?k, ?v)) (mset h)"
    unfolding h srt mset_map mset_filter ms by (simp add: len)
  moreover have "sorted_wrt (\<lambda>a b. chat_compare a b \<le> 0) (srt chat_compare ?es)"
    by (rule chat_sorted [OF assms(3)])
  ultimately show ?thesis
    using s'(1) h' entry_of_chat [OF suf, of now who ts payload] from_unix_nano [OF assms(6,7)] by simp
qed

text \<open>Insertion sort is a sort.\<close>

fun insert_by :: "('a \<Rightarrow> 'a \<Rightarrow> int) \<Rightarrow> 'a \<Rightarrow> 'a list \<Rightarrow> 'a list" where
  "insert_by cmp x [] = [x]"
| "insert_by cmp x (y # ys) = (if cmp x y \<le> 0 then x # y # ys else y # insert_by cmp x ys)"

definition insertion_sort :: "'a sort_func" where
  "insertion_sort cmp xs = foldr (insert_by cmp) xs []"

lemma mset_insert_by: "mset (insert_by cmp x ys) = add_mset x (mset ys)"
  by (induction ys) auto

lemma set_insert_by: "set (insert_by cmp x ys) = insert x (set ys)"
  by (induction ys) auto

lemma sorted_insert_by:
  assumes "\<forall>a b c. cmp a b \<le> 0 \<and> cmp b c \<le> 0 \<longrightarrow> cmp a c \<le> 0" "\<forall>a b. cmp a b \<le> 0 \<or> cmp b a \<le> 0"
  shows "sorted_wrt (\<lambda>a b. cmp a b \<le> (0 :: int)) ys \<Longrightarrow> sorted_wrt (\<lambda>a b. cmp a b \<le> 0) (insert_by cmp x ys)"
proof (induction ys)
  case (Cons y ys)
  then have ys: "\<And>b. b \<in> set ys \<Longrightarrow> cmp y b \<le> 0" "sorted_wrt (\<lambda>a b. cmp a b \<le> 0) (insert_by cmp x ys)"
      "sorted_wrt (\<lambda>a b. cmp a b \<le> 0) ys" by auto
  show ?case
  proof (cases "cmp x y \<le> 0")
    case True
    have "cmp x b \<le> 0" if "b \<in> set ys" for b using assms(1) True ys(1) [OF that] by blast
    with ys True show ?thesis by (simp del: sorted_wrt.simps add: sorted_wrt.simps(2))
  next
    case False
    then have "cmp y x \<le> 0" using assms(2) by blast
    with False ys show ?thesis by (simp add: set_insert_by)
  qed
qed simp

lemma insertion_sort_law: "sort_law insertion_sort"
proof -
  have "mset (foldr (insert_by cmp) xs []) = mset xs" for cmp :: "'a \<Rightarrow> 'a \<Rightarrow> int" and xs
    by (induction xs) (simp_all add: mset_insert_by)
  moreover have "sorted_wrt (\<lambda>a b. cmp a b \<le> 0) (foldr (insert_by cmp) xs [])"
    if "\<forall>a b c. cmp a b \<le> 0 \<and> cmp b c \<le> 0 \<longrightarrow> cmp a c \<le> 0" "\<forall>a b. cmp a b \<le> 0 \<or> cmp b a \<le> 0"
    for cmp :: "'a \<Rightarrow> 'a \<Rightarrow> int" and xs
    by (induction xs) (simp_all add: sorted_insert_by [OF that])
  ultimately show ?thesis unfolding sort_law_def insertion_sort_def by blast
qed

theorem chat_entry_kept_witness:
  "\<exists>es s' h'. run (AddChatEntry demo_crypto demo_bolt demo_storage demo_session (lit ''hi'') 7 SenderPeer)
       (ENow 0 # ERandom (replicate 4 0) # es) = Some ((s', Inr ()), []) \<and>
     GetChatHistory insertion_sort demo_crypto demo_bolt s' demo_session = Inr h' \<and>
     mset h' = {#\<lparr>ce_Timestamp = 7, ce_Data = lit ''hi'', ce_Sender = SenderPeer\<rparr>#}"
proof -
  let ?c = demo_crypto and ?b = demo_bolt and ?s = demo_storage
  have e: "bk_exists ?b (sto_db ?s) [SessionsNamespace, demo_session]"
    by (simp add: demo_bolt_def demo_storage_def path_defs)
  have l: "layout ?b (sto_db ?s)" using demo_store_ok by (simp add: store_ok_def)
  have none: "plain ?c ?b (sto_cipher ?s) (sto_db ?s) (chat_path demo_session) k = None" for k
    by (simp add: plain_def demo_bolt_def demo_storage_def path_defs)
  then have "ns_IterateEncrypted ?c ?b (sto_cipher ?s) (sto_db ?s) (Namespace (chat_path demo_session)) = []"
    using iterate_set(1) [OF demo_bolt_laws, of "sto_db ?s" "chat_path demo_session" ?c "sto_cipher ?s"]
      l e layout_leaf(2) [OF l] by (auto simp: layout_def)
  then have h: "GetChatHistory insertion_sort ?c ?b ?s demo_session = Inr []"
    by (simp add: GetChatHistory_def sto_Query_def Query_def sessionChat_eq [OF l] e insertion_sort_def)
  have k: "key_ok (chat_key 0 SenderPeer (replicate 4 0))" by (simp add: key_ok_def chat_key_def)
  obtain es z where "run (sto_Command ?b ?s (\<lambda>d. ns_PutEncrypted ?c ?b (sto_cipher ?s) d (sessionChat ?b d demo_session)
      (chat_key 0 SenderPeer (replicate 4 0)) (chat_value 7 (lit ''hi'')))) es = Some (z, [])"
    using yields_ex [OF add_chat_yields [OF demo_store_ok e k]] by blast
  then have r: "run (AddChatEntry ?c ?b ?s demo_session (lit ''hi'') 7 SenderPeer) (ENow 0 # ERandom (replicate 4 0) # es) =
      Some ((fst z, snd z), [])" by (simp add: AddChatEntry_def time_ok_0)
  from chat_entry_kept [OF demo_store_ok e insertion_sort_law h none _ _ r] r show ?thesis by auto
qed

end
