(* ===== verification/Fingerprint.thy ===== *)
theory Fingerprint
  imports Platform
begin

text \<open>
  The readable representations of keys of pkg/fingerprint: base64url and colon-separated hex, eight
  emojis, and pseudonyms of three words and a number. A Go string is its UTF-8 bytes.
\<close>

subsection \<open>Base64 and hex\<close>

definition base64url_alphabet :: bytes where
  "base64url_alphabet = lit ''ABCDEFGHIJKLMNOPQRSTUVWXYZabcdefghijklmnopqrstuvwxyz0123456789-_''"

definition b64 :: "nat \<Rightarrow> byte" where
  "b64 n = base64url_alphabet ! n"

text \<open>\<^verbatim>\<open>base64.RawURLEncoding\<close>: three bytes in four characters, no padding.\<close>

fun Base64 :: "bytes \<Rightarrow> bytes" where
  "Base64 [] = []"
| "Base64 [a] = [b64 (unat a div 4), b64 (unat a mod 4 * 16)]"
| "Base64 [a, b] =
     [b64 (unat a div 4), b64 (unat a mod 4 * 16 + unat b div 16), b64 (unat b mod 16 * 4)]"
| "Base64 (a # b # c # rest) =
     b64 (unat a div 4) # b64 (unat a mod 4 * 16 + unat b div 16) #
     b64 (unat b mod 16 * 4 + unat c div 64) # b64 (unat c mod 64) # Base64 rest"

definition Sum :: "crypto \<Rightarrow> bytes \<Rightarrow> bytes" where
  "Sum cr b = Base64 (sha256_sum cr b)"

definition hex_digits :: bytes where
  "hex_digits = lit ''0123456789ABCDEF''"

text \<open>The separator of \<^verbatim>\<open>Hex\<close> is written after every byte but the last.\<close>

fun Hex :: "bytes \<Rightarrow> bytes" where
  "Hex [] = []"
| "Hex [v] = [hex_digits ! (unat v div 16), hex_digits ! (unat v mod 16)]"
| "Hex (v # w # rest) =
     hex_digits ! (unat v div 16) # hex_digits ! (unat v mod 16) # lit '':'' @ Hex (w # rest)"

subsection \<open>Emojis and pseudonyms\<close>








subsection \<open>Facts\<close>

lemma alphabet_distinct: "distinct base64url_alphabet" "length base64url_alphabet = 64"
  by (simp_all add: base64url_alphabet_def lit_def)

lemma b64_eq: "m < 64 \<Longrightarrow> n < 64 \<Longrightarrow> b64 m = b64 n \<longleftrightarrow> m = n"
  using alphabet_distinct by (simp add: b64_def nth_eq_iff_index_eq)

lemma hex_distinct: "distinct hex_digits" "length hex_digits = 16"
  by (simp_all add: hex_digits_def lit_def)

lemma hex_eq: "m < 16 \<Longrightarrow> n < 16 \<Longrightarrow> hex_digits ! m = hex_digits ! n \<longleftrightarrow> m = n"
  using hex_distinct by (simp add: nth_eq_iff_index_eq)

lemma byte_lt: "unat (b :: byte) < 256"
  using unat_bound [of b] by simp

lemma byte_parts: "unat (a :: byte) div k = unat b div k \<Longrightarrow> unat a mod k = unat b mod k \<Longrightarrow> a = b"
  by (metis mult_div_mod_eq word_unat_eq_iff)

lemma length_Hex: "length (Hex b) = 3 * length b - 1"
  by (induction b rule: Hex.induct) simp_all

lemma length_Base64: "length (Base64 b) = (4 * length b + 2) div 3"
  by (induction b rule: Base64.induct) simp_all

lemma Hex_inject: "Hex x = Hex y \<Longrightarrow> x = y"
proof (induction x arbitrary: y rule: Hex.induct)
  case 1
  then show ?case by (cases y rule: Hex.cases) simp_all
next
  case (2 v)
  then obtain w where "y = [w]" by (cases y rule: Hex.cases) (auto simp: lit_def)
  with 2 show ?case using byte_parts [of v 16 w] byte_lt [of v] byte_lt [of w] by (simp add: hex_eq)
next
  case (3 v w rest)
  then obtain v' w' rest' where y: "y = v' # w' # rest'" by (cases y rule: Hex.cases) (auto simp: lit_def)
  from "3.prems" have "v = v'" "Hex (w # rest) = Hex (w' # rest')"
    using byte_parts [of v 16 v'] byte_lt [of v] byte_lt [of v'] by (simp_all add: y hex_eq)
  with "3.IH" y show ?case by simp
qed

lemma carry:
  fixes q q' r r' k :: nat
  assumes "q * k + r = q' * k + r'" "r < k" "r' < k"
  shows "q = q' \<and> r = r'"
proof -
  have "(q * k + r) div k = q" "(q' * k + r') div k = q'" using assms(2,3) by simp_all
  then have "q = q'" using assms(1) by simp
  then show ?thesis using assms(1) by simp
qed

lemma b64_bounds:
  "unat (a :: byte) div 4 < 64" "unat a mod 4 * 16 + unat (b :: byte) div 16 < 64" "unat a mod 4 * 16 < 64"
  "unat b mod 16 * 4 + unat (c :: byte) div 64 < 64" "unat b mod 16 * 4 < 64" "unat c mod 64 < 64"
proof -
  have "unat a mod 4 < 4" "unat b div 16 < 16" "unat b mod 16 < 16" "unat c div 64 < 4"
    using byte_lt [of b] byte_lt [of c] by (simp_all add: less_mult_imp_div_less)
  then show "unat a mod 4 * 16 + unat b div 16 < 64" "unat a mod 4 * 16 < 64"
    "unat b mod 16 * 4 + unat c div 64 < 64" "unat b mod 16 * 4 < 64" by linarith+
  show "unat a div 4 < 64" using byte_lt [of a] by (simp add: less_mult_imp_div_less)
  show "unat c mod 64 < 64" by simp
qed

lemma Base64_group:
  fixes a b a' b' :: byte
  assumes "b64 (unat a div 4) = b64 (unat a' div 4)"
    and "b64 (unat a mod 4 * 16 + unat b div 16) = b64 (unat a' mod 4 * 16 + unat b' div 16)"
  shows "a = a'" "unat b div 16 = unat b' div 16"
proof -
  have "unat b div 16 < 16" "unat b' div 16 < 16"
    using byte_lt [of b] byte_lt [of b'] by (simp_all add: less_mult_imp_div_less)
  with assms carry [of "unat a mod 4" 16 "unat b div 16"]
  have "unat a div 4 = unat a' div 4" "unat a mod 4 = unat a' mod 4" and b: "unat b div 16 = unat b' div 16"
    by (simp_all add: b64_eq b64_bounds)
  then show "a = a'" by (intro byte_parts)
  show "unat b div 16 = unat b' div 16" by (rule b)
qed

lemma Base64_inject: "Base64 x = Base64 y \<Longrightarrow> x = y"
proof (induction x arbitrary: y rule: Base64.induct)
  case 1
  then show ?case by (cases y rule: Base64.cases) simp_all
next
  case (2 a)
  then obtain a' where y: "y = [a']" by (cases y rule: Base64.cases) auto
  from 2 have "unat a div 4 = unat a' div 4" "unat a mod 4 = unat a' mod 4" by (simp_all add: y b64_eq b64_bounds)
  then show ?case unfolding y by (simp add: byte_parts)
next
  case (3 a b)
  then obtain a' b' where y: "y = [a', b']" by (cases y rule: Base64.cases) auto
  have "unat b mod 16 = unat b' mod 16" using 3 by (simp add: y b64_eq b64_bounds)
  with Base64_group [of a a' b b'] 3 show ?case unfolding y by (simp add: byte_parts)
next
  case (4 a b c rest)
  then obtain a' b' c' rest' where y: "y = a' # b' # c' # rest'" by (cases y rule: Base64.cases) auto
  have ab: "a = a'" "unat b div 16 = unat b' div 16" using Base64_group [of a a' b b'] "4.prems" by (simp_all add: y)
  have lt: "unat c div 64 < 4" "unat c' div 64 < 4"
    using byte_lt [of c] byte_lt [of c'] by (simp_all add: less_mult_imp_div_less)
  have "unat b mod 16 * 4 + unat c div 64 = unat b' mod 16 * 4 + unat c' div 64"
    using "4.prems" by (simp add: y b64_eq b64_bounds)
  from carry [OF this lt] have "unat b mod 16 = unat b' mod 16" "unat c div 64 = unat c' div 64" by auto
  moreover have "unat c mod 64 = unat c' mod 64" using "4.prems" by (simp add: y b64_eq b64_bounds)
  ultimately have "b = b'" "c = c'" using ab(2) by (auto intro: byte_parts)
  with ab(1) "4.IH" "4.prems" show ?case by (simp add: y)
qed




subsection \<open>Properties\<close>

text \<open>The exact representations lose nothing and have fixed lengths: different inputs have
  different hex and base64 texts, of three characters a byte less one, and of four characters to three
  bytes.\<close>

theorem hex_base64_exact:
  "(Hex x = Hex y) = (x = y) \<and> (Base64 x = Base64 y) = (x = y) \<and>
   length (Hex x) = 3 * length x - 1 \<and> length (Base64 x) = (4 * length x + 2) div 3"
  using Hex_inject [of x y] Base64_inject [of x y] by (auto simp: length_Hex length_Base64)


end
