(* ===== verification/Sessions.thy ===== *)
theory Sessions
  imports Handshake Storage Version Fingerprint
begin

text \<open>
  Establishing a session end to end: the introduction (intro.go), the resume messages (resume.go), the
  dialer (dial.go) and the server (server.go). The store is passed through every step. The remote
  verifier and the session handler are the application's: they are parameters, processes that may use
  the store, the clock and the connection. Dialing and listening are calls of the record \<open>network\<close>, and
  the options of the two constructors are values, applied in the order they are given.
\<close>

subsection \<open>Errors and sequencing\<close>

datatype session_error = Kam kerror | Sto serr

definition step ::
  "'s \<Rightarrow> (kerror + 'a) io \<Rightarrow> ('a \<Rightarrow> ('s \<times> (session_error + 'b)) io) \<Rightarrow> ('s \<times> (session_error + 'b)) io" where
  "step s p f = io_bind p (\<lambda>r. case r of Inl e \<Rightarrow> Return (s, Inl (Kam e)) | Inr x \<Rightarrow> f x)"

definition sto_step ::
  "('s \<times> (serr + 'a)) io \<Rightarrow> ('s \<Rightarrow> 'a \<Rightarrow> ('s \<times> (session_error + 'b)) io) \<Rightarrow> ('s \<times> (session_error + 'b)) io" where
  "sto_step p f = io_bind p (\<lambda>(s, r). case r of Inl e \<Rightarrow> Return (s, Inl (Sto e)) | Inr x \<Rightarrow> f s x)"

text \<open>\<^verbatim>\<open>checkVersion\<close> against the own version, on the bytes of a Go string.\<close>

definition of_bytes :: "bytes \<Rightarrow> string" where
  "of_bytes b = map (\<lambda>w. char_of (unat w)) b"

definition check_remote_version :: "bytes \<Rightarrow> kerror + unit" where
  "check_remote_version v =
     (case init_localSemver of
        None \<Rightarrow> Inl ErrPanic
      | Some own \<Rightarrow> (case checkVersion own (of_bytes v) of Inl _ \<Rightarrow> Inl ErrVersionMismatch | Inr _ \<Rightarrow> Inr ()))"

subsection \<open>The introduction\<close>

definition readSignedTransport :: "crypto \<Rightarrow> wire \<Rightarrow> link \<Rightarrow> (kerror + link \<times> signed_transport) io" where
  "readSignedTransport cr w l =
     io_try (link_read cr l) (\<lambda>(l', payload). Return (case unmarshal (w_st w) payload of
       Inl e \<Rightarrow> Inl e | Inr st \<Rightarrow> Inr (l', st)))"

definition plain_metadata :: "gotime option \<Rightarrow> route \<Rightarrow> metadata" where
  "plain_metadata t r = \<lparr>md_ID = [], md_Timestamp = t, md_Sequence = 0, md_Route = ToProto r\<rparr>"

definition sendIntroduction :: "crypto \<Rightarrow> wire \<Rightarrow> link \<Rightarrow> attest \<Rightarrow> bytes \<Rightarrow> bytes \<Rightarrow> (kerror + link) io" where
  "sendIntroduction cr w l at name version =
     (case marshal (w_introduce w) \<lparr>in_Name = name, in_PublicKey = MarshalPublicKey cr at, in_AppVersion = version\<rparr> of
        Inl e \<Rightarrow> Return (Inl e)
      | Inr message \<Rightarrow>
          Now (\<lambda>t. io_try (seal_envelope cr w at (plain_metadata (Some t) RouteIdentity) message)
            (\<lambda>payload. link_write cr l payload)))"

definition receiveIntroduction :: "crypto \<Rightarrow> wire \<Rightarrow> signed_transport \<Rightarrow> kerror + peer \<times> bytes" where
  "receiveIntroduction cr w st =
     (case routeFromST w st of
        Inl e \<Rightarrow> Inl e
      | Inr r \<Rightarrow>
          if r \<noteq> RouteIdentity then Inl ErrUnexpectedRoute
          else (case unmarshal (w_introduce w) (st_Data st) of
            Inl e \<Rightarrow> Inl e
          | Inr intro \<Rightarrow>
              if \<not> Verify cr (in_PublicKey intro) (signingInput (st_Metadata st) (st_Data st)) (st_Signature st)
              then Inl ErrInvalidSignature
              else Inr (\<lparr>FirstSeen = zero_time, LastSeen = zero_time, Name = in_Name intro,
                         AppVersionOf = in_AppVersion intro, PublicKey = in_PublicKey intro\<rparr>, in_AppVersion intro)))"

subsection \<open>The resume messages\<close>

definition sendResumeRequest :: "crypto \<Rightarrow> wire \<Rightarrow> link \<Rightarrow> attest \<Rightarrow> bytes \<Rightarrow> bytes \<Rightarrow> (kerror + link) io" where
  "sendResumeRequest cr w l at sid token =
     (case marshal (w_resume_request w) \<lparr>rr_SessionID = sid, rr_Token = token\<rparr> of
        Inl e \<Rightarrow> Return (Inl e)
      | Inr message \<Rightarrow>
          io_try (seal_envelope cr w at (plain_metadata None RouteResumeRequest) message)
            (\<lambda>payload. link_write cr l payload))"

definition receiveResumeAccept :: "crypto \<Rightarrow> wire \<Rightarrow> link \<Rightarrow> bytes \<Rightarrow> (kerror + link \<times> bool \<times> bytes) io" where
  "receiveResumeAccept cr w l remote =
     io_try (readSignedTransport cr w l) (\<lambda>(l', st). Return (
       case routeFromST w st of
         Inl e \<Rightarrow> Inl e
       | Inr r \<Rightarrow>
           if r \<noteq> RouteResumeAccept then Inl ErrUnexpectedRoute
           else if \<not> Verify cr remote (signingInput (st_Metadata st) (st_Data st)) (st_Signature st)
           then Inl ErrInvalidSignature
           else (case unmarshal (w_resume_accept w) (st_Data st) of
             Inl e \<Rightarrow> Inl e
           | Inr accept \<Rightarrow> Inr (l', ra_Accepted accept, ra_Reason accept))))"

definition reject_reason :: bytes where
  "reject_reason = lit ''resumption not available''"

definition sendResumeAccept :: "crypto \<Rightarrow> wire \<Rightarrow> link \<Rightarrow> attest \<Rightarrow> bool \<Rightarrow> (kerror + link) io" where
  "sendResumeAccept cr w l at yes =
     (case marshal (w_resume_accept w) \<lparr>ra_Accepted = yes, ra_Reason = (if yes then [] else reject_reason)\<rparr> of
        Inl e \<Rightarrow> Return (Inl e)
      | Inr message \<Rightarrow>
          io_try (seal_envelope cr w at (plain_metadata None RouteResumeAccept) message)
            (\<lambda>payload. link_write cr l payload))"

subsection \<open>Options and the common end\<close>

type_synonym 'd verifier = "'d storage \<Rightarrow> peer \<Rightarrow> ('d storage \<times> kerror option) io"
type_synonym 'd handler = "'d storage \<Rightarrow> transport \<Rightarrow> ('d storage \<times> kerror option) io"

record 'd handshake_opts =
  ho_remoteVerifier :: "'d verifier"
  ho_sessionID :: bytes
  ho_timeout :: duration

definition verify_remote ::
  "'d handshake_opts \<Rightarrow> 'd storage \<Rightarrow> peer \<Rightarrow> ('d storage \<Rightarrow> ('d storage \<times> (session_error + 'b)) io) \<Rightarrow>
   ('d storage \<times> (session_error + 'b)) io" where
  "verify_remote o' s p f =
     io_bind (ho_remoteVerifier o' s p) (\<lambda>(s', e). case e of Some e \<Rightarrow> Return (s', Inl (Kam e)) | None \<Rightarrow> f s')"

text \<open>The handshake is over: the transport moves to the plain connection, and the resumption tokens
  are stored, the result of that being ignored.\<close>

definition keep_tokens :: "crypto \<Rightarrow> 'd bolt \<Rightarrow> 'd storage \<Rightarrow> transport \<Rightarrow> 'd storage io" where
  "keep_tokens cr bd s t =
     io_bind (SetMeta cr bd s (t_sessionID t) (NewByteSlicesMeta ResumptionTokensKey
         (case deriveResumptionTokens cr t of None \<Rightarrow> [] | Some ts \<Rightarrow> ts)))
       (\<lambda>(s', _). Return s')"

definition on_plain :: "transport \<Rightarrow> peer \<Rightarrow> transport" where
  "on_plain t p = t\<lparr>t_conn := Plain, t_remotePeer := Some p\<rparr>"

subsection \<open>The dialer\<close>

text \<open>How connections are made is the operating system's business: a network gives a socket or an error.
  A dial function is the caller's own, or one of the two the options install.\<close>

record network =
  net_DialTimeout :: "bytes \<Rightarrow> duration \<Rightarrow> kerror + sock"
  kcp_Dial :: "bytes \<Rightarrow> kerror + sock"
  net_Listen :: "bytes \<Rightarrow> kerror option"
  kcp_Listen :: "bytes \<Rightarrow> kerror option"

datatype dial_func = OwnDial "bytes \<Rightarrow> kerror + conn" | TCPDial "conn_option list" | UDPDial "conn_option list"

record 'd dialer =
  dl_attest :: attest
  dl_storage :: "'d storage"
  dl_dialFunc :: "dial_func option"
  dl_clientName :: bytes
  dl_address :: bytes
  dl_handshakeOpts :: "'d handshake_opts"
  dl_connOpts :: "conn_option list"
  dl_dialTimeout :: duration

definition wrap_conn :: "conn_option list \<Rightarrow> kerror + sock \<Rightarrow> kerror + conn" where
  "wrap_conn opts r = (case r of Inl e \<Rightarrow> Inl e | Inr c \<Rightarrow> Inr (newConn c opts))"

definition dialer_dial :: "network \<Rightarrow> 'd dialer \<Rightarrow> bytes \<Rightarrow> kerror + conn" where
  "dialer_dial net d addr =
     (case dl_dialFunc d of
        Some (OwnDial f) \<Rightarrow> f addr
      | Some (TCPDial opts) \<Rightarrow> wrap_conn opts (net_DialTimeout net addr (dl_dialTimeout d))
      | Some (UDPDial opts) \<Rightarrow> wrap_conn opts (kcp_Dial net addr)
      | None \<Rightarrow> wrap_conn (dl_connOpts d) (net_DialTimeout net addr (dl_dialTimeout d)))"

definition attemptResume ::
  "crypto \<Rightarrow> wire \<Rightarrow> 'd bolt \<Rightarrow> 'd dialer \<Rightarrow> link \<Rightarrow> ('d storage \<times> (session_error + transport)) io" where
  "attemptResume cr w bd dl ec =
     (let sid = ho_sessionID (dl_handshakeOpts dl); at = dl_attest dl in
      sto_step (PopList cr bd (dl_storage dl) sid ResumptionTokensKey) (\<lambda>s1 token.
      sto_step (GetPeer cr w bd s1 sid) (\<lambda>s2 p.
      step s2 (sendResumeRequest cr w ec at sid token) (\<lambda>ec1.
      step s2 (receiveResumeAccept cr w ec1 (PublicKey p)) (\<lambda>(ec2, yes, _).
      if \<not> yes then Return (s2, Inl (Kam ErrResumptionRejected))
      else step s2 (requestHandshake cr w ec2 (newSignedSerde (PublicKey p) at) sid) (\<lambda>t.
        io_bind (keep_tokens cr bd s2 (on_plain t p)) (\<lambda>s3. Return (s3, Inr (on_plain t p)))))))))"

definition dial_cold ::
  "crypto \<Rightarrow> wire \<Rightarrow> 'd bolt \<Rightarrow> 'd dialer \<Rightarrow> link \<Rightarrow> ('d storage \<times> (session_error + transport)) io" where
  "dial_cold cr w bd dl ec =
     (let s = dl_storage dl; at = dl_attest dl in
      step s (sendIntroduction cr w ec at (dl_clientName dl) (lit AppVersion)) (\<lambda>ec1.
      step s (readSignedTransport cr w ec1) (\<lambda>(ec2, st).
      step s (Return (routeFromST w st)) (\<lambda>r.
      if r \<noteq> RouteIdentity then Return (s, Inl (Kam ErrUnexpectedRoute))
      else step s (Return (receiveIntroduction cr w st)) (\<lambda>(p, remoteVersion).
      step s (Return (check_remote_version remoteVersion)) (\<lambda>_.
      verify_remote (dl_handshakeOpts dl) s p (\<lambda>s1.
      step s1 (requestHandshake cr w ec2 (newSignedSerde (PublicKey p) at) (ho_sessionID (dl_handshakeOpts dl))) (\<lambda>t.
      io_bind (keep_tokens cr bd s1 (on_plain t p)) (\<lambda>s2. Return (s2, Inr (on_plain t p)))))))))))"

text \<open>\<^verbatim>\<open>Dialer.handshake\<close>: a deadline around the whole, cleared on the way out; a panic closes the
  connection and becomes an error.\<close>

definition dialer_handshake ::
  "crypto \<Rightarrow> wire \<Rightarrow> 'd bolt \<Rightarrow> 'd dialer \<Rightarrow> ('d storage \<times> (session_error + transport)) io" where
  "dialer_handshake cr w bd dl =
     Now (\<lambda>t. SetDeadline (t + ho_timeout (dl_handshakeOpts dl))
       (io_bind
         (step (dl_storage dl) (Initiate cr) (\<lambda>ch.
            if ho_sessionID (dl_handshakeOpts dl) \<noteq> [] then attemptResume cr w bd dl (Tunnelled ch)
            else dial_cold cr w bd dl (Tunnelled ch)))
         (\<lambda>(s, r). SetDeadline zero_time
            (if r = Inl (Kam ErrPanic) then CloseConn (\<lambda>_. Return (s, r)) else Return (s, r)))))"

text \<open>\<^verbatim>\<open>Dial\<close>: the process runs on the connection that was made.\<close>

definition Dial ::
  "crypto \<Rightarrow> wire \<Rightarrow> 'd bolt \<Rightarrow> network \<Rightarrow> 'd dialer \<Rightarrow> ('d storage \<times> (session_error + transport)) io" where
  "Dial cr w bd net dl =
     (case dialer_dial net dl (dl_address dl) of
        Inl e \<Rightarrow> Return (dl_storage dl, Inl (Kam e))
      | Inr _ \<Rightarrow>
          io_bind (dialer_handshake cr w bd dl) (\<lambda>(s, r). case r of
            Inl e \<Rightarrow> CloseConn (\<lambda>_. Return (s, Inl e))
          | Inr t \<Rightarrow> Return (s, Inr t)))"

text \<open>The options, in the order given; none of them fails.\<close>

datatype dial_option =
    DialWithFunc "bytes \<Rightarrow> kerror + conn" | DialWithTCP "conn_option list" | DialWithUDP "conn_option list"
  | DialWithDialTimeout duration | DialWithClientName bytes | DialWithResume bytes

fun apply_dial_option :: "dial_option \<Rightarrow> 'd dialer \<Rightarrow> 'd dialer" where
  "apply_dial_option (DialWithFunc f) d = d\<lparr>dl_dialFunc := Some (OwnDial f)\<rparr>"
| "apply_dial_option (DialWithTCP opts) d = d\<lparr>dl_dialFunc := Some (TCPDial opts)\<rparr>"
| "apply_dial_option (DialWithUDP opts) d = d\<lparr>dl_dialFunc := Some (UDPDial opts)\<rparr>"
| "apply_dial_option (DialWithDialTimeout t) d = d\<lparr>dl_dialTimeout := t\<rparr>"
| "apply_dial_option (DialWithClientName n) d = d\<lparr>dl_clientName := n\<rparr>"
| "apply_dial_option (DialWithResume sid) d =
     d\<lparr>dl_handshakeOpts := (dl_handshakeOpts d)\<lparr>ho_sessionID := sid\<rparr>\<rparr>"

definition no_attest :: attest where
  "no_attest = \<lparr>publicKey = [], privateKey = []\<rparr>"

text \<open>\<^verbatim>\<open>NewDialer\<close>; the identity is loaded last, and it names a dialer without a name.\<close>

definition NewDialer ::
  "crypto \<Rightarrow> 'd bolt \<Rightarrow> bytes \<Rightarrow> 'd storage \<Rightarrow> 'd verifier \<Rightarrow> dial_option list \<Rightarrow>
   ('d storage \<times> (session_error + 'd dialer)) io" where
  "NewDialer cr bd addr store rv opts =
     (let d = fold apply_dial_option opts
        \<lparr>dl_attest = no_attest, dl_storage = store, dl_dialFunc = None, dl_clientName = [], dl_address = addr,
         dl_handshakeOpts = \<lparr>ho_remoteVerifier = rv, ho_sessionID = [], ho_timeout = 30 * second\<rparr>,
         dl_connOpts = [], dl_dialTimeout = 10 * second\<rparr> in
      sto_step (Attester cr bd store) (\<lambda>store' at. Return (store', Inr (d\<lparr>dl_storage := store', dl_attest := at,
        dl_clientName := (if dl_clientName d = [] then Sum cr (MarshalPublicKey cr at) else dl_clientName d)\<rparr>))))"

subsection \<open>The server\<close>

datatype listener = TcpListener "conn_option list" | UdpListener "conn_option list" | OwnListener

record 'd server =
  sv_listener :: "listener option"
  sv_attest :: attest
  sv_storage :: "'d storage"
  sv_handlerFunc :: "'d handler"
  sv_serverName :: bytes
  sv_addr :: bytes
  sv_handshakeOpts :: "'d handshake_opts"
  sv_connOpts :: "conn_option list"
  sv_resumeEnabled :: bool
  sv_closed :: bool

definition resumptionGracePeriod :: duration where
  "resumptionGracePeriod = 24 * hour"

definition run_handler ::
  "'d handler \<Rightarrow> 'd storage \<Rightarrow> transport \<Rightarrow> ('d storage \<times> (session_error + unit)) io" where
  "run_handler h s t = io_bind (h s t) (\<lambda>(s', e). Return (s', case e of Some e \<Rightarrow> Inl (Kam e) | None \<Rightarrow> Inr ()))"

text \<open>The deadline of both handlers is cleared when they return, that is after the session handler.\<close>

definition under_deadline ::
  "duration \<Rightarrow> ('d storage \<times> (session_error + unit)) io \<Rightarrow> ('d storage \<times> (session_error + unit)) io" where
  "under_deadline timeout p =
     Now (\<lambda>t. SetDeadline (t + timeout) (io_bind p (\<lambda>z. SetDeadline zero_time (Return z))))"

definition handleNewConnection ::
  "crypto \<Rightarrow> wire \<Rightarrow> 'd bolt \<Rightarrow> 'd server \<Rightarrow> link \<Rightarrow> signed_transport \<Rightarrow> ('d storage \<times> (session_error + unit)) io" where
  "handleNewConnection cr w bd sv ec st =
     (let s = sv_storage sv; at = sv_attest sv in
      under_deadline (ho_timeout (sv_handshakeOpts sv))
        (step s (Return (receiveIntroduction cr w st)) (\<lambda>(p, remoteVersion).
         step s (Return (check_remote_version remoteVersion)) (\<lambda>_.
         verify_remote (sv_handshakeOpts sv) s p (\<lambda>s1.
         step s1 (sendIntroduction cr w ec at (sv_serverName sv) (lit AppVersion)) (\<lambda>ec1.
         step s1 (acceptHandshake cr w ec1 (newSignedSerde (PublicKey p) at) (ho_sessionID (sv_handshakeOpts sv))) (\<lambda>t.
         io_bind (keep_tokens cr bd s1 (on_plain t p)) (\<lambda>s2.
         run_handler (sv_handlerFunc sv) s2 (on_plain t p)))))))))"

text \<open>A rejection: the answer is sent, then the error returned.\<close>

definition reject ::
  "crypto \<Rightarrow> wire \<Rightarrow> 'd storage \<Rightarrow> link \<Rightarrow> attest \<Rightarrow> ('d storage \<times> (session_error + unit)) io" where
  "reject cr w s ec at =
     step s (sendResumeAccept cr w ec at False) (\<lambda>_. Return (s, Inl (Kam ErrResumeRejected)))"

definition resume_session ::
  "crypto \<Rightarrow> wire \<Rightarrow> 'd bolt \<Rightarrow> 'd server \<Rightarrow> 'd storage \<Rightarrow> link \<Rightarrow> signed_transport \<Rightarrow> bytes \<Rightarrow> peer \<Rightarrow> gotime \<Rightarrow>
   ('d storage \<times> (session_error + unit)) io" where
  "resume_session cr w bd sv s ec st sid p establishedAt =
     (if \<not> Verify cr (PublicKey p) (signingInput (st_Metadata st) (st_Data st)) (st_Signature st)
      then reject cr w s ec (sv_attest sv)
      else Now (\<lambda>now.
        if now - establishedAt > resumptionGracePeriod then reject cr w s ec (sv_attest sv)
        else
          step s (sendResumeAccept cr w ec (sv_attest sv) True) (\<lambda>ec1.
          step s (acceptHandshake cr w ec1 (newSignedSerde (PublicKey p) (sv_attest sv)) sid) (\<lambda>t.
          io_bind (keep_tokens cr bd s (on_plain t p)) (\<lambda>s1.
          run_handler (sv_handlerFunc sv) s1 (on_plain t p))))))"

definition handleResume ::
  "crypto \<Rightarrow> wire \<Rightarrow> 'd bolt \<Rightarrow> 'd server \<Rightarrow> link \<Rightarrow> signed_transport \<Rightarrow> ('d storage \<times> (session_error + unit)) io" where
  "handleResume cr w bd sv ec st =
     (let s = sv_storage sv in
      under_deadline (ho_timeout (sv_handshakeOpts sv))
        (step s (Return (unmarshal (w_resume_request w) (st_Data st))) (\<lambda>req.
         let sid = rr_SessionID req in
         io_bind (RemoveListItem cr bd s sid ResumptionTokensKey (rr_Token req)) (\<lambda>(s1, r).
         case r of
           Inl _ \<Rightarrow> reject cr w s1 ec (sv_attest sv)
         | Inr _ \<Rightarrow>
             sto_step (GetPeer cr w bd s1 sid) (\<lambda>s2 p.
             sto_step (Return (s2, GetEstablishedAt cr bd s2 sid)) (\<lambda>s2 establishedAt.
             resume_session cr w bd sv s2 ec st sid p establishedAt))))))"

definition serve_route ::
  "crypto \<Rightarrow> wire \<Rightarrow> 'd bolt \<Rightarrow> 'd server \<Rightarrow> link \<Rightarrow> signed_transport \<Rightarrow> ('d storage \<times> (session_error + unit)) io" where
  "serve_route cr w bd sv ec st =
     step (sv_storage sv) (Return (routeFromST w st)) (\<lambda>route.
       if route = RouteIdentity then handleNewConnection cr w bd sv ec st
       else if route = RouteResumeRequest then
         (if \<not> sv_resumeEnabled sv then Return (sv_storage sv, Inl (Kam ErrUnexpectedRoute))
          else handleResume cr w bd sv ec st)
       else Return (sv_storage sv, Inl (Kam ErrUnexpectedRoute)))"

text \<open>One connection; it is closed whatever happens, and a panic becomes an error.\<close>

definition serve ::
  "crypto \<Rightarrow> wire \<Rightarrow> 'd bolt \<Rightarrow> 'd server \<Rightarrow> ('d storage \<times> (session_error + unit)) io" where
  "serve cr w bd sv =
     io_bind
       (step (sv_storage sv) (Accept cr) (\<lambda>ch.
        step (sv_storage sv) (readSignedTransport cr w (Tunnelled ch)) (\<lambda>(ec, st).
        serve_route cr w bd sv ec st)))
       (\<lambda>z. CloseConn (\<lambda>_. Return z))"

text \<open>The accept loop: what the listener returns, call by call. Every accepted connection is served in a
  goroutine of its own; the loop ends when the listener is closed.\<close>

datatype 'c accept_result = Accepted 'c | AcceptError | ListenerClosed

fun accept_loop :: "'c accept_result list \<Rightarrow> 'c list \<times> bool" where
  "accept_loop [] = ([], False)"
| "accept_loop (ListenerClosed # rs) = ([], True)"
| "accept_loop (AcceptError # rs) = accept_loop rs"
| "accept_loop (Accepted c # rs) = (let (cs, ended) = accept_loop rs in (c # cs, ended))"

text \<open>The \<^verbatim>\<open>Accept\<close> of the two listeners wraps the socket with the connection options.\<close>

definition listener_Accept :: "conn_option list \<Rightarrow> sock accept_result \<Rightarrow> conn accept_result" where
  "listener_Accept opts r = map_accept_result (\<lambda>c. newConn c opts) r"

definition ListenAndServe ::
  "network \<Rightarrow> 'd server \<Rightarrow> 'c accept_result list \<Rightarrow> 'd server \<times> (kerror + 'c list \<times> bool)" where
  "ListenAndServe net sv accepts =
     (if sv_closed sv then (sv, Inl ErrClosedServer)
      else if sv_listener sv = None then
        (case net_Listen net (sv_addr sv) of
           Some e \<Rightarrow> (sv, Inl e)
         | None \<Rightarrow> (sv\<lparr>sv_listener := Some (TcpListener (sv_connOpts sv))\<rparr>, Inr (accept_loop accepts)))
      else (sv, Inr (accept_loop accepts)))"

text \<open>\<^verbatim>\<open>Close\<close>; the second component says whether the listener is closed by this call.\<close>

definition Server_Close :: "'d server \<Rightarrow> 'd server \<times> bool" where
  "Server_Close sv =
     (if sv_closed sv then (sv, False) else (sv\<lparr>sv_closed := True\<rparr>, sv_listener sv \<noteq> None))"

text \<open>The options of a server; two of them listen at once and may fail. A clock is what the readings of
  \<^const>\<open>Now\<close> come from, whichever it is.\<close>

datatype server_option =
    ServeWithServerName bytes | ServeWithTCP "conn_option list" | ServeWithUDP "conn_option list"
  | ServeWithListener | ServeWithResumeEnabled bool | ServeWithClock

fun apply_server_option :: "network \<Rightarrow> server_option \<Rightarrow> 'd server \<Rightarrow> kerror + 'd server" where
  "apply_server_option net (ServeWithServerName n) s = Inr (s\<lparr>sv_serverName := n\<rparr>)"
| "apply_server_option net (ServeWithTCP opts) s =
     (case net_Listen net (sv_addr s) of
        Some e \<Rightarrow> Inl e
      | None \<Rightarrow> Inr (s\<lparr>sv_connOpts := opts, sv_listener := Some (TcpListener opts)\<rparr>))"
| "apply_server_option net (ServeWithUDP opts) s =
     (case kcp_Listen net (sv_addr s) of
        Some e \<Rightarrow> Inl e
      | None \<Rightarrow> Inr (s\<lparr>sv_connOpts := opts, sv_listener := Some (UdpListener opts)\<rparr>))"
| "apply_server_option net ServeWithListener s = Inr (s\<lparr>sv_listener := Some OwnListener\<rparr>)"
| "apply_server_option net (ServeWithResumeEnabled b) s = Inr (s\<lparr>sv_resumeEnabled := b\<rparr>)"
| "apply_server_option net ServeWithClock s = Inr s"

fun apply_server_options :: "network \<Rightarrow> server_option list \<Rightarrow> 'd server \<Rightarrow> kerror + 'd server" where
  "apply_server_options net [] s = Inr s"
| "apply_server_options net (o' # os) s =
     (case apply_server_option net o' s of Inl e \<Rightarrow> Inl e | Inr s' \<Rightarrow> apply_server_options net os s')"

definition NewServer ::
  "crypto \<Rightarrow> 'd bolt \<Rightarrow> network \<Rightarrow> bytes \<Rightarrow> 'd handler \<Rightarrow> 'd storage \<Rightarrow> 'd verifier \<Rightarrow> server_option list \<Rightarrow>
   ('d storage \<times> (session_error + 'd server)) io" where
  "NewServer cr bd net addr handler store rv opts =
     (case apply_server_options net opts
        \<lparr>sv_listener = None, sv_attest = no_attest, sv_storage = store, sv_handlerFunc = handler, sv_serverName = [],
         sv_addr = addr, sv_handshakeOpts = \<lparr>ho_remoteVerifier = rv, ho_sessionID = [], ho_timeout = 30 * second\<rparr>,
         sv_connOpts = [], sv_resumeEnabled = True, sv_closed = False\<rparr> of
        Inl e \<Rightarrow> Return (store, Inl (Kam e))
      | Inr s \<Rightarrow>
          sto_step (Attester cr bd store) (\<lambda>store' at. Return (store', Inr (s\<lparr>sv_storage := store', sv_attest := at,
            sv_serverName := (if sv_serverName s = [] then Sum cr (MarshalPublicKey cr at) else sv_serverName s)\<rparr>))))"

subsection \<open>Signed messages in the tunnel\<close>

definition sealed_st :: "crypto \<Rightarrow> wire \<Rightarrow> attest \<Rightarrow> metadata \<Rightarrow> bytes \<Rightarrow> signed_transport \<Rightarrow> bool" where
  "sealed_st cr w at md message st \<longleftrightarrow> st_Data st = message \<and> dec (w_md w) (st_Metadata st) = Some md \<and>
     st_Signature st = Sign cr at (signingInput (st_Metadata st) message)"

lemma sealed_open: "sealed cr w at md message b \<Longrightarrow> \<exists>st. dec (w_st w) b = Some st \<and> sealed_st cr w at md message st"
  by (auto simp: sealed_def sealed_st_def split: option.splits)

lemma plain_metadata_ok:
  "(\<And>x. t = Some x \<Longrightarrow> time_ok x) \<Longrightarrow> md_ok (plain_metadata t r)" "length (md_ID (plain_metadata t r)) \<le> 26"
  by (auto simp: plain_metadata_def md_ok_def ascii_def ToProto_eq IsValid_iff split: option.splits)

lemma signed_left:
  assumes "good_laws cr w" "length message \<le> maxTransportSize" "md_ok md" "length (md_ID md) \<le> 26"
    and "linked n m a b" "n < 2 ^ 64"
    and "\<And>a' b' st. linked (Suc n) m a' b' \<Longrightarrow> sealed_st cr w at md message st \<Longrightarrow>
       settles Q ((f (Inr a'), []), (g (Inr (b', st)), []))"
  shows "settles Q ((io_bind (io_try (seal_envelope cr w at md message) (\<lambda>p. link_write cr a p)) f, []),
     (io_bind (readSignedTransport cr w b) g, []))"
proof -
  note laws = good_lawsD [OF assms(1)]
  have "settles Q ((io_bind (link_write cr a p) f, []), (io_bind (readSignedTransport cr w b) g, []))"
    if p: "sealed cr w at md message p" for p
  proof -
    obtain st where st: "dec (w_st w) p = Some st" "sealed_st cr w at md message st" using sealed_open [OF p] by blast
    show ?thesis
      unfolding link_write_def readSignedTransport_def link_read_def io_try_def io_bind_assoc
      by (rule link_send_left [OF laws(5) assms(5,6)]) (simp add: unmarshal_def st assms(7))
  qed
  then show ?thesis
    unfolding io_try_def io_bind_assoc
    by (intro yields_left [OF seal_yields [OF laws(6,7,1) assms(3,4,2)]]) auto
qed

lemma signed_right:
  assumes "good_laws cr w" "length message \<le> maxTransportSize" "md_ok md" "length (md_ID md) \<le> 26"
    and "linked n m a b" "m < 2 ^ 64"
    and "\<And>a' b' st. linked n (Suc m) a' b' \<Longrightarrow> sealed_st cr w at md message st \<Longrightarrow>
       settles Q ((g (Inr (a', st)), []), (f (Inr b'), []))"
  shows "settles Q ((io_bind (readSignedTransport cr w a) g, []),
     (io_bind (io_try (seal_envelope cr w at md message) (\<lambda>p. link_write cr b p)) f, []))"
  by (rule settles_swap, rule signed_left [OF assms(1-4) linked_sym [OF assms(5)] assms(6)],
      rule settles_swap, rule assms(7), erule linked_sym)

lemma route_of_sealed:
  "sealed_st cr w at (plain_metadata t r) message st \<Longrightarrow> IsValid r \<Longrightarrow> routeFromST w st = Inr r"
  by (simp add: sealed_st_def routeFromST_def unmarshal_def plain_metadata_def md_route_def RouteFromProto_ToProto)

lemma verify_sealed:
  "sealed_st cr w at md message st \<Longrightarrow> sign_law cr \<Longrightarrow> attest_ok cr at \<Longrightarrow>
     Verify cr (MarshalPublicKey cr at) (signingInput (st_Metadata st) (st_Data st)) (st_Signature st)"
  by (simp add: sealed_st_def Verify_Sign)

subsection \<open>The introduction, received\<close>

definition intro_of :: "crypto \<Rightarrow> attest \<Rightarrow> bytes \<Rightarrow> introduce" where
  "intro_of cr at name = \<lparr>in_Name = name, in_PublicKey = MarshalPublicKey cr at, in_AppVersion = lit AppVersion\<rparr>"

text \<open>A name that fits an introduction.\<close>

definition name_ok :: "crypto \<Rightarrow> wire \<Rightarrow> attest \<Rightarrow> bytes \<Rightarrow> bool" where
  "name_ok cr w at name \<longleftrightarrow> ascii name \<and>
     (\<forall>b. enc (w_introduce w) (intro_of cr at name) = Some b \<longrightarrow> length b \<le> maxTransportSize)"

definition introduced :: "crypto \<Rightarrow> attest \<Rightarrow> bytes \<Rightarrow> peer" where
  "introduced cr at name = \<lparr>FirstSeen = zero_time, LastSeen = zero_time, Name = name,
     AppVersionOf = lit AppVersion, PublicKey = MarshalPublicKey cr at\<rparr>"

lemma ascii_AppVersion: "ascii (lit AppVersion)"
  by (simp add: ascii_def AppVersion_def lit_def)

lemma intro_message:
  assumes "wire_laws w" "name_ok cr w at name"
  obtains message where "marshal (w_introduce w) (intro_of cr at name) = Inr message"
    "dec (w_introduce w) message = Some (intro_of cr at name)" "length message \<le> maxTransportSize"
proof -
  have "ascii (in_Name (intro_of cr at name)) \<and> ascii (in_AppVersion (intro_of cr at name))"
    using assms(2) ascii_AppVersion by (simp add: name_ok_def intro_of_def)
  then obtain b where "enc (w_introduce w) (intro_of cr at name) = Some b"
      "dec (w_introduce w) b = Some (intro_of cr at name)"
    using assms(1) unfolding wire_laws_def codec_ok_def by blast
  then show ?thesis using assms(2) that [of b] by (simp add: marshal_def name_ok_def)
qed

lemma identity_route: "IsValid RouteIdentity" "IsValid RouteResumeRequest" "IsValid RouteResumeAccept"
  by (simp_all add: IsValid_def)

lemma receive_sealed:
  assumes "sealed_st cr w at (plain_metadata t RouteIdentity) message st" "sign_law cr" "attest_ok cr at"
    and "dec (w_introduce w) message = Some (intro_of cr at name)"
  shows "receiveIntroduction cr w st = Inr (introduced cr at name, lit AppVersion)"
  using assms(4) route_of_sealed [OF assms(1) identity_route(1)] verify_sealed [OF assms(1-3)] assms(1)
  by (simp add: receiveIntroduction_def unmarshal_def sealed_st_def intro_of_def introduced_def)

lemma own_version_ok: "check_remote_version (lit AppVersion) = Inr ()"
proof -
  have "of_bytes (lit AppVersion) = AppVersion" by code_simp
  moreover have "parseSemver AppVersion = Inr \<lparr>major = 0, minor = 7, patch = 0\<rparr>" by code_simp
  ultimately show ?thesis
    by (auto simp: check_remote_version_def init_localSemver_def checkVersion_def)
qed

subsection \<open>Storing the tokens\<close>

definition tokens_of :: "crypto \<Rightarrow> transport \<Rightarrow> bytes list" where
  "tokens_of cr t = (case deriveResumptionTokens cr t of None \<Rightarrow> [] | Some ts \<Rightarrow> ts)"

lemma keep_tokens_yields:
  assumes "store_ok cr bd s"
  shows "yields (keep_tokens cr bd s t) (\<lambda>s'. store_ok cr bd s' \<and> metas cr bd s' =
     (if metas cr bd s (t_sessionID t) = None then metas cr bd s
      else spec_set (metas cr bd s) (t_sessionID t) ResumptionTokensKey (serializeList (tokens_of cr t))))"
proof -
  have "NewByteSlicesMeta ResumptionTokensKey (tokens_of cr t) = NewBytesMeta ResumptionTokensKey (serializeList (tokens_of cr t))"
    by (simp add: NewByteSlicesMeta_def NewBytesMeta_def)
  then show ?thesis
    unfolding keep_tokens_def tokens_of_def [symmetric]
    using set_meta_refines [OF assms meta_keys_ok(3), of "t_sessionID t" "serializeList (tokens_of cr t)"]
    by (auto elim!: yields_bind split: if_splits)
qed

lemma agreed_on_plain: "agreed cr n m sid a b \<Longrightarrow> agreed cr 0 0 sid (on_plain a p) (on_plain b q)"
  unfolding agreed_def instep_def flows_def on_plain_def by (elim conjE) (intro conjI; simp del: not_None_eq)

lemma on_plain_simps [simp]: "t_sessionID (on_plain t p) = t_sessionID t" "t_remotePeer (on_plain t p) = Some p"
  "t_conn (on_plain t p) = Plain" "t_resumptionRoot (on_plain t p) = t_resumptionRoot t" "t_serde (on_plain t p) = t_serde t"
  by (simp_all add: on_plain_def)

lemma tokens_on_plain [simp]: "tokens_of cr (on_plain t p) = tokens_of cr t"
  by (simp add: tokens_of_def deriveResumptionTokens_def)

lemma agreed_tokens: "agreed cr n m sid a b \<Longrightarrow> tokens_of cr a = tokens_of cr b"
  by (simp add: agreed_def tokens_of_def deriveResumptionTokens_def)

subsection \<open>A new session between two honest parties\<close>

text \<open>An application's verifier that accepts a peer and keeps the store in order.\<close>

definition trusts :: "crypto \<Rightarrow> 'd bolt \<Rightarrow> 'd verifier \<Rightarrow> peer \<Rightarrow> bool" where
  "trusts cr bd V p \<longleftrightarrow> (\<forall>s. store_ok cr bd s \<longrightarrow> yields (V s p) (\<lambda>(s', e). e = None \<and> store_ok cr bd s'))"

definition dialer_ok :: "crypto \<Rightarrow> wire \<Rightarrow> 'd bolt \<Rightarrow> 'd dialer \<Rightarrow> bool" where
  "dialer_ok cr w bd dl \<longleftrightarrow> store_ok cr bd (dl_storage dl) \<and> attest_ok cr (dl_attest dl) \<and>
     name_ok cr w (dl_attest dl) (dl_clientName dl)"

definition dials :: "network \<Rightarrow> 'd dialer \<Rightarrow> bool" where
  "dials net dl \<longleftrightarrow> (case dialer_dial net dl (dl_address dl) of Inl _ \<Rightarrow> False | Inr _ \<Rightarrow> True)"

definition server_ok :: "crypto \<Rightarrow> wire \<Rightarrow> 'd bolt \<Rightarrow> 'd server \<Rightarrow> bool" where
  "server_ok cr w bd sv \<longleftrightarrow> store_ok cr bd (sv_storage sv) \<and> attest_ok cr (sv_attest sv) \<and>
     name_ok cr w (sv_attest sv) (sv_serverName sv)"

text \<open>The metadata once the tokens of a transport have been offered to the store: they are kept if the
  session has a record.\<close>

definition with_tokens :: "crypto \<Rightarrow> transport \<Rightarrow> meta_state \<Rightarrow> meta_state" where
  "with_tokens cr t m = (if m (t_sessionID t) = None then m
     else spec_set m (t_sessionID t) ResumptionTokensKey (serializeList (tokens_of cr t)))"

lemma keep_tokens_on_plain:
  "store_ok cr bd s \<Longrightarrow> yields (keep_tokens cr bd s (on_plain t p))
     (\<lambda>s'. store_ok cr bd s' \<and> metas cr bd s' = with_tokens cr t (metas cr bd s))"
  using keep_tokens_yields [of cr bd s "on_plain t p"]
  by (cases "metas cr bd s (t_sessionID t)") (simp_all add: with_tokens_def)

text \<open>Two ends that have met: the dialer, with its store and transport, and the server as its handler
  starts. They agree, each knows the other's key, and each store holds the tokens of the session unless
  it has no record of it.\<close>

definition tokens_kept :: "crypto \<Rightarrow> 'd bolt \<Rightarrow> 'd storage \<Rightarrow> transport \<Rightarrow> bool" where
  "tokens_kept cr bd s t \<longleftrightarrow> (metas cr bd s (t_sessionID t) \<noteq> None \<longrightarrow>
     spec_get (metas cr bd s) (t_sessionID t) ResumptionTokensKey = Inr (serializeList (tokens_of cr t)))"

definition met ::
  "crypto \<Rightarrow> 'd bolt \<Rightarrow> bytes \<Rightarrow> attest \<Rightarrow> attest \<Rightarrow> 'd storage \<times> transport \<Rightarrow> 'd storage \<times> transport \<Rightarrow> bool" where
  "met cr bd sid ad as x y \<longleftrightarrow> agreed cr 0 0 sid (snd x) (snd y) \<and>
     map_option PublicKey (t_remotePeer (snd x)) = Some (MarshalPublicKey cr as) \<and>
     map_option PublicKey (t_remotePeer (snd y)) = Some (MarshalPublicKey cr ad) \<and>
     store_ok cr bd (fst x) \<and> store_ok cr bd (fst y) \<and>
     tokens_kept cr bd (fst x) (snd x) \<and> tokens_kept cr bd (fst y) (snd y)"

lemma with_tokens_kept:
  "metas cr bd s = with_tokens cr t m \<Longrightarrow> tokens_kept cr bd s (on_plain t p)"
  by (auto simp: tokens_kept_def with_tokens_def spec_get_def spec_set_def)

lemma handshake_then:
  assumes "good_laws cr w" "store_ok cr bd s1" "store_ok cr bd s2"
    and "acquainted cr sa sb" "linked n m la lb" "n + 3 \<le> 2 ^ 64" "m + 3 \<le> 2 ^ 64" "session_opt sid"
    and keys: "PublicKey p = MarshalPublicKey cr as" "PublicKey q = MarshalPublicKey cr ad"
    and "\<And>x a y b. met cr bd sid ad as (x, a) (y, b) \<Longrightarrow> metas cr bd x = with_tokens cr a (metas cr bd s1) \<Longrightarrow>
       metas cr bd y = with_tokens cr b (metas cr bd s2) \<Longrightarrow>
       settles Q ((f (x, Inr a), []), (io_bind (run_handler H y b) g, []))"
  shows "settles Q
     ((io_bind (step s1 (requestHandshake cr w la sa sid) (\<lambda>t.
        io_bind (keep_tokens cr bd s1 (on_plain t p)) (\<lambda>s2. Return (s2, Inr (on_plain t p))))) f, []),
      (io_bind (step s2 (acceptHandshake cr w lb sb sid) (\<lambda>t.
         io_bind (keep_tokens cr bd s2 (on_plain t q)) (\<lambda>s3. run_handler H s3 (on_plain t q)))) g, []))"
  unfolding step_def io_bind_assoc
proof (rule settles_bind [OF handshake_settles_both [OF assms(1,4-8)]], clarsimp simp: io_bind_assoc)
  fix a b assume ab: "agreed cr (n + 3) (m + 3) sid a b"
  have tok: "with_tokens cr (on_plain t r) = with_tokens cr t" for t r by (simp add: with_tokens_def fun_eq_iff)
  show "settles Q ((io_bind (keep_tokens cr bd s1 (on_plain a p)) (\<lambda>s2. f (s2, Inr (on_plain a p))), []),
     (io_bind (keep_tokens cr bd s2 (on_plain b q)) (\<lambda>s3. io_bind (run_handler H s3 (on_plain b q)) g), []))"
    by (rule yields_left [OF keep_tokens_on_plain [OF assms(2)]],
        rule yields_right [OF keep_tokens_on_plain [OF assms(3)]], rule assms(11))
       (auto simp: met_def agreed_on_plain [OF ab] keys tok intro: with_tokens_kept)
qed

lemma step_simps [simp]:
  "step s (Return (Inr x)) f = f x" "step s (Return (Inl e)) f = Return (s, Inl (Kam e))"
  by (simp_all add: step_def)

lemma intro_left:
  assumes "good_laws cr w" "attest_ok cr at" "name_ok cr w at name" "linked n m a b" "n < 2 ^ 64"
    and "\<And>a' b' st. linked (Suc n) m a' b' \<Longrightarrow> routeFromST w st = Inr RouteIdentity \<Longrightarrow>
       receiveIntroduction cr w st = Inr (introduced cr at name, lit AppVersion) \<Longrightarrow>
       settles Q ((io_bind (f a') k, []), (io_bind (g (b', st)) k', []))"
  shows "settles Q ((io_bind (step s (sendIntroduction cr w a at name (lit AppVersion)) f) k, []),
     (io_bind (step s' (readSignedTransport cr w b) g) k', []))"
proof -
  obtain message where m: "marshal (w_introduce w) (intro_of cr at name) = Inr message"
      "dec (w_introduce w) message = Some (intro_of cr at name)" "length message \<le> maxTransportSize"
    by (rule intro_message [OF good_lawsD(6) [OF assms(1)] assms(3)])
  show ?thesis
    unfolding sendIntroduction_def m(1) [unfolded intro_of_def] sum.case step_def io_bind.simps io_bind_assoc
  proof (rule settles_left_Now, rule signed_left [OF assms(1) m(3) plain_metadata_ok(1) plain_metadata_ok(2) assms(4,5)])
    fix t a' b' st
    assume l: "linked (Suc n) m a' b'" and st: "sealed_st cr w at (plain_metadata (Some t) RouteIdentity) message st"
    from assms(6) [OF l route_of_sealed [OF st identity_route(1)] receive_sealed [OF st good_lawsD(1) [OF assms(1)] assms(2) m(2)]]
    show "settles Q ((io_bind (case Inr a' of Inl e \<Rightarrow> Return (s, Inl (Kam e)) | Inr x \<Rightarrow> f x) k, []),
        (io_bind (case Inr (b', st) of Inl e \<Rightarrow> Return (s', Inl (Kam e)) | Inr x \<Rightarrow> g x) k', []))" by simp
  qed simp
qed

lemma intro_right:
  assumes "good_laws cr w" "attest_ok cr at" "name_ok cr w at name" "linked n m a b" "m < 2 ^ 64"
    and "\<And>a' b' st. linked n (Suc m) a' b' \<Longrightarrow> routeFromST w st = Inr RouteIdentity \<Longrightarrow>
       receiveIntroduction cr w st = Inr (introduced cr at name, lit AppVersion) \<Longrightarrow>
       settles Q ((io_bind (g (a', st)) k', []), (io_bind (f b') k, []))"
  shows "settles Q ((io_bind (step s' (readSignedTransport cr w a) g) k', []),
     (io_bind (step s (sendIntroduction cr w b at name (lit AppVersion)) f) k, []))"
  by (rule settles_swap, rule intro_left [OF assms(1-3) linked_sym [OF assms(4)] assms(5)],
      rule settles_swap, rule assms(6), erule linked_sym)

lemma verified_left:
  assumes "trusts cr bd (ho_remoteVerifier o') p" "store_ok cr bd s"
    and "\<And>s'. store_ok cr bd s' \<Longrightarrow> settles Q ((io_bind (f s') k, []), c)"
  shows "settles Q ((io_bind (verify_remote o' s p f) k, []), c)"
proof -
  obtain r q where c: "c = (r, q)" by force
  have "yields (ho_remoteVerifier o' s p) (\<lambda>(s', e). e = None \<and> store_ok cr bd s')"
    using assms(1,2) by (simp add: trusts_def)
  then show ?thesis unfolding c verify_remote_def io_bind_assoc
    by (rule yields_left) (use assms(3) c in auto)
qed

lemma verified_right:
  assumes "trusts cr bd (ho_remoteVerifier o') p" "store_ok cr bd s"
    and "\<And>s'. store_ok cr bd s' \<Longrightarrow> settles Q (c, (io_bind (f s') k, []))"
  shows "settles Q (c, (io_bind (verify_remote o' s p f) k, []))"
proof -
  obtain r q where c: "c = (r, q)" by force
  have "yields (ho_remoteVerifier o' s p) (\<lambda>(s', e). e = None \<and> store_ok cr bd s')"
    using assms(1,2) by (simp add: trusts_def)
  then show ?thesis unfolding c verify_remote_def io_bind_assoc
    by (rule yields_right) (use assms(3) c in auto)
qed

lemma acquainted_new:
  "attest_ok cr a \<Longrightarrow> attest_ok cr b \<Longrightarrow>
     acquainted cr (newSignedSerde (MarshalPublicKey cr b) a) (newSignedSerde (MarshalPublicKey cr a) b)"
  by (simp add: acquainted_def newSignedSerde_def)

lemma PublicKey_introduced [simp]: "PublicKey (introduced cr at name) = MarshalPublicKey cr at"
  by (simp add: introduced_def)

text \<open>From the open tunnel on, with whatever the two do next.\<close>

lemma cold_tunnel:
  assumes laws: "good_laws cr w" and dl: "dialer_ok cr w bd dl" and sv: "server_ok cr w bd sv"
    and sid: "ho_sessionID (dl_handshakeOpts dl) = []" "ho_sessionID (sv_handshakeOpts sv) = []"
    and tr: "trusts cr bd (ho_remoteVerifier (dl_handshakeOpts dl)) (introduced cr (sv_attest sv) (sv_serverName sv))"
      "trusts cr bd (ho_remoteVerifier (sv_handshakeOpts sv)) (introduced cr (dl_attest dl) (dl_clientName dl))"
    and l: "linked 0 0 la lb"
    and next': "\<And>x a y b. met cr bd [] (dl_attest dl) (sv_attest sv) (x, a) (y, b) \<Longrightarrow>
       settles Q ((k (x, Inr a), []), (io_bind (run_handler (sv_handlerFunc sv) y b) (\<lambda>z. SetDeadline zero_time (k' z)), []))"
  shows "settles Q ((io_bind (dial_cold cr w bd dl la) k, []),
     (io_bind (step (sv_storage sv) (readSignedTransport cr w lb) (\<lambda>(ec, st). serve_route cr w bd sv ec st)) k', []))"
  unfolding dial_cold_def Let_def
proof (rule intro_left [OF laws _ _ l])
  show at: "attest_ok cr (dl_attest dl)" "name_ok cr w (dl_attest dl) (dl_clientName dl)" using dl by (simp_all add: dialer_ok_def)
  have as: "attest_ok cr (sv_attest sv)" "name_ok cr w (sv_attest sv) (sv_serverName sv)" using sv by (simp_all add: server_ok_def)
  have so: "store_ok cr bd (dl_storage dl)" "store_ok cr bd (sv_storage sv)"
    using dl sv by (simp_all add: dialer_ok_def server_ok_def)
  fix a1 b1 st1
  assume l1: "linked (Suc 0) 0 a1 b1" and st1: "routeFromST w st1 = Inr RouteIdentity"
    "receiveIntroduction cr w st1 = Inr (introduced cr (dl_attest dl) (dl_clientName dl), lit AppVersion)"
  have last: "settles Q
     ((io_bind (verify_remote (dl_handshakeOpts dl) (dl_storage dl) (introduced cr (sv_attest sv) (sv_serverName sv)) (\<lambda>s1.
        step s1 (requestHandshake cr w a2 (newSignedSerde (MarshalPublicKey cr (sv_attest sv)) (dl_attest dl)) []) (\<lambda>t.
        io_bind (keep_tokens cr bd s1 (on_plain t (introduced cr (sv_attest sv) (sv_serverName sv))))
          (\<lambda>s2. Return (s2, Inr (on_plain t (introduced cr (sv_attest sv) (sv_serverName sv)))))))) k, []),
      (io_bind (step s1' (acceptHandshake cr w b2 (newSignedSerde (MarshalPublicKey cr (dl_attest dl)) (sv_attest sv)) []) (\<lambda>t.
         io_bind (keep_tokens cr bd s1' (on_plain t (introduced cr (dl_attest dl) (dl_clientName dl))))
           (\<lambda>s2. run_handler (sv_handlerFunc sv) s2 (on_plain t (introduced cr (dl_attest dl) (dl_clientName dl))))))
         (\<lambda>z. SetDeadline zero_time (k' z)), []))"
    if l2: "linked (Suc 0) (Suc 0) a2 b2" and s1': "store_ok cr bd s1'" for a2 b2 s1'
    by (rule verified_left [OF tr(1) so(1)],
        rule handshake_then [OF laws _ s1' acquainted_new [OF at(1) as(1)] l2, where ad = "dl_attest dl" and as = "sv_attest sv"])
       (auto simp: session_opt_def intro!: next')
  show "settles Q ((io_bind (step (dl_storage dl) (readSignedTransport cr w a1) (\<lambda>(ec2, st).
      step (dl_storage dl) (Return (routeFromST w st)) (\<lambda>r.
      if r \<noteq> RouteIdentity then Return (dl_storage dl, Inl (Kam ErrUnexpectedRoute))
      else step (dl_storage dl) (Return (receiveIntroduction cr w st)) (\<lambda>(p, remoteVersion).
      step (dl_storage dl) (Return (check_remote_version remoteVersion)) (\<lambda>_.
      verify_remote (dl_handshakeOpts dl) (dl_storage dl) p (\<lambda>s1.
      step s1 (requestHandshake cr w ec2 (newSignedSerde (PublicKey p) (dl_attest dl)) (ho_sessionID (dl_handshakeOpts dl))) (\<lambda>t.
      io_bind (keep_tokens cr bd s1 (on_plain t p)) (\<lambda>s2. Return (s2, Inr (on_plain t p)))))))))) k, []),
     (io_bind (case (b1, st1) of (ec, st) \<Rightarrow> serve_route cr w bd sv ec st) k', []))"
    unfolding prod.case serve_route_def st1 step_simps handleNewConnection_def Let_def under_deadline_def own_version_ok sid
    by (simp only: if_True if_False simp_thms io_bind.simps io_bind_assoc prod.case step_simps,
        intro settles_right_Now settles_right_SetDeadline,
        rule verified_right [OF tr(2) so(2)], rule intro_right [OF laws as l1])
       (simp_all add: last own_version_ok)
qed simp

text \<open>The same for the whole of \<^verbatim>\<open>Dial\<close> and \<^verbatim>\<open>serve\<close>.\<close>

lemma linked_tunnel: "paired n m a b \<Longrightarrow> linked n m (Tunnelled a) (Tunnelled b)"
  by simp

lemma dial_serve:
  assumes laws: "good_laws cr w" and net: "dials net dl"
    and next': "\<And>la lb. linked 0 0 la lb \<Longrightarrow> settles Q
       ((io_bind (if ho_sessionID (dl_handshakeOpts dl) \<noteq> [] then attemptResume cr w bd dl la else dial_cold cr w bd dl la)
          (\<lambda>(s, r). SetDeadline zero_time (io_bind
            (if r = Inl (Kam ErrPanic) then CloseConn (\<lambda>_. Return (s, r)) else Return (s, r))
            (\<lambda>(s, r). io_bind (case r of Inl e \<Rightarrow> CloseConn (\<lambda>_. Return (s, Inl e)) | Inr t \<Rightarrow> Return (s, Inr t)) K))), []),
        (io_bind (step (sv_storage sv) (readSignedTransport cr w lb) (\<lambda>(ec, st). serve_route cr w bd sv ec st))
          (\<lambda>z. CloseConn (\<lambda>_. K' z)), []))"
  shows "settles Q ((io_bind (Dial cr w bd net dl) K, []), (io_bind (serve cr w bd sv) K', []))"
proof -
  obtain c where c: "dialer_dial net dl (dl_address dl) = Inr c" using net by (auto simp: dials_def split: sum.splits)
  show ?thesis
    unfolding Dial_def c dialer_handshake_def serve_def sum.case step_def [of _ "Initiate cr"] step_def [of _ "Accept cr"]
      io_bind.simps io_bind_assoc
    by (rule settles_left_Now, rule settles_left_SetDeadline, rule exchange_settles [OF good_lawsD(5) [OF laws]],
        drule linked_tunnel, drule next')
       (simp add: case_prod_unfold io_bind_assoc)
qed

lemma cold_settles:
  assumes "good_laws cr w" "dialer_ok cr w bd dl" "server_ok cr w bd sv"
    and sid: "ho_sessionID (dl_handshakeOpts dl) = []" "ho_sessionID (sv_handshakeOpts sv) = []"
    and "trusts cr bd (ho_remoteVerifier (dl_handshakeOpts dl)) (introduced cr (sv_attest sv) (sv_serverName sv))"
      "trusts cr bd (ho_remoteVerifier (sv_handshakeOpts sv)) (introduced cr (dl_attest dl) (dl_clientName dl))"
    and net: "dials net dl"
    and next': "\<And>x a y b. met cr bd [] (dl_attest dl) (sv_attest sv) (x, a) (y, b) \<Longrightarrow>
       settles Q ((K (x, Inr a), []), (io_bind (run_handler (sv_handlerFunc sv) y b)
         (\<lambda>z. SetDeadline zero_time (CloseConn (\<lambda>_. K' z))), []))"
  shows "settles Q ((io_bind (Dial cr w bd net dl) K, []), (io_bind (serve cr w bd sv) K', []))"
proof (rule dial_serve [OF assms(1) net])
  fix la lb assume l: "linked 0 0 la lb"
  show "settles Q
       ((io_bind (if ho_sessionID (dl_handshakeOpts dl) \<noteq> [] then attemptResume cr w bd dl la else dial_cold cr w bd dl la)
          (\<lambda>(s, r). SetDeadline zero_time (io_bind
            (if r = Inl (Kam ErrPanic) then CloseConn (\<lambda>_. Return (s, r)) else Return (s, r))
            (\<lambda>(s, r). io_bind (case r of Inl e \<Rightarrow> CloseConn (\<lambda>_. Return (s, Inl e)) | Inr t \<Rightarrow> Return (s, Inr t)) K))), []),
        (io_bind (step (sv_storage sv) (readSignedTransport cr w lb) (\<lambda>(ec, st). serve_route cr w bd sv ec st))
          (\<lambda>z. CloseConn (\<lambda>_. K' z)), []))"
    using sid by (simp, intro cold_tunnel [OF assms(1-7) l])
      (auto intro!: settles_left_SetDeadline next')
qed

subsection \<open>A session with messages\<close>

text \<open>An application that dials and sends, and a handler that checks what it receives.\<close>

definition dial_and_send ::
  "crypto \<Rightarrow> wire \<Rightarrow> 'd bolt \<Rightarrow> network \<Rightarrow> 'a codec \<Rightarrow> 'd dialer \<Rightarrow> 'a list \<Rightarrow> ('d storage \<times> (session_error + (kerror + metadata) list)) io" where
  "dial_and_send cr w bd net c dl msgs =
     io_bind (Dial cr w bd net dl) (\<lambda>(s, r). case r of
       Inl e \<Rightarrow> Return (s, Inl e)
     | Inr t \<Rightarrow> io_bind (send_all cr w c t msgs) (\<lambda>(_, rs). Return (s, Inr rs)))"

definition expects :: "crypto \<Rightarrow> wire \<Rightarrow> 'a codec \<Rightarrow> 'a list \<Rightarrow> 'd handler" where
  "expects cr w c msgs s t =
     io_bind (receive_n cr w c t (length msgs)) (\<lambda>(_, rs). Return (s,
       if map (\<lambda>r. case r of Inl _ \<Rightarrow> None | Inr (_, m) \<Rightarrow> Some m) rs = map Some msgs then None else Some ErrOutOfSync))"

lemma all_sent:
  "map (\<lambda>r. case r of Inl _ \<Rightarrow> None | Inr (_, m) \<Rightarrow> Some m) ys = map Some ms \<Longrightarrow>
     \<exists>mds. map (\<lambda>r. case r of Inl e \<Rightarrow> Inl e | Inr (md, _) \<Rightarrow> Inr md) ys = map Inr mds \<and> length mds = length ms"
proof (induction ys arbitrary: ms)
  case (Cons r ys)
  then obtain m ms' md where ms: "ms = m # ms'" "r = Inr (md, m)"
      "map (\<lambda>r. case r of Inl _ \<Rightarrow> None | Inr (_, m) \<Rightarrow> Some m) ys = map Some ms'"
    by (cases ms; cases r) auto
  from Cons.IH [OF ms(3)] obtain mds where
    "map (\<lambda>r. case r of Inl e \<Rightarrow> Inl e | Inr (md, _) \<Rightarrow> Inr md) ys = map Inr mds" "length mds = length ms'" by blast
  with ms show ?case by (intro exI [of _ "md # mds"]) simp
qed simp

text \<open>C1. A whole session: the dialer dials and sends messages, the server serves the connection with a
  handler that fails unless it receives exactly these messages in this order. When the two know how to
  introduce themselves and their verifiers accept each other, the introductions, the handshake and the
  messages go through under every schedule, whatever the draws and the clocks: the dialer ends with
  every message sent, the server without an error.\<close>

theorem session_end_to_end:
  assumes "good_laws cr w" "dialer_ok cr w bd dl" "server_ok cr w bd sv"
    and "ho_sessionID (dl_handshakeOpts dl) = []" "ho_sessionID (sv_handshakeOpts sv) = []"
    and "trusts cr bd (ho_remoteVerifier (dl_handshakeOpts dl)) (introduced cr (sv_attest sv) (sv_serverName sv))"
      "trusts cr bd (ho_remoteVerifier (sv_handshakeOpts sv)) (introduced cr (dl_attest dl) (dl_clientName dl))"
    and "dials net dl" "sv_handlerFunc sv = expects cr w c msgs"
    and "\<forall>m \<in> set msgs. \<exists>b. enc c m = Some b \<and> dec c b = Some m \<and> length b \<le> maxTransportSize"
    and "length msgs \<le> 2 ^ 64"
  shows "completes (\<lambda>x y. snd y = Inr () \<and> (\<exists>mds. snd x = Inr (map Inr mds) \<and> length mds = length msgs))
     ((dial_and_send cr w bd net c dl msgs, []), (serve cr w bd sv, []))"
proof (rule settles_completes)
  have "settles (\<lambda>x y. snd y = Inr () \<and> (\<exists>mds. snd x = Inr (map Inr mds) \<and> length mds = length msgs))
     ((dial_and_send cr w bd net c dl msgs, []), (io_bind (serve cr w bd sv) Return, []))"
    unfolding dial_and_send_def
  proof (rule cold_settles [OF assms(1-8)])
    fix x a y b assume "met cr bd [] (dl_attest dl) (sv_attest sv) (x, a) (y, b)"
    then have ab: "flows cr a b" "linked 0 0 (t_conn a) (t_conn b)" by (auto simp: met_def agreed_def instep_def)
    show "settles (\<lambda>x y. snd y = Inr () \<and> (\<exists>mds. snd x = Inr (map Inr mds) \<and> length mds = length msgs))
      ((case (x, Inr a) of (s, r) \<Rightarrow> case r of Inl e \<Rightarrow> Return (s, Inl e)
          | Inr t \<Rightarrow> io_bind (send_all cr w c t msgs) (\<lambda>(_, rs). Return (s, Inr rs)), []),
       (io_bind (run_handler (sv_handlerFunc sv) y b) (\<lambda>z. SetDeadline zero_time (CloseConn (\<lambda>_. Return z))), []))"
      unfolding run_handler_def assms(9) expects_def io_bind_assoc prod.case sum.case
      by (rule stream_settles [OF assms(1,10) ab])
         (use assms(11) in \<open>auto simp: delivered_def intro!: all_sent settles_right_SetDeadline settles_right_CloseConn settles.finish\<close>)
  qed
  then show "settles (\<lambda>x y. snd y = Inr () \<and> (\<exists>mds. snd x = Inr (map Inr mds) \<and> length mds = length msgs))
     ((dial_and_send cr w bd net c dl msgs, []), (serve cr w bd sv, []))" by simp
qed

definition accept_all :: "'d verifier" where
  "accept_all s p = Return (s, None)"

definition demo_net :: network where
  "demo_net = \<lparr>net_DialTimeout = \<lambda>_ _. Inr (idle_sock []), kcp_Dial = \<lambda>_. Inr (idle_sock []),
     net_Listen = \<lambda>_. None, kcp_Listen = \<lambda>_. None\<rparr>"

definition demo_dialer :: "bytes \<Rightarrow> 'd storage \<Rightarrow> 'd dialer" where
  "demo_dialer sid s = \<lparr>dl_attest = demo_attest, dl_storage = s, dl_dialFunc = None, dl_clientName = lit ''bob'',
     dl_address = [], dl_handshakeOpts = \<lparr>ho_remoteVerifier = accept_all, ho_sessionID = sid, ho_timeout = 30 * second\<rparr>,
     dl_connOpts = [], dl_dialTimeout = 10 * second\<rparr>"

definition demo_server :: "'d handler \<Rightarrow> 'd storage \<Rightarrow> 'd server" where
  "demo_server h s = \<lparr>sv_listener = None, sv_attest = demo_attest, sv_storage = s, sv_handlerFunc = h,
     sv_serverName = lit ''srv'', sv_addr = [],
     sv_handshakeOpts = \<lparr>ho_remoteVerifier = accept_all, ho_sessionID = [], ho_timeout = 30 * second\<rparr>,
     sv_connOpts = [], sv_resumeEnabled = True, sv_closed = False\<rparr>"

lemma demo_attest_ok: "attest_ok demo_crypto demo_attest"
  using demo_serde_ok by (simp add: demo_serde_def newSignedSerde_def)

lemma demo_name_ok: "ascii n \<Longrightarrow> length n < 128 \<Longrightarrow> name_ok demo_crypto demo_wire demo_attest n"
  by (simp add: name_ok_def demo_wire_def intro_of_def length_put_field size_consts demo_attest_def MarshalPublicKey_def
      demo_crypto_def AppVersion_def lit_def bytes_field_size_def varintSize_1)

lemma demo_ends_ok:
  assumes "store_ok demo_crypto demo_bolt s"
  shows "dialer_ok demo_crypto demo_wire demo_bolt (demo_dialer sid s)"
    "server_ok demo_crypto demo_wire demo_bolt (demo_server h s)"
  using assms demo_attest_ok demo_name_ok [of "lit ''bob''"] demo_name_ok [of "lit ''srv''"]
  by (simp_all add: dialer_ok_def server_ok_def demo_dialer_def demo_server_def ascii_def lit_def)

lemma accept_all_trusts: "trusts cr bd accept_all p"
  by (simp add: trusts_def accept_all_def)

lemma demo_dials: "dials demo_net (demo_dialer sid s)"
  by (simp add: dials_def dialer_dial_def demo_dialer_def demo_net_def wrap_conn_def)

theorem session_end_to_end_witness:
  "completes (\<lambda>x y. snd y = Inr () \<and> (\<exists>mds. snd x = Inr (map Inr mds) \<and> length mds = 2))
     ((dial_and_send demo_crypto demo_wire demo_bolt demo_net (w_bytes demo_wire) (demo_dialer [] demo_storage)
         [lit ''one'', lit ''two''], []),
      (serve demo_crypto demo_wire demo_bolt
         (demo_server (expects demo_crypto demo_wire (w_bytes demo_wire) [lit ''one'', lit ''two'']) demo_storage), []))"
proof -
  have "\<forall>m \<in> set [lit ''one'', lit ''two'']. \<exists>b. enc (w_bytes demo_wire) m = Some b \<and>
      dec (w_bytes demo_wire) b = Some m \<and> length b \<le> maxTransportSize"
    by (simp add: demo_wire_def size_consts)
  note go = session_end_to_end [OF demo_good_laws demo_ends_ok(1) [OF demo_store_ok, of "[]"]
      demo_ends_ok(2) [OF demo_store_ok, of "expects demo_crypto demo_wire (w_bytes demo_wire) [lit ''one'', lit ''two'']"]
      _ _ _ _ demo_dials _ this]
  have two: "length [lit ''one'', lit ''two''] = 2" by simp
  show ?thesis
    by (rule go [unfolded two]) (simp_all add: demo_dialer_def demo_server_def accept_all_trusts)
qed

end
