(* ===== verification/Resumption.thy ===== *)
theory Resumption
  imports Sessions
begin

text \<open>
  Resuming a session: what the dialer's \<^verbatim>\<open>attemptResume\<close> and the server's \<^verbatim>\<open>handleResume\<close> do together when
  both hold a record of the session, and what each of them requires of an arbitrary peer.
\<close>

subsection \<open>A store that holds a session\<close>

text \<open>The tokens of the session, the key of its peer, whose entry is there and never expires, and the time
  it was established.\<close>

definition holds_session ::
  "crypto \<Rightarrow> wire \<Rightarrow> 'd bolt \<Rightarrow> 'd storage \<Rightarrow> bytes \<Rightarrow> bytes \<Rightarrow> bytes list \<Rightarrow> bool" where
  "holds_session cr w bd s sid key ts \<longleftrightarrow> store_ok cr bd s \<and> elems ts \<and> length ts < 2 ^ 32 \<and>
     spec_get (metas cr bd s) sid ResumptionTokensKey = Inr (serializeList ts) \<and>
     (\<exists>pub pb. spec_get (metas cr bd s) sid PeerKey = Inr pub \<and> pub \<noteq> [] \<and> peer_entry cr w bd s pub = Some pb \<and>
        pp_PublicKey pb = key \<and> (\<forall>now. time_ok now \<longrightarrow> \<not> peer_expired s pb now)) \<and>
     (\<exists>at. spec_get (metas cr bd s) sid EstablishedAtKey = Inr at \<and> 8 \<le> length at)"

lemma peer_entry_same: "same_peers cr bd s s' \<Longrightarrow> peer_entry cr w bd s' pub = peer_entry cr w bd s pub"
  by (simp add: same_peers_def peer_entry_def)

lemma spec_get_set:
  "m sid \<noteq> None \<Longrightarrow> spec_get (spec_set m sid k v) sid k' = (if k' = k then Inr v else spec_get m sid k')"
  by (auto simp: spec_get_def spec_set_def)

lemma session_keys_distinct [simp]:
  "PeerKey \<noteq> ResumptionTokensKey" "EstablishedAtKey \<noteq> ResumptionTokensKey" "PeerKey \<noteq> EstablishedAtKey"
  by (simp_all add: PeerKey_def EstablishedAtKey_def ResumptionTokensKey_def lit_def)

lemma holds_session_upd:
  assumes "holds_session cr w bd s sid key ts" "store_ok cr bd s'" "same_peers cr bd s s'"
    and "metas cr bd s' = spec_set (metas cr bd s) sid ResumptionTokensKey (serializeList us)"
    and "elems us" "length us < 2 ^ 32"
  shows "holds_session cr w bd s' sid key us"
proof -
  have ne: "metas cr bd s sid \<noteq> None" using assms(1) by (auto simp: holds_session_def spec_get_def split: option.splits)
  show ?thesis
    using assms spec_get_set [where m = "metas cr bd s" and sid = sid, OF ne] peer_entry_same [OF assms(3)]
    by (auto simp: holds_session_def peer_expired_def same_peers_def)
qed


lemma remove_token:
  assumes "holds_session cr w bd s sid key ts" "t \<in> set ts"
  shows "yields (RemoveListItem cr bd s sid ResumptionTokensKey t)
     (\<lambda>(s', r). r = Inr () \<and> (\<exists>us. mset ts = add_mset t (mset us) \<and> holds_session cr w bd s' sid key us))"
proof -
  have h: "store_ok cr bd s" "elems ts" "length ts < 2 ^ 32"
      "spec_get (metas cr bd s) sid ResumptionTokensKey = Inr (serializeList ts)"
    using assms by (simp_all add: holds_session_def)
  obtain us where us: "drop_entry t ts = Some us" using assms(2) index_of_None [of t ts] by (auto simp: drop_entry_def)
  note m = mset_drop_entry [OF us, THEN conjunct2]
  have len: "elems us" "length us < 2 ^ 32"
    using elems_drop_entry [OF us h(2)] arg_cong [OF m, of size] h(3) by simp_all
  show ?thesis
    using yields_conj [OF remove_refines [OF h(1) meta_keys_ok(3)] lists_keep_peers(2) [OF h(1) meta_keys_ok(3)]]
    by (rule yields_mono)
       (use h us len m deserialize_serialize [OF h(2,3)] holds_session_upd [OF assms(1), where us = us] in auto)
qed

lemma GetPeer_held:
  assumes "holds_session cr w bd s sid key ts"
  shows "yields (GetPeer cr w bd s sid) (\<lambda>(s', r). s' = s \<and> (\<exists>p. r = Inr p \<and> PublicKey p = key))"
proof -
  obtain pub pb where p: "spec_get (metas cr bd s) sid PeerKey = Inr pub" "pub \<noteq> []" "peer_entry cr w bd s pub = Some pb"
      "pp_PublicKey pb = key" "\<And>now. time_ok now \<Longrightarrow> \<not> peer_expired s pb now"
    using assms by (auto simp: holds_session_def)
  have ok: "store_ok cr bd s" using assms by (simp add: holds_session_def)
  have "GetMeta cr bd s sid PeerKey = Inr \<lparr>m_key = PeerKey, m_value = pub\<rparr>"
    using get_meta_refines [OF ok, of sid PeerKey] p(1) by auto
  then have "GetPeer cr w bd s sid = FindPeer cr w bd s pub"
    using p(2) by (simp add: GetPeer_def FindPeer_def)
  then show ?thesis
    using p(4,5) by (simp add: FindPeer_live [OF ok p(3)] peer_of_pb_def)
qed

lemma GetEstablishedAt_held:
  assumes "holds_session cr w bd s sid key ts"
  shows "\<exists>at. GetEstablishedAt cr bd s sid = Inr at"
proof -
  obtain b where b: "spec_get (metas cr bd s) sid EstablishedAtKey = Inr b" "8 \<le> length b"
    using assms by (auto simp: holds_session_def)
  have "GetMeta cr bd s sid EstablishedAtKey = Inr \<lparr>m_key = EstablishedAtKey, m_value = b\<rparr>"
    using get_meta_refines [of cr bd s sid EstablishedAtKey] b(1) assms by (auto simp: holds_session_def)
  then show ?thesis using b(2) by (simp add: GetEstablishedAt_def)
qed

subsection \<open>The two messages\<close>


lemma answer_message:
  assumes "wire_laws w" "wire_sizes w"
  obtains message where
    "marshal (w_resume_accept w) \<lparr>ra_Accepted = yes, ra_Reason = (if yes then [] else reject_reason)\<rparr> = Inr message"
    "dec (w_resume_accept w) message = Some \<lparr>ra_Accepted = yes, ra_Reason = (if yes then [] else reject_reason)\<rparr>"
    "length message \<le> maxTransportSize"
proof -
  let ?a = "\<lparr>ra_Accepted = yes, ra_Reason = (if yes then [] else reject_reason)\<rparr>"
  have "codec_ok (\<lambda>m. ascii (ra_Reason m)) (w_resume_accept w)" using assms(1) by (simp add: wire_laws_def)
  moreover have r: "ascii (ra_Reason ?a)" "length (ra_Reason ?a) < 128"
    by (simp_all add: ascii_def reject_reason_def lit_def)
  ultimately obtain b where b: "enc (w_resume_accept w) ?a = Some b" "dec (w_resume_accept w) b = Some ?a"
    unfolding codec_ok_def by blast
  from assms(2) b(1) have "length b \<le> 2 + bytes_field_size (length (ra_Reason ?a))"
    unfolding wire_sizes_def by blast
  also have "\<dots> \<le> 132" using r(2) by (simp add: bytes_field_size_def varintSize_1)
  finally have "length b \<le> maxTransportSize" by (simp add: size_consts)
  with b that show ?thesis by (simp add: marshal_def)
qed


lemma answer_right:
  assumes "good_laws cr w" "attest_ok cr at" "linked n m a b" "m < 2 ^ 64"
    and "\<And>a' b'. linked n (Suc m) a' b' \<Longrightarrow>
       settles Q ((io_bind (f (a', yes, if yes then [] else reject_reason)) k, []), (io_bind (g b') k', []))"
  shows "settles Q ((io_bind (step s (receiveResumeAccept cr w a (MarshalPublicKey cr at)) f) k, []),
     (io_bind (step s' (sendResumeAccept cr w b at yes) g) k', []))"
proof -
  note laws = good_lawsD [OF assms(1)]
  obtain message where m:
    "marshal (w_resume_accept w) \<lparr>ra_Accepted = yes, ra_Reason = (if yes then [] else reject_reason)\<rparr> = Inr message"
    "dec (w_resume_accept w) message = Some \<lparr>ra_Accepted = yes, ra_Reason = (if yes then [] else reject_reason)\<rparr>"
    "length message \<le> maxTransportSize"
    by (rule answer_message [OF laws(6,7)])
  show ?thesis
    unfolding sendResumeAccept_def receiveResumeAccept_def io_try_def [of "readSignedTransport cr w a"] m(1) sum.case
      step_def io_bind_assoc
  proof (rule signed_right [OF assms(1) m(3) plain_metadata_ok(1) plain_metadata_ok(2) assms(3,4)])
    fix a' b' st
    assume l: "linked n (Suc m) a' b'" and st: "sealed_st cr w at (plain_metadata None RouteResumeAccept) message st"
    have "st_Data st = message" using st by (simp add: sealed_st_def)
    with assms(5) [OF l] m(2) route_of_sealed [OF st identity_route(3)] verify_sealed [OF st laws(1) assms(2)]
    show "settles Q
     ((io_bind (case Inr (a', st) of Inl e \<Rightarrow> Return (Inl e) | Inr (l', st) \<Rightarrow> Return (case routeFromST w st of Inl e \<Rightarrow> Inl e
         | Inr r \<Rightarrow> if r \<noteq> RouteResumeAccept then Inl ErrUnexpectedRoute
           else if \<not> Verify cr (MarshalPublicKey cr at) (signingInput (st_Metadata st) (st_Data st)) (st_Signature st)
           then Inl ErrInvalidSignature
           else case unmarshal (w_resume_accept w) (st_Data st) of Inl e \<Rightarrow> Inl e
             | Inr accept \<Rightarrow> Inr (l', ra_Accepted accept, ra_Reason accept)))
        (\<lambda>x. io_bind (case x of Inl e \<Rightarrow> Return (s, Inl (Kam e)) | Inr x \<Rightarrow> f x) k), []),
      (io_bind (case Inr b' of Inl e \<Rightarrow> Return (s', Inl (Kam e)) | Inr x \<Rightarrow> g x) k', []))"
      by (simp add: unmarshal_def)
  qed simp
qed

subsection \<open>The server's side\<close>


subsection \<open>Both sides\<close>


lemma holds_record: "holds_session cr w bd s sid key ts \<Longrightarrow> metas cr bd s sid \<noteq> None"
  by (auto simp: holds_session_def spec_get_def split: option.splits)

lemma resume_accepted:
  assumes laws: "good_laws cr w" and at: "attest_ok cr (dl_attest dl)" "attest_ok cr (sv_attest sv)"
    and sid: "length sid = sessionIDLength" "ascii sid" and l: "linked (Suc 0) 0 a b"
    and x: "holds_session cr w bd x sid (MarshalPublicKey cr (sv_attest sv)) ts"
    and y: "holds_session cr w bd y sid (MarshalPublicKey cr (dl_attest dl)) us"
    and keys: "PublicKey p = MarshalPublicKey cr (sv_attest sv)" "PublicKey q = MarshalPublicKey cr (dl_attest dl)"
    and next': "\<And>x a y b. met cr bd sid (dl_attest dl) (sv_attest sv) (x, a) (y, b) \<Longrightarrow>
       metas cr bd x sid \<noteq> None \<Longrightarrow> metas cr bd y sid \<noteq> None \<Longrightarrow>
       settles Q ((k (x, Inr a), []), (io_bind (run_handler (sv_handlerFunc sv) y b) k', []))"
  shows "settles Q
     ((io_bind (step x (receiveResumeAccept cr w a (PublicKey p)) (\<lambda>(ec2, yes, _).
        if \<not> yes then Return (x, Inl (Kam ErrResumptionRejected))
        else step x (requestHandshake cr w ec2 (newSignedSerde (PublicKey p) (dl_attest dl)) sid) (\<lambda>t.
          io_bind (keep_tokens cr bd x (on_plain t p)) (\<lambda>s3. Return (s3, Inr (on_plain t p)))))) k, []),
      (io_bind (step y (sendResumeAccept cr w b (sv_attest sv) True) (\<lambda>ec1.
          step y (acceptHandshake cr w ec1 (newSignedSerde (PublicKey q) (sv_attest sv)) sid) (\<lambda>t.
          io_bind (keep_tokens cr bd y (on_plain t q)) (\<lambda>s1. run_handler (sv_handlerFunc sv) s1 (on_plain t q))))) k', []))"
  unfolding keys
proof (rule answer_right [OF laws at(2) l], simp, unfold not_True_eq_False if_False prod.case)
  fix a' b' assume l': "linked (Suc 0) (Suc 0) a' b'"
  have ok: "store_ok cr bd x" "store_ok cr bd y" using x y by (simp_all add: holds_session_def)
  have kept: "\<exists>g. with_tokens cr t m sid' = Some g" if "m sid' = Some f" for t m sid' f
    using that by (auto simp: with_tokens_def spec_set_def)
  show "settles Q
     ((io_bind (step x (requestHandshake cr w a' (newSignedSerde (MarshalPublicKey cr (sv_attest sv)) (dl_attest dl)) sid) (\<lambda>t.
          io_bind (keep_tokens cr bd x (on_plain t p)) (\<lambda>s3. Return (s3, Inr (on_plain t p))))) k, []),
      (io_bind (step y (acceptHandshake cr w b' (newSignedSerde (MarshalPublicKey cr (dl_attest dl)) (sv_attest sv)) sid) (\<lambda>t.
          io_bind (keep_tokens cr bd y (on_plain t q)) (\<lambda>s1. run_handler (sv_handlerFunc sv) s1 (on_plain t q)))) k', []))"
    by (rule handshake_then [OF laws ok acquainted_new [OF at] l' _ _ _ keys])
       (use sid holds_record [OF x] holds_record [OF y] in \<open>auto simp: session_opt_def kept intro!: next'\<close>)
qed


subsection \<open>Properties\<close>



definition demo_sid :: bytes where
  "demo_sid = replicate 24 65"

definition demo_pb :: pb_peer where
  "demo_pb = \<lparr>pp_Name = [], pp_PublicKey = MarshalPublicKey demo_crypto demo_attest, pp_FirstSeen = None,
     pp_LastSeen = None, pp_AppVersion = []\<rparr>"

lemma demo_sid_ne: "demo_sid \<noteq> []"
  by (simp add: demo_sid_def)

text \<open>A store with an entry for the demonstration key that never expires, and no record of the session.\<close>

lemma demo_knows_peer:
  obtains s data where "store_ok demo_crypto demo_bolt s" "sto_expiry s = 2 ^ 200"
    "plain demo_crypto demo_bolt (sto_cipher s) (sto_db s) [PeersNamespace]
       (peerKey demo_crypto (MarshalPublicKey demo_crypto demo_attest)) = Some (Inr data)"
    "dec (w_peer demo_wire) data = Some demo_pb" "metas demo_crypto demo_bolt s demo_sid = None"
proof -
  let ?s0 = "demo_storage\<lparr>sto_expiry := 2 ^ 200\<rparr>" and ?key = "MarshalPublicKey demo_crypto demo_attest"
  have "pb_peer_ok demo_pb" by (simp add: demo_pb_def pb_peer_ok_def ascii_def)
  then obtain data where data: "dec (w_peer demo_wire) data = Some demo_pb"
    using demo_wire_laws by (auto simp: wire_laws_def codec_ok_def)
  have ok0: "store_ok demo_crypto demo_bolt ?s0" using demo_store_ok by (simp add: store_ok_def)
  have "demo_sid \<noteq> demo_session" by (auto simp: demo_sid_def demo_session_def lit_def dest: arg_cong [where f = length])
  then have none: "metas demo_crypto demo_bolt ?s0 demo_sid = None"
    by (simp add: metas_def demo_storage_def demo_bolt_def path_defs)
  from yields_ex [OF put_peer_yields [OF ok0 demo_sha3_law, of ?key data]] none show thesis
    by (auto intro: that [OF _ _ _ data])
qed

lemma demo_never_expires: "sto_expiry s = 2 ^ 200 \<Longrightarrow> time_ok now \<Longrightarrow> \<not> peer_expired s demo_pb now"
  by (simp add: peer_expired_def demo_pb_def as_time_def time_ok_def)

lemma demo_holds:
  "\<exists>s. holds_session demo_crypto demo_wire demo_bolt s demo_sid (MarshalPublicKey demo_crypto demo_attest) [replicate 32 7]"
proof -
  let ?cr = demo_crypto and ?w = demo_wire and ?bd = demo_bolt and ?key = "MarshalPublicKey demo_crypto demo_attest"
  let ?ts = "[replicate 32 (7 :: byte)]"
  obtain s1 data where s1: "store_ok ?cr ?bd s1" "sto_expiry s1 = 2 ^ 200"
      "plain ?cr ?bd (sto_cipher s1) (sto_db s1) [PeersNamespace] (peerKey ?cr ?key) = Some (Inr data)"
      "dec (w_peer ?w) data = Some demo_pb"
    by (rule demo_knows_peer)
  obtain s2 now where s2: "store_ok ?cr ?bd s2" "same_peers ?cr ?bd s1 s2"
      "metas ?cr ?bd s2 = session_record (metas ?cr ?bd s1) demo_sid ?key now"
    using CreateSession_live [OF s1(1) demo_sid_ne s1(3,4)] yields_ex by (fastforce simp: demo_pb_def)
  have ne: "metas ?cr ?bd s2 demo_sid \<noteq> None" by (simp add: s2(3) session_record_def Let_def)
  obtain s3 where s3: "store_ok ?cr ?bd s3" "same_peers ?cr ?bd s2 s3"
      "metas ?cr ?bd s3 = spec_set (metas ?cr ?bd s2) demo_sid ResumptionTokensKey (serializeList ?ts)"
    using yields_ex [OF yields_conj [OF set_meta_refines [OF s2(1) meta_keys_ok(3), of demo_sid "serializeList ?ts"]
        set_meta_keeps_peers [OF s2(1) meta_keys_ok(3), of demo_sid "serializeList ?ts"]]] ne by auto
  have entry: "peer_entry ?cr ?w ?bd s3 ?key = Some demo_pb"
    using s1(3,4) by (simp add: peer_entry_same [OF s3(2)] peer_entry_same [OF s2(2)] peer_entry_Some)
  have "\<not> peer_expired s3 demo_pb now" if "time_ok now" for now
    using s1(2) s2(2) s3(2) by (intro demo_never_expires [OF _ that]) (simp add: same_peers_def)
  moreover have "spec_get (metas ?cr ?bd s3) demo_sid k = (if k = ResumptionTokensKey then Inr (serializeList ?ts)
      else spec_get (metas ?cr ?bd s2) demo_sid k)" for k
    unfolding s3(3) using ne by (rule spec_get_set)
  moreover have "spec_get (metas ?cr ?bd s2) demo_sid PeerKey = Inr ?key"
      "spec_get (metas ?cr ?bd s2) demo_sid EstablishedAtKey = Inr (put_uint64 (unix_nano now))"
    by (simp_all add: s2(3) spec_get_def session_record_def Let_def)
  moreover have "?key \<noteq> []" by (simp add: MarshalPublicKey_def demo_crypto_def demo_attest_def lit_def)
  ultimately have "holds_session ?cr ?w ?bd s3 demo_sid ?key ?ts"
    using s3(1) entry by (auto simp: holds_session_def ElemSize_def demo_pb_def)
  then show ?thesis by blast
qed


subsection \<open>What each side requires\<close>

lemma run_step:
  "run (step s p f) es = Some ((s', Inr y), es'') \<longleftrightarrow>
     (\<exists>x es'. run p es = Some (Inr x, es') \<and> run (f x) es' = Some ((s', Inr y), es''))"
  by (auto simp: step_def run_bind split: option.splits sum.splits)

lemma run_sto_step:
  "run (sto_step p f) es = Some ((s', Inr y), es'') \<longleftrightarrow>
     (\<exists>s x es'. run p es = Some ((s, Inr x), es') \<and> run (f s x) es' = Some ((s', Inr y), es''))"
  by (auto simp: sto_step_def run_bind split: option.splits sum.splits prod.splits)

lemma GetMeta_present:
  "store_ok cr bd s \<Longrightarrow> GetMeta cr bd s sid k = Inr m \<Longrightarrow> m_value m \<noteq> [] \<Longrightarrow> spec_get (metas cr bd s) sid k = Inr (m_value m)"
  using get_meta_refines [of cr bd s sid k] by (auto split: sum.splits if_splits)

lemma GetPeer_run:
  assumes "store_ok cr bd s" "run (GetPeer cr w bd s sid) es = Some ((s', Inr p), es')"
  shows "s' = s \<and> (\<exists>pub pb. spec_get (metas cr bd s) sid PeerKey = Inr pub \<and> peer_entry cr w bd s pub = Some pb \<and>
     p = peer_of_pb pb)"
proof -
  obtain m where m: "GetMeta cr bd s sid PeerKey = Inr m" "m_value m \<noteq> []"
      "run (findPeer cr w bd s False (sto_db s) (peerKey cr (m_value m))) es = Some ((s', Inr p), es')"
    using assms(2) by (auto simp: GetPeer_def split: sum.splits if_splits)
  have l: "layout bd (sto_db s)" using assms(1) by (simp add: store_ok_def)
  from m(3) obtain data pb where "ns_GetEncrypted cr bd (sto_cipher s) (sto_db s)
        (top_namespace bd (sto_db s) PeersNamespace) (peerKey cr (m_value m)) = Inr data"
      "dec (w_peer w) data = Some pb" "p = peer_of_pb pb" "s' = s"
    by (auto simp: findPeer_def run_Now run_bind split: sum.splits option.splits if_splits prod.splits)
  then have "peer_entry cr w bd s (m_value m) = Some pb"
    using top_namespace_eq [OF l] by (auto simp: peer_entry_Some top_names_def GetEncrypted_plain split: option.splits sum.splits)
  with GetMeta_present [OF assms(1) m(1,2)] \<open>p = peer_of_pb pb\<close> \<open>s' = s\<close> show ?thesis by blast
qed

text \<open>C5. Whoever is at the other end, a server that resumes a session and whose handler ends well was
  shown, in the request, a token it had stored for that session, signed with the key it had stored for
  the session's peer, not more than the grace period after the session was established.\<close>

theorem resume_requires_token:
  assumes "store_ok cr bd (sv_storage sv)"
    and "run (handleResume cr w bd sv ec st) es = Some ((s', Inr ()), es')"
  shows "\<exists>req data ts pub pb at now.
     unmarshal (w_resume_request w) (st_Data st) = Inr req \<and>
     spec_get (metas cr bd (sv_storage sv)) (rr_SessionID req) ResumptionTokensKey = Inr data \<and>
     deserializeList data = Inr ts \<and> rr_Token req \<in> set ts \<and>
     spec_get (metas cr bd (sv_storage sv)) (rr_SessionID req) PeerKey = Inr pub \<and>
     peer_entry cr w bd (sv_storage sv) pub = Some pb \<and>
     Verify cr (pp_PublicKey pb) (signingInput (st_Metadata st) (st_Data st)) (st_Signature st) \<and>
     spec_get (metas cr bd (sv_storage sv)) (rr_SessionID req) EstablishedAtKey = Inr at \<and>
     ENow now \<in> set es \<and> now - from_nano (get_uint64 at) \<le> resumptionGracePeriod"
proof -
  let ?s = "sv_storage sv"
  obtain t0 req s1 e1 e2 where req: "unmarshal (w_resume_request w) (st_Data st) = Inr req"
    and rm: "run (RemoveListItem cr bd ?s (rr_SessionID req) ResumptionTokensKey (rr_Token req)) e1 = Some ((s1, Inr ()), e2)"
    and es: "es = ENow t0 # ESetDeadline (t0 + ho_timeout (sv_handshakeOpts sv)) # e1"
    and rest: "\<exists>e5. run (sto_step (GetPeer cr w bd s1 (rr_SessionID req)) (\<lambda>s2 p.
             sto_step (Return (s2, GetEstablishedAt cr bd s2 (rr_SessionID req))) (\<lambda>s2 at.
             resume_session cr w bd sv s2 ec st (rr_SessionID req) p at))) e2 = Some ((s', Inr ()), e5)"
    using assms(2)
    by (auto simp: handleResume_def under_deadline_def Let_def run_Now run_SetDeadline run_bind step_def reject_def
        split: option.splits sum.splits prod.splits)
  let ?sid = "rr_SessionID req"
  have ref: "store_ok cr bd s1" "spec_meta (metas cr bd ?s) (OpRemove ?sid ResumptionTokensKey (rr_Token req)) =
      (metas cr bd s1, Did (Inr ()))" "same_peers cr bd ?s s1"
    using yields_run [OF rm remove_refines [OF assms(1) meta_keys_ok(3)]]
      yields_run [OF rm lists_keep_peers(2) [OF assms(1) meta_keys_ok(3)]] by auto
  from ref(2) obtain data ts us where ts: "spec_get (metas cr bd ?s) ?sid ResumptionTokensKey = Inr data"
      "deserializeList data = Inr ts" "drop_entry (rr_Token req) ts = Some us"
      "metas cr bd s1 = spec_set (metas cr bd ?s) ?sid ResumptionTokensKey (serializeList us)"
    by (auto simp: missing_not_found_def split: sum.splits option.splits)
  have mem: "rr_Token req \<in> set ts" using ts(3) mset_drop_entry by blast
  have other: "spec_get (metas cr bd s1) ?sid k = spec_get (metas cr bd ?s) ?sid k" if "k \<noteq> ResumptionTokensKey" for k
    using ts(1) that unfolding ts(4) by (subst spec_get_set) (auto simp: spec_get_def split: option.splits)
  from rest obtain s2 p e3 at e5 where p: "run (GetPeer cr w bd s1 ?sid) e2 = Some ((s2, Inr p), e3)"
    and at: "GetEstablishedAt cr bd s2 ?sid = Inr at"
    and r: "run (resume_session cr w bd sv s2 ec st ?sid p at) e3 = Some ((s', Inr ()), e5)"
    unfolding run_sto_step by auto
  from GetPeer_run [OF ref(1) p] obtain pub pb where pb: "s2 = s1" "spec_get (metas cr bd s1) ?sid PeerKey = Inr pub"
      "peer_entry cr w bd s1 pub = Some pb" "p = peer_of_pb pb" by blast
  obtain b where b: "spec_get (metas cr bd s1) ?sid EstablishedAtKey = Inr b" "at = from_nano (get_uint64 b)"
    using at GetMeta_present [OF ref(1)] unfolding pb(1)
    by (fastforce simp: GetEstablishedAt_def split: sum.splits if_splits)
  from r obtain now e4 where now: "e3 = ENow now # e4" "now - at \<le> resumptionGracePeriod"
      "Verify cr (PublicKey p) (signingInput (st_Metadata st) (st_Data st)) (st_Signature st)"
    by (auto simp: resume_session_def reject_def run_Now run_step split: if_splits)
  have "ENow now \<in> set es"
    using run_suffix [OF rm] run_suffix [OF p] by (auto simp: es now(1))
  then show ?thesis
    using req ts(1,2) mem pb(2-4) b now(2,3) other [of PeerKey] other [of EstablishedAtKey] peer_entry_same [OF ref(3), of w pub]
    by (intro exI [of _ req] exI [of _ data] exI [of _ ts] exI [of _ pub] exI [of _ pb] exI [of _ b] exI [of _ now])
       (simp add: peer_of_pb_def)
qed

lemma run_more: "run p es = Some (r, es') \<Longrightarrow> run p (es @ fs) = Some (r, es' @ fs)"
  by (induction p es rule: run.induct) (auto split: if_splits)

lemma time_ok_nano: "GetEstablishedAt cr bd s sid = Inr at \<Longrightarrow> time_ok at"
proof -
  have "time_ok (sint (x :: 64 word))" for x
    using sint_ge [of x] sint_lt [of x] by (simp add: time_ok_def)
  then show "GetEstablishedAt cr bd s sid = Inr at \<Longrightarrow> time_ok at"
    by (auto simp: GetEstablishedAt_def from_nano_def split: sum.splits if_splits)
qed

text \<open>A valid request to a server that holds the session is granted in a run where its clock is at the time
  the session was established.\<close>

lemma granted_run:
  assumes h: "holds_session cr w bd (sv_storage sv) sid (MarshalPublicKey cr ad) us" "tok \<in> set us"
    and st: "unmarshal (w_resume_request w) (st_Data st) = Inr \<lparr>rr_SessionID = sid, rr_Token = tok\<rparr>"
      "Verify cr (MarshalPublicKey cr ad) (signingInput (st_Metadata st) (st_Data st)) (st_Signature st)"
    and go: "\<And>s us' p. holds_session cr w bd s sid (MarshalPublicKey cr ad) us' \<Longrightarrow> PublicKey p = MarshalPublicKey cr ad \<Longrightarrow>
      \<exists>es s'. run (step s (sendResumeAccept cr w ec (sv_attest sv) True) (\<lambda>ec1.
          step s (acceptHandshake cr w ec1 (newSignedSerde (PublicKey p) (sv_attest sv)) sid) (\<lambda>t.
          io_bind (keep_tokens cr bd s (on_plain t p)) (\<lambda>s1. run_handler (sv_handlerFunc sv) s1 (on_plain t p))))) es =
        Some ((s', Inr ()), [])"
  shows "\<exists>es s'. run (handleResume cr w bd sv ec st) es = Some ((s', Inr ()), [])"
proof -
  obtain e1 s1 us' where r1: "run (RemoveListItem cr bd (sv_storage sv) sid ResumptionTokensKey tok) e1 = Some ((s1, Inr ()), [])"
      "holds_session cr w bd s1 sid (MarshalPublicKey cr ad) us'"
    using yields_ex [OF remove_token [OF h]] by auto
  obtain e2 p where r2: "run (GetPeer cr w bd s1 sid) e2 = Some ((s1, Inr p), [])" "PublicKey p = MarshalPublicKey cr ad"
    using yields_ex [OF GetPeer_held [OF r1(2)]] by auto
  obtain t where t: "GetEstablishedAt cr bd s1 sid = Inr t" using GetEstablishedAt_held [OF r1(2)] by blast
  obtain e3 s' where r3: "run (step s1 (sendResumeAccept cr w ec (sv_attest sv) True) (\<lambda>ec1.
          step s1 (acceptHandshake cr w ec1 (newSignedSerde (PublicKey p) (sv_attest sv)) sid) (\<lambda>t.
          io_bind (keep_tokens cr bd s1 (on_plain t p)) (\<lambda>s1. run_handler (sv_handlerFunc sv) s1 (on_plain t p))))) e3 =
        Some ((s', Inr ()), [])"
    using go [OF r1(2) r2(2)] by blast
  have "run (resume_session cr w bd sv s1 ec st sid p t) (ENow t # e3) = Some ((s', Inr ()), [])"
    using r3 time_ok_nano [OF t] st(2) r2(2) by (simp add: resume_session_def resumptionGracePeriod_def hour_def second_def)
  note r4 = run_more [OF this, of "[ESetDeadline zero_time]"]
  have "run (handleResume cr w bd sv ec st)
      (ENow 0 # ESetDeadline (0 + ho_timeout (sv_handshakeOpts sv)) # e1 @ e2 @ (ENow t # e3) @ [ESetDeadline zero_time]) =
    Some ((s', Inr ()), [])"
    using run_more [OF r1(1)] run_more [OF r2(1)] r4
    by (simp add: handleResume_def under_deadline_def Let_def st(1) run_bind sto_step_def t time_ok_0)
  then show ?thesis by blast
qed

lemma demo_granted:
  assumes "holds_session demo_crypto demo_wire demo_bolt s demo_sid (MarshalPublicKey demo_crypto demo_attest) ts"
    "PublicKey p = MarshalPublicKey demo_crypto demo_attest"
  shows "\<exists>es s'. run (step s (sendResumeAccept demo_crypto demo_wire Plain demo_attest True) (\<lambda>ec1.
      step s (acceptHandshake demo_crypto demo_wire ec1 (newSignedSerde (PublicKey p) demo_attest) demo_sid) (\<lambda>t.
      io_bind (keep_tokens demo_crypto demo_bolt s (on_plain t p)) (\<lambda>s1. run_handler (\<lambda>s t. Return (s, None)) s1 (on_plain t p))))) es =
    Some ((s', Inr ()), [])"
proof -
  define dl :: "demo_db dialer" where "dl = demo_dialer demo_sid s"
  define sv :: "demo_db server" where "sv = demo_server (\<lambda>s t. Return (s, None)) s"
  have at: "dl_attest dl = demo_attest" "sv_attest sv = demo_attest" "sv_handlerFunc sv = (\<lambda>s t. Return (s, None))"
    by (simp_all add: dl_def sv_def demo_dialer_def demo_server_def)
  have ok: "attest_ok demo_crypto (dl_attest dl)" "attest_ok demo_crypto (sv_attest sv)" "linked (Suc 0) 0 Plain Plain"
      "length demo_sid = sessionIDLength" "ascii demo_sid"
    using demo_attest_ok by (simp_all add: at demo_sid_def sessionIDLength_def ascii_def list_all_iff)
  have "settles (\<lambda>_ y. snd y = Inr ())
     ((io_bind (step s (receiveResumeAccept demo_crypto demo_wire Plain (PublicKey p)) (\<lambda>(ec2, yes, _).
        if \<not> yes then Return (s, Inl (Kam ErrResumptionRejected))
        else step s (requestHandshake demo_crypto demo_wire ec2 (newSignedSerde (PublicKey p) (dl_attest dl)) demo_sid) (\<lambda>t.
          io_bind (keep_tokens demo_crypto demo_bolt s (on_plain t p)) (\<lambda>s3. Return (s3, Inr (on_plain t p)))))) Return, []),
      (io_bind (step s (sendResumeAccept demo_crypto demo_wire Plain (sv_attest sv) True) (\<lambda>ec1.
          step s (acceptHandshake demo_crypto demo_wire ec1 (newSignedSerde (PublicKey p) (sv_attest sv)) demo_sid) (\<lambda>t.
          io_bind (keep_tokens demo_crypto demo_bolt s (on_plain t p)) (\<lambda>s1. run_handler (sv_handlerFunc sv) s1 (on_plain t p))))) Return, []))"
    by (rule resume_accepted [OF demo_good_laws ok(1,2,4,5,3), where ts = ts and us = ts])
       (use assms in \<open>simp_all add: at run_handler_def settles.finish\<close>)
  from settles_runs [OF this [unfolded io_bind_Return at]] show ?thesis by fastforce
qed

theorem resume_requires_token_witness:
  "\<exists>s st es s' req data ts.
     run (handleResume demo_crypto demo_wire demo_bolt (demo_server (\<lambda>s t. Return (s, None)) s) Plain st) es = Some ((s', Inr ()), []) \<and>
     unmarshal (w_resume_request demo_wire) (st_Data st) = Inr req \<and>
     spec_get (metas demo_crypto demo_bolt s) (rr_SessionID req) ResumptionTokensKey = Inr data \<and>
     deserializeList data = Inr ts \<and> rr_Token req \<in> set ts"
proof -
  let ?tok = "replicate 32 (7 :: byte)" and ?key = "MarshalPublicKey demo_crypto demo_attest"
  obtain s where s: "holds_session demo_crypto demo_wire demo_bolt s demo_sid ?key [?tok]" using demo_holds by blast
  define sv :: "demo_db server" where "sv = demo_server (\<lambda>s t. Return (s, None)) s"
  have sv: "sv_storage sv = s" "sv_attest sv = demo_attest" "sv_handlerFunc sv = (\<lambda>s t. Return (s, None))"
    by (simp_all add: sv_def demo_server_def)
  have "codec_ok (\<lambda>m. ascii (rr_SessionID m)) (w_resume_request demo_wire)" using demo_wire_laws by (simp add: wire_laws_def)
  moreover have "ascii (rr_SessionID \<lparr>rr_SessionID = demo_sid, rr_Token = ?tok\<rparr>)" by (simp add: ascii_def demo_sid_def list_all_iff)
  ultimately obtain b where b: "dec (w_resume_request demo_wire) b = Some \<lparr>rr_SessionID = demo_sid, rr_Token = ?tok\<rparr>"
    unfolding codec_ok_def by blast
  define st where "st = \<lparr>st_Data = b, st_Signature = Sign demo_crypto demo_attest (signingInput [] b), st_Metadata = [], st_Padding = []\<rparr>"
  have st: "unmarshal (w_resume_request demo_wire) (st_Data st) = Inr \<lparr>rr_SessionID = demo_sid, rr_Token = ?tok\<rparr>"
      "Verify demo_crypto ?key (signingInput (st_Metadata st) (st_Data st)) (st_Signature st)"
    using b Verify_Sign [OF demo_laws(1) demo_attest_ok] by (simp_all add: st_def unmarshal_def)
  have ok: "store_ok demo_crypto demo_bolt (sv_storage sv)" using s sv by (simp add: holds_session_def)
  have "\<exists>es s'. run (handleResume demo_crypto demo_wire demo_bolt sv Plain st) es = Some ((s', Inr ()), [])"
    by (rule granted_run [OF s [folded sv(1)] _ st]) (simp, unfold sv, erule (1) demo_granted)
  then obtain es s' where r: "run (handleResume demo_crypto demo_wire demo_bolt sv Plain st) es = Some ((s', Inr ()), [])"
    by blast
  from resume_requires_token [OF ok r, unfolded sv(1)] r [unfolded sv_def] show ?thesis by blast
qed




lemma keep_tokens_peers: "store_ok cr bd s \<Longrightarrow> yields (keep_tokens cr bd s t) (\<lambda>s'. same_peers cr bd s s')"
proof -
  assume "store_ok cr bd s"
  note set_meta_keeps_peers [OF this meta_keys_ok(3), of "t_sessionID t" "serializeList (tokens_of cr t)"]
  moreover have "NewByteSlicesMeta ResumptionTokensKey (tokens_of cr t) = NewBytesMeta ResumptionTokensKey (serializeList (tokens_of cr t))"
    by (simp add: NewByteSlicesMeta_def NewBytesMeta_def)
  ultimately show ?thesis
    unfolding keep_tokens_def tokens_of_def [symmetric] by (auto elim!: yields_bind)
qed

text \<open>C35. The tokens of a new session are lost. The handshake stores them under a session ID that has no
  record yet, which fails and is ignored; the application records the session afterwards. A later attempt
  to resume it finds no token.\<close>

theorem new_session_tokens_lost:
  assumes ok: "store_ok cr bd s" and new: "metas cr bd s (t_sessionID t) = None" and sid: "t_sessionID t \<noteq> []"
    and peer: "peer_entry cr w bd s pub = Some p"
    and r1: "run (keep_tokens cr bd s t) e1 = Some (s1, f1)"
    and r2: "run (CreateSession cr w bd s1 (t_sessionID t) pub) e2 = Some ((s2, r), f2)"
    and r3: "run (PopList cr bd s2 (t_sessionID t) ResumptionTokensKey) e3 = Some ((s3, tok), f3)"
  shows "tok = Inl ErrNotFound"
proof -
  have s1: "store_ok cr bd s1" "metas cr bd s1 = metas cr bd s" "same_peers cr bd s s1"
    using yields_run [OF r1 keep_tokens_yields [OF ok]] yields_run [OF r1 keep_tokens_peers [OF ok]] new by auto
  obtain data where data: "plain cr bd (sto_cipher s1) (sto_db s1) [PeersNamespace] (peerKey cr pub) = Some (Inr data)"
      "dec (w_peer w) data = Some p"
    using peer [folded peer_entry_same [OF s1(3)]] by (auto simp: peer_entry_Some)
  from CreateSession_live [OF s1(1) sid data] obtain k where k:
      "CreateSession cr w bd s1 (t_sessionID t) pub = Now (\<lambda>now. if peer_expired s1 p now then Hang else k)"
      "yields k (\<lambda>(s', r). r = Inr () \<and> store_ok cr bd s' \<and> same_peers cr bd s1 s' \<and>
         (\<exists>now. time_ok now \<and> metas cr bd s' = session_record (metas cr bd s1) (t_sessionID t) (pp_PublicKey p) now))" by blast
  from r2 obtain e where "run k e = Some ((s2, r), f2)" by (auto simp: k(1) run_Now split: if_splits)
  from yields_run [OF this k(2)] obtain now where s2: "store_ok cr bd s2"
      "metas cr bd s2 = session_record (metas cr bd s1) (t_sessionID t) (pp_PublicKey p) now" by auto
  have "spec_get (metas cr bd s2) (t_sessionID t) ResumptionTokensKey = Inl ErrMissingItem"
    using new session_keys_distinct [symmetric] by (simp add: s2(2) s1(2) session_record_def spec_get_def Let_def)
  with yields_run [OF r3 pop_refines [OF s2(1) meta_keys_ok(3)]] show ?thesis
    by (simp add: missing_not_found_def isMissing_def)
qed

theorem new_session_tokens_lost_witness:
  "\<exists>s t e1 s1 e2 s2 e3 s3. metas demo_crypto demo_bolt s (t_sessionID t) = None \<and>
     run (keep_tokens demo_crypto demo_bolt s t) e1 = Some (s1, []) \<and>
     run (CreateSession demo_crypto demo_wire demo_bolt s1 (t_sessionID t) (MarshalPublicKey demo_crypto demo_attest)) e2 =
       Some ((s2, Inr ()), []) \<and>
     run (PopList demo_crypto demo_bolt s2 (t_sessionID t) ResumptionTokensKey) e3 = Some ((s3, Inl ErrNotFound), [])"
proof -
  let ?cr = demo_crypto and ?w = demo_wire and ?bd = demo_bolt and ?key = "MarshalPublicKey demo_crypto demo_attest"
  obtain s data where s: "store_ok ?cr ?bd s" "sto_expiry s = 2 ^ 200"
      "plain ?cr ?bd (sto_cipher s) (sto_db s) [PeersNamespace] (peerKey ?cr ?key) = Some (Inr data)"
      "dec (w_peer ?w) data = Some demo_pb" "metas ?cr ?bd s demo_sid = None"
    by (rule demo_knows_peer)
  define t where "t = demo_transport\<lparr>t_sessionID := demo_sid\<rparr>"
  have t: "t_sessionID t = demo_sid" by (simp add: t_def)
  obtain e1 s1 where r1: "run (keep_tokens ?cr ?bd s t) e1 = Some (s1, [])" "store_ok ?cr ?bd s1" "same_peers ?cr ?bd s s1"
    using yields_ex [OF yields_conj [OF keep_tokens_yields [OF s(1)] keep_tokens_peers [OF s(1)]]] by blast
  have p1: "plain ?cr ?bd (sto_cipher s1) (sto_db s1) [PeersNamespace] (peerKey ?cr ?key) = Some (Inr data)"
      "sto_expiry s1 = 2 ^ 200" using r1(3) s(2,3) by (simp_all add: same_peers_def)
  from CreateSession_live [OF r1(2) demo_sid_ne p1(1) s(4)] obtain k where k:
      "CreateSession ?cr ?w ?bd s1 demo_sid ?key = Now (\<lambda>now. if peer_expired s1 demo_pb now then Hang else k)"
      "yields k (\<lambda>(s', r). r = Inr () \<and> store_ok ?cr ?bd s' \<and> same_peers ?cr ?bd s1 s' \<and>
         (\<exists>now. time_ok now \<and> metas ?cr ?bd s' = session_record (metas ?cr ?bd s1) demo_sid (pp_PublicKey demo_pb) now))" by blast
  obtain e2 s2 where e2: "run k e2 = Some ((s2, Inr ()), [])" "store_ok ?cr ?bd s2" using yields_ex [OF k(2)] by auto
  have r2: "run (CreateSession ?cr ?w ?bd s1 demo_sid ?key) (ENow 0 # e2) = Some ((s2, Inr ()), [])"
    using e2 demo_never_expires [OF p1(2) time_ok_0] by (simp add: k(1) time_ok_0)
  obtain e3 s3 tok where r3: "run (PopList ?cr ?bd s2 demo_sid ResumptionTokensKey) e3 = Some ((s3, tok), [])"
    using yields_ex [OF pop_refines [OF e2(2) meta_keys_ok(3), of demo_sid]] by auto
  have "peer_entry ?cr ?w ?bd s ?key = Some demo_pb" using s(3,4) by (simp add: peer_entry_Some)
  from new_session_tokens_lost [OF s(1) s(5) [folded t] demo_sid_ne [folded t] this r1(1) r2 [folded t] r3 [folded t]]
  show ?thesis using s(5) r1(1) r2 r3 unfolding t [symmetric] by blast
qed

end
