(* ===== verification/Tokens.thy ===== *)
theory Tokens
  imports Complex_Main Handshake
begin

text \<open>
  The relay's session tokens: pkg/relayconn/token.go and the X25519 key pairs of
  pkg/exchange/ecdh.go it uses. A token is accepted by an entropy test (\<open>ValidateUserToken\<close>), is
  computed from two public keys (\<open>TokenFromKeys\<close>), or comes from a Diffie-Hellman exchange over an
  established transport (\<open>DeriveRelayTokens\<close>).
\<close>

subsection \<open>X25519\<close>

text \<open>\<^verbatim>\<open>crypto/ecdh\<close>, \<^verbatim>\<open>hkdf.Expand\<close> over SHA-512 and the authenticated encryption with additional data
  of \<^verbatim>\<open>chacha20poly1305\<close>.\<close>

record dh_crypto =
  x_generate :: "bytes \<Rightarrow> bytes"
  x_seed_size :: nat
  x_public :: "bytes \<Rightarrow> bytes"
  x_valid :: "bytes \<Rightarrow> bool"
  x_shared :: "bytes \<Rightarrow> bytes \<Rightarrow> bytes option"
  hkdf_expand :: "bytes \<Rightarrow> bytes \<Rightarrow> nat \<Rightarrow> bytes option"
  aad_seal :: "bytes \<Rightarrow> bytes \<Rightarrow> bytes \<Rightarrow> bytes \<Rightarrow> bytes"
  aad_open :: "bytes \<Rightarrow> bytes \<Rightarrow> bytes \<Rightarrow> bytes \<Rightarrow> bytes option"

definition dh_law :: "dh_crypto \<Rightarrow> bool" where
  "dh_law dh \<longleftrightarrow>
     (\<forall>k. x_valid dh (x_public dh k) \<and> length (x_public dh k) = 32) \<and>
     (\<forall>s s'. \<exists>z. x_shared dh (x_generate dh s) (x_public dh (x_generate dh s')) = Some z \<and>
        x_shared dh (x_generate dh s') (x_public dh (x_generate dh s)) = Some z)"

definition expand_law :: "dh_crypto \<Rightarrow> bool" where
  "expand_law dh \<longleftrightarrow>
     (\<forall>k i n. n \<le> 255 * 64 \<longrightarrow> (\<exists>d. hkdf_expand dh k i n = Some d \<and> length d = n))"

definition aad_law :: "dh_crypto \<Rightarrow> bool" where
  "aad_law dh \<longleftrightarrow>
     (\<forall>k n p a. aad_open dh k n (aad_seal dh k n p a) a = Some p) \<and>
     (\<forall>k n p a. length (aad_seal dh k n p a) = length p + 16)"

text \<open>The private key; the public one is computed from it.\<close>

type_synonym ecdh = bytes

definition NewECDH :: "dh_crypto \<Rightarrow> ecdh io" where
  "NewECDH dh = Random (x_seed_size dh) (\<lambda>seed. Return (x_generate dh seed))"

definition ecdh_MarshalPublicKey :: "dh_crypto \<Rightarrow> ecdh \<Rightarrow> bytes" where
  "ecdh_MarshalPublicKey dh e = x_public dh e"

definition ecdh_Exchange :: "dh_crypto \<Rightarrow> ecdh \<Rightarrow> bytes \<Rightarrow> kerror + bytes" where
  "ecdh_Exchange dh e remote =
     (if \<not> x_valid dh remote then Inl ErrCrypto
      else case x_shared dh e remote of None \<Rightarrow> Inl ErrCrypto | Some secret \<Rightarrow> Inr secret)"

subsection \<open>The entropy test\<close>

datatype token_error =
  ErrInvalidKeySize | ErrTokenTooShort | ErrTokenInsufficientEntropy | ErrECDHPeerKeyMissing | TokenErr kerror

definition peerTokenSize :: nat where "peerTokenSize = 32"
definition tokenPoolSize :: nat where "tokenPoolSize = 3"
definition ed25519_PublicKeySize :: nat where "ed25519_PublicKeySize = 32"

definition tokenInfoPrefix :: bytes where
  "tokenInfoPrefix = lit ''kamune/relay-reconnect/v1/''"

text \<open>Real arithmetic stands for \<^verbatim>\<open>float64\<close>; rounding is not modelled.\<close>

definition log2 :: "real \<Rightarrow> real" where
  "log2 x = ln x / ln 2"

definition token_freq :: "bytes \<Rightarrow> nat list" where
  "token_freq token = map (\<lambda>b. count_list token (of_nat b)) [0..<256]"

definition entropy :: "bytes \<Rightarrow> real" where
  "entropy token =
     foldl (\<lambda>e f. if 0 < f then e - real f / real (length token) * log2 (real f / real (length token)) else e)
       0 (token_freq token)"

definition ValidateUserToken :: "bytes \<Rightarrow> token_error + unit" where
  "ValidateUserToken token =
     (if length token \<noteq> peerTokenSize then Inl ErrTokenTooShort
      else if list_all (\<lambda>b. b = 0) token then Inl ErrTokenInsufficientEntropy
      else if list_all (\<lambda>b. b = hd token) (tl token) then Inl ErrTokenInsufficientEntropy
      else if entropy token \<le> 3 then Inl ErrTokenInsufficientEntropy
      else Inr ())"

text \<open>The same test on integers: with 32 bytes, the entropy exceeds three bits exactly when the
  product of the \<open>f\<close>-th powers of the frequencies \<open>f\<close> is below \<open>2\<close> to the 64.\<close>

definition exact_token_test :: "bytes \<Rightarrow> token_error + unit" where
  "exact_token_test token =
     (if length token \<noteq> 32 then Inl ErrTokenTooShort
      else if 2 ^ 64 \<le> prod_list (map (\<lambda>f. f ^ f) (token_freq token)) then Inl ErrTokenInsufficientEntropy
      else Inr ())"

subsection \<open>Tokens from keys\<close>

text \<open>\<^verbatim>\<open>bytes.Compare\<close>: lexicographic order, as a sign.\<close>

fun bytes_Compare :: "bytes \<Rightarrow> bytes \<Rightarrow> int" where
  "bytes_Compare [] [] = 0"
| "bytes_Compare [] (y # ys) = - 1"
| "bytes_Compare (x # xs) [] = 1"
| "bytes_Compare (x # xs) (y # ys) = (if x < y then - 1 else if y < x then 1 else bytes_Compare xs ys)"

definition TokenFromKeys :: "crypto \<Rightarrow> bytes \<Rightarrow> bytes \<Rightarrow> token_error + bytes" where
  "TokenFromKeys cr a b =
     (if length a \<noteq> ed25519_PublicKeySize \<or> length b \<noteq> ed25519_PublicKeySize then Inl ErrInvalidKeySize
      else let (lo, hi) = (if 0 < bytes_Compare a b then (b, a) else (a, b)) in
        Inr (sha256_sum cr (lo @ hi)))"

subsection \<open>Tokens from an exchange\<close>

text \<open>A \<^verbatim>\<open>pb.SessionData\<close>: its map field, as an association list. Each entry is a message with the
  key and the value as its fields.\<close>

type_synonym session_data = "(bytes \<times> bytes) list"

definition session_data_ok :: "session_data \<Rightarrow> bool" where
  "session_data_ok fs \<longleftrightarrow> distinct (map fst fs) \<and> list_all (\<lambda>(k, v). ascii k \<and> k \<noteq> [] \<and> v \<noteq> []) fs"

definition session_data_law :: "session_data codec \<Rightarrow> bool" where
  "session_data_law c \<longleftrightarrow>
     codec_ok session_data_ok c \<and>
     (\<forall>fs b. session_data_ok fs \<longrightarrow> enc c fs = Some b \<longrightarrow>
        length b = (\<Sum>(k, v) \<leftarrow> fs. bytes_field_size (bytes_field_size (length k) + bytes_field_size (length v))))"

definition ecdh_pubkey :: bytes where "ecdh_pubkey = lit ''ecdh_pubkey''"

definition reconnect_info :: "nat \<Rightarrow> bytes" where
  "reconnect_info i = tokenInfoPrefix @ put_uint32 (of_nat i)"

fun expand_tokens :: "dh_crypto \<Rightarrow> bytes \<Rightarrow> nat list \<Rightarrow> bytes list option" where
  "expand_tokens dh secret [] = Some []"
| "expand_tokens dh secret (i # is) =
     (case hkdf_expand dh secret (reconnect_info i) 32 of
        None \<Rightarrow> None
      | Some tok \<Rightarrow> (case expand_tokens dh secret is of None \<Rightarrow> None | Some ts \<Rightarrow> Some (tok # ts)))"

definition pool_of :: "dh_crypto \<Rightarrow> ecdh \<Rightarrow> session_data \<Rightarrow> token_error + bytes list" where
  "pool_of dh localKey peerSession =
     (case map_of peerSession ecdh_pubkey of
        None \<Rightarrow> Inl ErrECDHPeerKeyMissing
      | Some peerPub \<Rightarrow>
          (case ecdh_Exchange dh localKey peerPub of
             Inl e \<Rightarrow> Inl (TokenErr e)
           | Inr sharedSecret \<Rightarrow>
               (case expand_tokens dh sharedSecret [0..<tokenPoolSize] of
                  None \<Rightarrow> Inl (TokenErr ErrCrypto)
                | Some tokens \<Rightarrow> Inr tokens)))"

definition DeriveRelayTokens ::
  "crypto \<Rightarrow> wire \<Rightarrow> dh_crypto \<Rightarrow> session_data codec \<Rightarrow> transport \<Rightarrow>
     (transport \<times> (token_error + bytes list)) io" where
  "DeriveRelayTokens cr w dh sd transport =
     io_bind (NewECDH dh) (\<lambda>localKey.
       io_bind (Send cr w sd transport [(ecdh_pubkey, ecdh_MarshalPublicKey dh localKey)] RouteSessionData)
         (\<lambda>(t1, r). case r of
            Inl e \<Rightarrow> Return (t1, Inl (TokenErr e))
          | Inr _ \<Rightarrow> io_bind (Receive cr w sd t1) (\<lambda>(t2, r). case r of
              Inl e \<Rightarrow> Return (t2, Inl (TokenErr e))
            | Inr (_, peerSession) \<Rightarrow> Return (t2, pool_of dh localKey peerSession))))"

subsection \<open>The entropy test, exactly\<close>

lemma bytes_bij: "bij_betw (of_nat :: nat \<Rightarrow> byte) {0..<256} UNIV"
proof (rule bij_betw_imageI)
  show "inj_on (of_nat :: nat \<Rightarrow> byte) {0..<256}"
    by (rule inj_onI) (simp add: of_nat_byte_eq)
  have "b \<in> of_nat ` {0..<256}" for b :: byte
    by (rule image_eqI [of _ _ "unat b"]) (use unat_byte [of b] in simp_all)
  then show "(of_nat :: nat \<Rightarrow> byte) ` {0..<256} = UNIV" by blast
qed

lemma sum_token_freq: "sum_list (token_freq token) = length token"
proof -
  have "sum_list (token_freq token) = (\<Sum>b \<in> {0..<256}. count_list token (of_nat b))"
    unfolding token_freq_def by (simp add: interv_sum_list_conv_sum_set_nat)
  also have "\<dots> = (\<Sum>b \<in> (UNIV :: byte set). count_list token b)"
    by (rule sum.reindex_bij_betw [OF bytes_bij])
  also have "\<dots> = length token"
    by (rule sum_count_set) simp_all
  finally show ?thesis .
qed

lemma powers_pos: "0 < prod_list (map (\<lambda>f. f ^ f) (fs :: nat list))"
  by (induction fs) (auto simp: zero_less_power_eq)

lemma log2_powers: "(\<Sum>f \<leftarrow> fs. real f * log2 (real f)) = log2 (real (prod_list (map (\<lambda>f. f ^ f) fs)))"
proof (induction fs)
  case (Cons f fs)
  have p: "0 < real (prod_list (map (\<lambda>f. f ^ f) fs))" using powers_pos by (simp only: of_nat_0_less_iff)
  have "real f * log2 (real f) = log2 (real f ^ f)"
    by (cases "f = 0") (simp_all add: log2_def ln_realpow)
  moreover have "0 < real f ^ f" by (cases "f = 0") simp_all
  ultimately show ?case
    using Cons p by (simp add: log2_def ln_mult_pos add_divide_distrib)
qed (simp add: log2_def)

lemma entropy_fold:
  "foldl (\<lambda>e f. if 0 < f then e - real f / n * log2 (real f / n) else e) a fs =
     a - (\<Sum>f \<leftarrow> fs. real f / n * log2 (real f / n))"
  by (induction fs arbitrary: a) auto

lemma entropy_32:
  assumes "length token = 32"
  shows "entropy token = 5 - log2 (real (prod_list (map (\<lambda>f. f ^ f) (token_freq token)))) / 32"
proof -
  have l: "log2 32 = 5"
    using ln_realpow [of 2 5] by (simp add: log2_def)
  have "real f / 32 * log2 (real f / 32) = (real f * log2 (real f)) / 32 - 5 / 32 * real f" for f
    using l by (cases "f = 0") (simp_all add: log2_def ln_div field_simps)
  moreover have "(\<Sum>f \<leftarrow> fs. g f / 32 - 5 / 32 * real f) = (\<Sum>f \<leftarrow> fs. g f) / 32 - 5 / 32 * real (sum_list fs)"
    for g fs by (induction fs) (simp_all add: field_simps)
  ultimately have "(\<Sum>f \<leftarrow> fs. real f / 32 * log2 (real f / 32)) =
      (\<Sum>f \<leftarrow> fs. real f * log2 (real f)) / 32 - 5 / 32 * real (sum_list fs)" for fs
    by (simp only:)
  then show ?thesis
    by (simp add: entropy_def entropy_fold assms sum_token_freq log2_powers)
qed

lemma entropy_le_3:
  assumes "length token = 32"
  shows "entropy token \<le> 3 \<longleftrightarrow> 2 ^ 64 \<le> prod_list (map (\<lambda>f. f ^ f) (token_freq token))"
proof -
  let ?p = "prod_list (map (\<lambda>f. f ^ f) (token_freq token))"
  have p: "0 < real ?p" using powers_pos by (simp only: of_nat_0_less_iff)
  have "entropy token \<le> 3 \<longleftrightarrow> 64 * ln 2 \<le> ln (real ?p)"
    by (simp add: entropy_32 [OF assms] log2_def field_simps)
  also have "\<dots> \<longleftrightarrow> ln (2 ^ 64) \<le> ln (real ?p)"
    using ln_realpow [of 2 64] by simp
  also have "\<dots> \<longleftrightarrow> 2 ^ 64 \<le> real ?p"
    using p by (subst ln_le_cancel_iff) simp_all
  also have "\<dots> \<longleftrightarrow> real (2 ^ 64) \<le> real ?p" by simp
  also have "\<dots> \<longleftrightarrow> 2 ^ 64 \<le> ?p" by (simp only: of_nat_le_iff)
  finally show ?thesis .
qed

lemma constant_token:
  assumes "length token = 32" "list_all (\<lambda>b. b = c) token"
  shows "2 ^ 64 \<le> prod_list (map (\<lambda>f. f ^ f) (token_freq token))"
proof -
  have t: "token = replicate 32 c"
    using assms by (simp add: list_all_iff replicate_length_same [symmetric] flip: assms(1))
  have c: "count_list (replicate n c) x = (if x = c then n else 0)" for x n
    by (induction n) auto
  have "unat c \<in> set [0..<256]" using unat_byte [of c] by simp
  then obtain xs ys where s: "[0..<256] = xs @ unat c # ys" by (meson split_list)
  have pos: "1 \<le> prod_list (map (\<lambda>f. f ^ f) fs)" for fs :: "nat list"
    using powers_pos [of fs] by linarith
  have "1 * (32 ^ 32 * 1) \<le> prod_list (map (\<lambda>f. f ^ f) xs') * (32 ^ 32 * prod_list (map (\<lambda>f. f ^ f) ys'))"
    for xs' ys' :: "nat list" by (intro mult_le_mono pos order_refl)
  from this [of "map (\<lambda>b. count_list token (of_nat b)) xs" "map (\<lambda>b. count_list token (of_nat b)) ys"]
  have "32 ^ 32 \<le> prod_list (map (\<lambda>f. f ^ f) (token_freq token))"
    unfolding token_freq_def s t by (simp add: c)
  then show ?thesis by simp
qed

lemma ValidateUserToken_code [code]: "ValidateUserToken token = exact_token_test token"
proof (cases "length token = 32")
  case True
  have "2 ^ 64 \<le> prod_list (map (\<lambda>f. f ^ f) (token_freq token))"
    if "list_all (\<lambda>b. b = hd token) (tl token)"
    by (rule constant_token [OF True, of "hd token"]) (use that True in \<open>cases token; simp\<close>)
  with constant_token [OF True, of 0] show ?thesis
    by (auto simp: ValidateUserToken_def exact_token_test_def peerTokenSize_def True entropy_le_3)
qed (simp add: ValidateUserToken_def exact_token_test_def peerTokenSize_def)

text \<open>C28. \<^verbatim>\<open>ValidateUserToken\<close> computes exactly the integer test: it rejects every token that is
  not 32 bytes, and among those of 32 bytes just the ones whose frequencies \<open>f\<close> have
  \<open>\<Prod> f ^ f \<ge> 2 ^ 64\<close>, that is, at most three bits of Shannon entropy per byte. Its checks for the
  zero and the constant token reject nothing more.\<close>

theorem token_test_exact: "ValidateUserToken token = exact_token_test token"
  by (rule ValidateUserToken_code)

subsection \<open>Symmetry of the key-derived token\<close>

lemma bytes_Compare_flip: "bytes_Compare b a = - bytes_Compare a b"
  by (induction a b rule: bytes_Compare.induct) auto

lemma bytes_Compare_0: "bytes_Compare a b = 0 \<Longrightarrow> a = b"
  by (induction a b rule: bytes_Compare.induct) (auto split: if_splits)

text \<open>Both peers compute the same token, whichever key each of them puts first.\<close>

lemma TokenFromKeys_sym: "TokenFromKeys cr a b = TokenFromKeys cr b a"
  using bytes_Compare_flip [of a b] bytes_Compare_0 [of a b] by (auto simp: TokenFromKeys_def)

subsection \<open>Two messages that cross\<close>

lemma link_cross:
  assumes "hpke_law cr" "linked n m a b" "n < 2 ^ 64" "m < 2 ^ 64"
    and "\<And>l. f (l, Inr ()) = io_bind (link_ReadBytes cr l) f'"
    and "\<And>l. g (l, Inr ()) = io_bind (link_ReadBytes cr l) g'"
    and "\<And>a' b'. linked (Suc n) (Suc m) a' b' \<Longrightarrow> settles Q ((f' (a', Inr e), []), (g' (b', Inr d), []))"
  shows "settles Q ((io_bind (link_WriteBytes cr a d) f, []), (io_bind (link_WriteBytes cr b e) g, []))"
proof (cases "(n, m, a, b)" rule: linked.cases)
  case 1
  with assms(7) [of Plain Plain] show ?thesis
    by (auto simp: link_WriteBytes_def assms(5,6) link_ReadBytes_def intro!: settles_left settles_right)
next
  case (2 n' m' a' b')
  then have p: "paired n m a' b'" and eq: "a = Tunnelled a'" "b = Tunnelled b'" using assms(2) by simp_all
  obtain x y where x: "sender a' = (x, n)" "recipient b' = (x, n)" and y: "sender b' = (y, m)" "recipient a' = (y, m)"
    using p by (cases "sender a'"; cases "sender b'") (auto simp: paired_def)
  from assms(1,3) obtain c where c: "hpke_seal cr x n d = Some c" "hpke_open cr x n c = Some d"
    unfolding hpke_law_def by blast
  from assms(1,4) obtain c' where c': "hpke_seal cr y m e = Some c'" "hpke_open cr y m c' = Some e"
    unfolding hpke_law_def by blast
  have "linked (Suc n) (Suc m) (Tunnelled (a'\<lparr>sender := (x, Suc n), recipient := (y, Suc m)\<rparr>))
      (Tunnelled (b'\<lparr>sender := (y, Suc m), recipient := (x, Suc n)\<rparr>))"
    by (simp add: paired_def)
  from assms(7) [OF this] show ?thesis
    using c c' x y unfolding eq
    by (auto simp: link_WriteBytes_def assms(5,6) link_ReadBytes_def Channel_WriteBytes_def Channel_ReadBytes_def
        Let_def intro!: settles_left settles_right)
qed (use assms in auto)

lemma messages_cross:
  assumes "good_laws cr w" "instep cr n m a b" "n < 2 ^ 64" "m < 2 ^ 64"
    and "enc c ma = Some xa" "dec c xa = Some ma" "length xa \<le> maxTransportSize"
    and "enc c mb = Some xb" "dec c xb = Some mb" "length xb \<le> maxTransportSize"
    and "IsValid route" "route \<noteq> RouteCloseTransport"
    and f: "\<And>t md. f (t, Inr md) = io_bind (Receive cr w c t) f'"
    and g: "\<And>t md. g (t, Inr md) = io_bind (Receive cr w c t) g'"
    and "\<And>a' b' mda mdb. instep cr (Suc n) (Suc m) a' b' \<Longrightarrow> keys_of a' = keys_of a \<Longrightarrow> keys_of b' = keys_of b \<Longrightarrow>
       settles Q ((f' (a', Inr (mdb, mb)), []), (g' (b', Inr (mda, ma)), []))"
  shows "settles Q ((io_bind (Send cr w c a ma route) f, []), (io_bind (Send cr w c b mb route) g, []))"
proof -
  have i: "flows cr a b" "flows cr b a" "linked n m (t_conn a) (t_conn b)"
    using assms(2) by (simp_all add: instep_def)
  have fl: "flows cr a (sent_from b)" "flows cr b (sent_from a)"
    using i by (simp_all add: flows_def sent_from_def)
  show ?thesis
    unfolding Send_prepare [OF assms(11)] io_bind_assoc
  proof (rule yields_left [OF prepare_yields [OF assms(1,5-7) fl(1) assms(11,12)]],
      rule yields_right [OF prepare_yields [OF assms(1,8-10) fl(2) assms(11,12)]], goal_cases)
    case (1 x y)
    then obtain cta mda ctb mdb where eq: "x = Inr (cta, mda)" "y = Inr (ctb, mdb)"
      and r: "\<And>l. receive_payload cr w c (sent_from b\<lparr>t_conn := l\<rparr>) cta =
          (received_at (sent_from b)\<lparr>t_conn := l\<rparr>, Inr (mda, ma))"
        "\<And>l. receive_payload cr w c (sent_from a\<lparr>t_conn := l\<rparr>) ctb =
          (received_at (sent_from a)\<lparr>t_conn := l\<rparr>, Inr (mdb, mb))"
      by auto
    have "instep cr (Suc n) (Suc m) (received_at (sent_from a)\<lparr>t_conn := la\<rparr>) (received_at (sent_from b)\<lparr>t_conn := lb\<rparr>)"
      if "linked (Suc n) (Suc m) la lb" for la lb
      using that i by (simp add: instep_def flows_def sent_from_def received_at_def)
    then show ?case
      unfolding eq sum.case prod.case io_bind_assoc
      by (intro link_cross [OF good_lawsD(5) [OF assms(1)] i(3) assms(3,4),
            where f' = "\<lambda>(l, x). f' (case x of Inl e \<Rightarrow> (sent_from a\<lparr>t_conn := l\<rparr>, Inl (receive_error e))
                       | Inr p \<Rightarrow> receive_payload cr w c (sent_from a\<lparr>t_conn := l\<rparr>) p)"
              and g' = "\<lambda>(l, x). g' (case x of Inl e \<Rightarrow> (sent_from b\<lparr>t_conn := l\<rparr>, Inl (receive_error e))
                       | Inr p \<Rightarrow> receive_payload cr w c (sent_from b\<lparr>t_conn := l\<rparr>) p)"])
         (auto simp: f g r Receive_def io_bind_assoc Let_def intro!: assms(15)
           arg_cong [where f = "io_bind (link_ReadBytes cr _)"] split: sum.splits)
  qed
qed

subsection \<open>Both peers derive the same pool\<close>

lemma expand_tokens_ok:
  "expand_law dh \<Longrightarrow> \<exists>ts. expand_tokens dh z is = Some ts \<and> length ts = length is \<and> list_all (\<lambda>t. length t = 32) ts"
proof (induction "is")
  case (Cons i "is")
  then obtain ts where ts: "expand_tokens dh z is = Some ts" "length ts = length is" "list_all (\<lambda>t. length t = 32) ts"
    by blast
  have "(32 :: nat) \<le> 255 * 64" by simp
  with Cons.prems obtain d where "hkdf_expand dh z (reconnect_info i) 32 = Some d" "length d = 32"
    unfolding expand_law_def by blast
  with ts show ?case by simp
qed simp

definition pools_agree :: "crypto \<Rightarrow> nat \<Rightarrow> nat \<Rightarrow> transport \<times> (token_error + bytes list) \<Rightarrow>
    transport \<times> (token_error + bytes list) \<Rightarrow> bool" where
  "pools_agree cr n m x y \<longleftrightarrow> instep cr n m (fst x) (fst y) \<and>
     (\<exists>ts. snd x = Inr ts \<and> snd y = Inr ts \<and> length ts = tokenPoolSize \<and> list_all (\<lambda>t. length t = 32) ts)"

lemma pubkey_message:
  assumes "session_data_law sd" "length v = 32"
  shows "\<exists>b. enc sd [(ecdh_pubkey, v)] = Some b \<and> dec sd b = Some [(ecdh_pubkey, v)] \<and> length b \<le> maxTransportSize"
proof -
  have ok: "session_data_ok [(ecdh_pubkey, v)]"
    using assms(2) by (auto simp: session_data_ok_def ecdh_pubkey_def ascii_def lit_def of_char_def)
  with assms(1) obtain b where b: "enc sd [(ecdh_pubkey, v)] = Some b" "dec sd b = Some [(ecdh_pubkey, v)]"
    unfolding session_data_law_def codec_ok_def by blast
  have "length ecdh_pubkey = 11" by (simp add: ecdh_pubkey_def)
  with assms(1) ok b have "length b = bytes_field_size (bytes_field_size 11 + bytes_field_size 32)"
    by (simp add: session_data_law_def assms(2))
  with b show ?thesis
    by (simp add: bytes_field_size_def varintSize_ranges size_consts)
qed

text \<open>C29. Two peers whose transports are in step and who both call \<^verbatim>\<open>DeriveRelayTokens\<close> complete,
  although each sends before it receives: under every schedule both end with the same pool of three
  32-byte tokens, and their transports are still in step.\<close>

theorem derived_pools_agree:
  assumes "good_laws cr w" "dh_law dh" "expand_law dh" "session_data_law sd"
    and "instep cr n m a b" "n < 2 ^ 64" "m < 2 ^ 64"
  shows "completes (pools_agree cr (Suc n) (Suc m))
     ((DeriveRelayTokens cr w dh sd a, []), (DeriveRelayTokens cr w dh sd b, []))"
proof (rule settles_completes)
  have route: "IsValid RouteSessionData" "RouteSessionData \<noteq> RouteCloseTransport"
    by (simp_all add: IsValid_def)
  have pub: "x_valid dh (x_public dh k)" "length (x_public dh k) = 32" for k
    using assms(2) by (simp_all add: dh_law_def)
  have "settles (pools_agree cr (Suc n) (Suc m))
      ((Return (a', pool_of dh (x_generate dh sa) [(ecdh_pubkey, x_public dh (x_generate dh sb))]), []),
       (Return (b', pool_of dh (x_generate dh sb) [(ecdh_pubkey, x_public dh (x_generate dh sa))]), []))"
    if "instep cr (Suc n) (Suc m) a' b'" for a' b' sa sb
  proof -
    obtain z where z: "x_shared dh (x_generate dh sa) (x_public dh (x_generate dh sb)) = Some z"
        "x_shared dh (x_generate dh sb) (x_public dh (x_generate dh sa)) = Some z"
      using assms(2) unfolding dh_law_def by blast
    with expand_tokens_ok [OF assms(3), of z "[0..<tokenPoolSize]"] that show ?thesis
      by (auto intro!: settles.finish simp: pools_agree_def pool_of_def ecdh_Exchange_def pub)
  qed
  then show "settles (pools_agree cr (Suc n) (Suc m))
     ((DeriveRelayTokens cr w dh sd a, []), (DeriveRelayTokens cr w dh sd b, []))"
    unfolding DeriveRelayTokens_def NewECDH_def io_bind.simps ecdh_MarshalPublicKey_def
  proof (intro settles_left_Random settles_right_Random, goal_cases)
    case (1 sa sb)
    from pubkey_message [OF assms(4) pub(2), of "x_generate dh sa"]
      pubkey_message [OF assms(4) pub(2), of "x_generate dh sb"] show ?case
      by (elim exE conjE, intro messages_cross [OF assms(1,5-7) _ _ _ _ _ _ route]) (assumption | simp add: 1)+
  qed
qed

definition put_entry :: "bytes \<times> bytes \<Rightarrow> bytes" where
  "put_entry e = put_field 1 (put_fields 1 [fst e, snd e])"

fun get_entries :: "nat \<Rightarrow> bytes \<Rightarrow> session_data" where
  "get_entries 0 bs = []"
| "get_entries (Suc n) bs =
     (if bs = [] then []
      else let (x, rest) = get_field 1 bs; f = get_fields 1 2 x in (f ! 0, f ! 1) # get_entries n rest)"

definition demo_session_data :: "session_data codec" where
  "demo_session_data =
     \<lparr>enc = \<lambda>fs. Some (concat (map put_entry fs)), dec = \<lambda>bs. Some (get_entries (length bs) bs)\<rparr>"

definition demo_dh :: dh_crypto where
  "demo_dh = \<lparr>x_generate = id, x_seed_size = 32, x_public = fit 32, x_valid = \<lambda>_. True, x_shared = \<lambda>_ _. Some [],
     hkdf_expand = \<lambda>k i n. if n \<le> 255 * 64 then Some (fit n (k @ i)) else None,
     aad_seal = \<lambda>k n p a. p @ replicate 16 0,
     aad_open = \<lambda>k n c a. if length c < 16 then None else Some (take (length c - 16) c)\<rparr>"

lemma demo_dh_laws: "dh_law demo_dh" "expand_law demo_dh" "aad_law demo_dh"
  by (simp_all add: dh_law_def expand_law_def aad_law_def demo_dh_def)

lemma put_entry_ne: "k \<noteq> [] \<Longrightarrow> put_entry (k, v) \<noteq> []"
  by (simp add: put_entry_def put_field_def)

lemma get_put_entry: "k \<noteq> [] \<Longrightarrow> get_field 1 (put_entry (k, v) @ rest) = (put_fields 1 [k, v], rest)"
  by (simp add: put_entry_def put_field_def get_field_def get_put_uvarint)

lemma get_put_entries:
  "list_all (\<lambda>(k, v). k \<noteq> []) fs \<Longrightarrow> length (concat (map put_entry fs)) \<le> n \<Longrightarrow>
     get_entries n (concat (map put_entry fs)) = fs"
proof (induction fs arbitrary: n)
  case Nil
  then show ?case by (cases n) simp_all
next
  case (Cons e fs)
  obtain k v where e: "e = (k, v)" by force
  with Cons.prems have "put_entry e \<noteq> []" and k: "k \<noteq> []" by (simp_all add: put_entry_ne)
  with Cons.prems obtain n' where n: "n = Suc n'" "length (concat (map put_entry fs)) \<le> n'"
    by (cases n) (auto simp: Suc_le_eq simp flip: length_greater_0_conv)
  with Cons \<open>put_entry e \<noteq> []\<close> k show ?case
    by (simp add: e get_put_entry get_put_fields_2 del: put_fields.simps One_nat_def)
qed

lemma demo_session_data_law: "session_data_law demo_session_data"
proof -
  have "length (concat (map put_entry fs)) =
      (\<Sum>(k, v) \<leftarrow> fs. bytes_field_size (bytes_field_size (length k) + bytes_field_size (length v)))" for fs
    by (induction fs) (auto simp: put_entry_def length_put_field)
  then show ?thesis
    by (auto simp: session_data_law_def codec_ok_def demo_session_data_def session_data_ok_def list_all_iff
        intro!: get_put_entries)
qed

theorem derived_pools_agree_witness:
  "completes (pools_agree demo_crypto 1 1)
     ((DeriveRelayTokens demo_crypto demo_wire demo_dh demo_session_data demo_transport, []),
      (DeriveRelayTokens demo_crypto demo_wire demo_dh demo_session_data demo_transport, []))"
proof -
  have "instep demo_crypto 0 0 demo_transport demo_transport"
    using demo_flows by (simp add: instep_def demo_transport_def newTransport_def)
  from derived_pools_agree [OF demo_good_laws demo_dh_laws(1,2) demo_session_data_law this] show ?thesis by simp
qed

end
