(* ===== verification/Ratelimit.thy ===== *)
theory Ratelimit
  imports Prelude
begin

text \<open>
  The relay's rate limiter, cmd/relay/internal/ratelimit/ratelimit.go, over the expiring cache it is
  built on, and its equivalence with a sliding window over the whole history of admissions.
\<close>

subsection \<open>The cache\<close>

text \<open>\<^verbatim>\<open>expirable.LRU\<close> of golang-lru, a library. \<open>lru_held\<close> is a view of its content (the value and the
  time it was added), \<open>lru_life\<close> of its time to live, and \<open>lru_unbounded\<close> of the capacity 0. The
  cache reads the clock itself; a call is given the reading of the critical section it is part of.\<close>

record 'l lru =
  lru_New :: "int \<Rightarrow> duration \<Rightarrow> 'l"
  lru_Get :: "gotime \<Rightarrow> bytes \<Rightarrow> 'l \<Rightarrow> 'l \<times> gotime list option"
  lru_Add :: "gotime \<Rightarrow> bytes \<Rightarrow> gotime list \<Rightarrow> 'l \<Rightarrow> 'l"
  lru_held :: "'l \<Rightarrow> bytes \<Rightarrow> (gotime list \<times> gotime) option"
  lru_life :: "'l \<Rightarrow> duration"
  lru_unbounded :: "'l \<Rightarrow> bool"

text \<open>What its documentation promises of a cache without capacity limit: an entry is found until its
  time to live has passed since it was added, and not afterwards.\<close>

definition lru_law :: "'l lru \<Rightarrow> bool" where
  "lru_law c \<longleftrightarrow>
     (\<forall>d k. 0 < d \<longrightarrow>
        lru_held c (lru_New c 0 d) k = None \<and> lru_life c (lru_New c 0 d) = d \<and> lru_unbounded c (lru_New c 0 d)) \<and>
     (\<forall>now k l. lru_unbounded c l \<longrightarrow>
        (let (l', r) = lru_Get c now k l in
           lru_held c l' = lru_held c l \<and> lru_life c l' = lru_life c l \<and> lru_unbounded c l' \<and>
           r = (case lru_held c l k of
                  None \<Rightarrow> None
                | Some (v, t) \<Rightarrow> if now > t + lru_life c l then None else Some v))) \<and>
     (\<forall>now k v l. lru_unbounded c l \<longrightarrow>
        lru_held c (lru_Add c now k v l) = (lru_held c l)(k \<mapsto> (v, now)) \<and>
        lru_life c (lru_Add c now k v l) = lru_life c l \<and> lru_unbounded c (lru_Add c now k v l))"

subsection \<open>The limiter\<close>

record 'l rate_limiter =
  rl_lru :: 'l
  rl_quota :: int
  rl_window :: duration

definition ratelimit_New :: "'l lru \<Rightarrow> int \<Rightarrow> duration \<Rightarrow> int \<Rightarrow> 'l rate_limiter" where
  "ratelimit_New c quota window maxEntries =
     \<lparr>rl_lru = lru_New c maxEntries (window * 2), rl_quota = quota, rl_window = window\<rparr>"

definition Allow :: "'l lru \<Rightarrow> gotime \<Rightarrow> bytes \<Rightarrow> 'l rate_limiter \<Rightarrow> 'l rate_limiter \<times> bool" where
  "Allow c now key rl =
     (let cutoff = now - rl_window rl;
          (l, found) = lru_Get c now key (rl_lru rl);
          stamps = dropWhile (\<lambda>s. \<not> s > cutoff) (case found of None \<Rightarrow> [] | Some s \<Rightarrow> s) in
      if int (length stamps) \<ge> rl_quota rl then (rl\<lparr>rl_lru := l\<rparr>, False)
      else (rl\<lparr>rl_lru := lru_Add c now key (stamps @ [now]) l\<rparr>, True))"

fun allow_all :: "'l lru \<Rightarrow> 'l rate_limiter \<Rightarrow> (gotime \<times> bytes) list \<Rightarrow> 'l rate_limiter \<times> bool list" where
  "allow_all c rl [] = (rl, [])"
| "allow_all c rl ((now, key) # calls) =
     (let (rl', r) = Allow c now key rl; (rl'', rs) = allow_all c rl' calls in (rl'', r # rs))"

subsection \<open>The sliding window\<close>

text \<open>The reference: the whole history of admissions of each key is kept, and a call is admitted when
  fewer than \<open>quota\<close> of its key lie in the window that ends now.\<close>

definition in_window :: "duration \<Rightarrow> gotime \<Rightarrow> gotime list \<Rightarrow> gotime list" where
  "in_window window now ts = filter (\<lambda>t. now - window < t) ts"

definition window_allow :: "int \<Rightarrow> duration \<Rightarrow> gotime \<Rightarrow> bytes \<Rightarrow> (bytes \<Rightarrow> gotime list) \<Rightarrow> (bytes \<Rightarrow> gotime list) \<times> bool" where
  "window_allow quota window now key adm =
     (if int (length (in_window window now (adm key))) < quota then (adm(key := adm key @ [now]), True)
      else (adm, False))"

fun window_all ::
  "int \<Rightarrow> duration \<Rightarrow> (bytes \<Rightarrow> gotime list) \<Rightarrow> (gotime \<times> bytes) list \<Rightarrow> (bytes \<Rightarrow> gotime list) \<times> bool list" where
  "window_all quota window adm [] = (adm, [])"
| "window_all quota window adm ((now, key) # calls) =
     (let (adm', r) = window_allow quota window now key adm;
          (adm'', rs) = window_all quota window adm' calls in (adm'', r # rs))"

text \<open>The window admits at most \<open>quota\<close> calls of a key in every interval of its length.\<close>

definition capped :: "int \<Rightarrow> duration \<Rightarrow> gotime list \<Rightarrow> bool" where
  "capped quota window ts \<longleftrightarrow> (\<forall>t. int (length (filter (\<lambda>x. t - window < x \<and> x \<le> t) ts)) \<le> max 0 quota)"

lemma length_filter_mono_le: "(\<And>x. x \<in> set xs \<Longrightarrow> P x \<Longrightarrow> Q x) \<Longrightarrow> length (filter P xs) \<le> length (filter Q xs)"
  by (induction xs) (auto intro: le_SucI)

lemma capped_add:
  assumes "capped quota window ts" "\<And>x. x \<in> set ts \<Longrightarrow> x \<le> now" "int (length (in_window window now ts)) < quota"
  shows "capped quota window (ts @ [now])"
proof -
  have "int (length (filter (\<lambda>x. t - window < x \<and> x \<le> t) (ts @ [now]))) \<le> max 0 quota" for t
  proof (cases "t - window < now \<and> now \<le> t")
    case True
    then have "length (filter (\<lambda>x. t - window < x \<and> x \<le> t) ts) \<le> length (in_window window now ts)"
      unfolding in_window_def by (intro length_filter_mono_le) auto
    with True assms(3) show ?thesis by simp
  next
    case False
    with assms(1) show ?thesis by (auto simp: capped_def)
  qed
  then show ?thesis by (simp add: capped_def)
qed

subsection \<open>Equivalence\<close>

text \<open>What the cache holds of a key's admissions up to \<open>now\<close>: all but some that had left the window
  when the entry was written.\<close>

definition tracked :: "duration \<Rightarrow> gotime \<Rightarrow> (gotime list \<times> gotime) option \<Rightarrow> gotime list \<Rightarrow> bool" where
  "tracked window now e ts \<longleftrightarrow> sorted ts \<and>
     (case e of
        None \<Rightarrow> ts = []
      | Some (v, t) \<Rightarrow> t \<le> now \<and> (\<forall>x \<in> set ts. x \<le> t) \<and>
          (\<exists>old. ts = old @ v \<and> (\<forall>x \<in> set old. x \<le> t - window)))"

definition tracks :: "'l lru \<Rightarrow> gotime \<Rightarrow> 'l rate_limiter \<Rightarrow> (bytes \<Rightarrow> gotime list) \<Rightarrow> bool" where
  "tracks c now rl adm \<longleftrightarrow>
     lru_unbounded c (rl_lru rl) \<and> lru_life c (rl_lru rl) = rl_window rl * 2 \<and>
     (\<forall>k. tracked (rl_window rl) now (lru_held c (rl_lru rl) k) (adm k))"

lemma dropWhile_sorted: "sorted xs \<Longrightarrow> dropWhile (\<lambda>s. \<not> s > c) xs = filter (\<lambda>s. c < s) (xs :: int list)"
proof (induction xs)
  case (Cons x xs)
  then have "c < x \<Longrightarrow> filter (\<lambda>s. c < s) xs = xs" by (auto simp: filter_id_conv)
  with Cons show ?case by simp
qed simp

lemma split_sorted: "sorted xs \<Longrightarrow> filter (\<lambda>s. \<not> c < s) xs @ filter (\<lambda>s. c < s) xs = (xs :: int list)"
proof (induction xs)
  case (Cons x xs)
  then have "c < x \<Longrightarrow> filter (\<lambda>s. c < s) xs = xs \<and> filter (\<lambda>s. \<not> c < s) xs = []"
    by (auto simp: filter_id_conv filter_empty_conv)
  with Cons show ?case by auto
qed simp

lemma tracked_later: "tracked w now0 e ts \<Longrightarrow> now0 \<le> now \<Longrightarrow> tracked w now e ts"
  by (auto simp: tracked_def split: option.splits)

lemma tracked_le: "tracked w now e ts \<Longrightarrow> x \<in> set ts \<Longrightarrow> x \<le> now"
  by (force simp: tracked_def split: option.splits)

lemma tracked_add:
  assumes "tracked w now e ts"
  shows "tracked w now (Some (in_window w now ts @ [now], now)) (ts @ [now])"
proof -
  have "ts = filter (\<lambda>s. \<not> now - w < s) ts @ in_window w now ts"
    using assms split_sorted [of ts "now - w"] by (simp add: tracked_def in_window_def)
  moreover have "\<forall>x \<in> set (filter (\<lambda>s. \<not> now - w < s) ts). x \<le> now - w" by auto
  ultimately have "\<exists>old. ts @ [now] = old @ (in_window w now ts @ [now]) \<and> (\<forall>x \<in> set old. x \<le> now - w)"
    by (metis append_assoc)
  then show ?thesis
    using assms tracked_le [OF assms] by (auto simp: tracked_def sorted_append)
qed

lemma tracked_window:
  assumes "0 \<le> w" "tracked w now0 e ts" "now0 \<le> now"
  shows "dropWhile (\<lambda>s. \<not> s > now - w)
     (case e of None \<Rightarrow> [] | Some (v, t) \<Rightarrow> if now > t + w * 2 then [] else v) = in_window w now ts"
proof (cases e)
  case None
  with assms show ?thesis by (simp add: tracked_def in_window_def)
next
  case (Some p)
  obtain v t where p: "p = (v, t)" by force
  with assms Some obtain old where h: "t \<le> now0" "\<forall>x \<in> set ts. x \<le> t" "ts = old @ v"
      "\<forall>x \<in> set old. x \<le> t - w" "sorted ts"
    by (auto simp: tracked_def)
  show ?thesis
  proof (cases "now > t + w * 2")
    case True
    with h(2) assms(1) have "\<forall>x \<in> set ts. \<not> now - w < x" by force
    with True show ?thesis by (simp add: Some p in_window_def)
  next
    case False
    have "sorted v" using h(3,5) by (simp add: sorted_append)
    moreover have "filter (\<lambda>x. now - w < x) old = []"
      using h(1,4) assms(3) by (force simp: filter_empty_conv)
    ultimately show ?thesis
      using False by (simp add: Some p h(3) in_window_def dropWhile_sorted)
  qed
qed

lemma lru_Get_law:
  assumes "lru_law c" "lru_unbounded c l" "lru_Get c now k l = (l', r)"
  shows "lru_held c l' = lru_held c l" "lru_life c l' = lru_life c l" "lru_unbounded c l'"
    "r = (case lru_held c l k of None \<Rightarrow> None | Some (v, t) \<Rightarrow> if now > t + lru_life c l then None else Some v)"
proof -
  have "let (l', r) = lru_Get c now k l in
      lru_held c l' = lru_held c l \<and> lru_life c l' = lru_life c l \<and> lru_unbounded c l' \<and>
      r = (case lru_held c l k of None \<Rightarrow> None | Some (v, t) \<Rightarrow> if now > t + lru_life c l then None else Some v)"
    using assms(1,2) unfolding lru_law_def by blast
  with assms(3) show "lru_held c l' = lru_held c l" "lru_life c l' = lru_life c l" "lru_unbounded c l'"
    "r = (case lru_held c l k of None \<Rightarrow> None | Some (v, t) \<Rightarrow> if now > t + lru_life c l then None else Some v)"
    by simp_all
qed

lemma lru_Add_law:
  assumes "lru_law c" "lru_unbounded c l"
  shows "lru_held c (lru_Add c now k v l) = (lru_held c l)(k \<mapsto> (v, now))"
    "lru_life c (lru_Add c now k v l) = lru_life c l" "lru_unbounded c (lru_Add c now k v l)"
  using assms unfolding lru_law_def by blast+

lemma Allow_step:
  assumes "lru_law c" "0 \<le> rl_window rl" "tracks c now0 rl adm" "now0 \<le> now"
  shows "\<exists>rl' adm' r. Allow c now key rl = (rl', r) \<and>
     window_allow (rl_quota rl) (rl_window rl) now key adm = (adm', r) \<and>
     rl_quota rl' = rl_quota rl \<and> rl_window rl' = rl_window rl \<and> tracks c now rl' adm'"
proof -
  obtain l found where g: "lru_Get c now key (rl_lru rl) = (l, found)" by force
  have t: "lru_unbounded c (rl_lru rl)" "lru_life c (rl_lru rl) = rl_window rl * 2"
      "\<And>k. tracked (rl_window rl) now0 (lru_held c (rl_lru rl) k) (adm k)"
    using assms(3) by (simp_all add: tracks_def)
  note l = lru_Get_law [OF assms(1) t(1) g]
  have "(case found of None \<Rightarrow> [] | Some s \<Rightarrow> s) = (case lru_held c (rl_lru rl) key of
      None \<Rightarrow> [] | Some (v, t) \<Rightarrow> if now > t + rl_window rl * 2 then [] else v)"
    by (simp add: l(4) t(2) split: option.splits)
  with tracked_window [OF assms(2) t(3) [of key] assms(4)]
  have w: "dropWhile (\<lambda>s. \<not> s > now - rl_window rl) (case found of None \<Rightarrow> [] | Some s \<Rightarrow> s) =
      in_window (rl_window rl) now (adm key)"
    by simp
  note later = tracked_later [OF t(3) assms(4)]
  show ?thesis
  proof (cases "int (length (in_window (rl_window rl) now (adm key))) \<ge> rl_quota rl")
    case True
    then have "Allow c now key rl = (rl\<lparr>rl_lru := l\<rparr>, False)"
        "window_allow (rl_quota rl) (rl_window rl) now key adm = (adm, False)"
      by (simp_all add: Allow_def g Let_def w window_allow_def)
    moreover have "tracks c now (rl\<lparr>rl_lru := l\<rparr>) adm"
      by (simp add: tracks_def l(1-3) t(1,2) later)
    ultimately show ?thesis by auto
  next
    case False
    let ?rl = "rl\<lparr>rl_lru := lru_Add c now key (in_window (rl_window rl) now (adm key) @ [now]) l\<rparr>"
    from False have "Allow c now key rl = (?rl, True)"
        "window_allow (rl_quota rl) (rl_window rl) now key adm = (adm(key := adm key @ [now]), True)"
      by (simp_all add: Allow_def g Let_def w window_allow_def)
    moreover have "tracks c now ?rl (adm(key := adm key @ [now]))"
      by (simp add: tracks_def lru_Add_law [OF assms(1) l(3)] l(1-3) t(1,2) later tracked_add [OF later])
    ultimately show ?thesis by auto
  qed
qed

lemma allow_all_window:
  assumes "lru_law c" "0 \<le> rl_window rl" "tracks c now0 rl adm" "sorted (now0 # map fst calls)"
  shows "snd (allow_all c rl calls) = snd (window_all (rl_quota rl) (rl_window rl) adm calls)"
  using assms(2-)
proof (induction calls arbitrary: rl adm now0)
  case (Cons x calls)
  obtain now key where x: "x = (now, key)" by force
  from Cons.prems x have le: "now0 \<le> now" and s: "sorted (now # map fst calls)" by simp_all
  obtain rl' adm' r where st: "Allow c now key rl = (rl', r)"
      "window_allow (rl_quota rl) (rl_window rl) now key adm = (adm', r)"
      "rl_quota rl' = rl_quota rl" "rl_window rl' = rl_window rl" "tracks c now rl' adm'"
    using Allow_step [OF assms(1) Cons.prems(1,2) le] by blast
  with Cons.IH [OF _ st(5) s] Cons.prems(1) show ?case
    by (simp add: x case_prod_beta)
qed simp

lemma tracks_New: "lru_law c \<Longrightarrow> 0 < window \<Longrightarrow> tracks c now (ratelimit_New c quota window 0) (\<lambda>_. [])"
  by (simp add: tracks_def ratelimit_New_def lru_law_def tracked_def)

text \<open>C18. The limiter, which keeps per address only the time stamps of a cache entry that expires,
  answers every sequence of calls with a clock that does not go back exactly as the sliding window
  that remembers every admission: a call is refused if and only if the address already has \<open>quota\<close>
  admissions in the window. This is the configuration without capacity limit (\<^verbatim>\<open>max_entries\<close> 0); with
  a limit the cache may forget an address.\<close>

theorem limiter_is_sliding_window:
  assumes "lru_law c" "0 < window" "sorted (map fst calls)"
  shows "snd (allow_all c (ratelimit_New c quota window 0) calls) = snd (window_all quota window (\<lambda>_. []) calls)"
proof (cases calls)
  case (Cons x xs)
  have "tracks c (fst x) (ratelimit_New c quota window 0) (\<lambda>_. [])" by (rule tracks_New [OF assms(1,2)])
  from allow_all_window [OF assms(1) _ this, of calls] assms(2,3) Cons show ?thesis
    by (simp add: ratelimit_New_def)
qed simp

text \<open>An unbounded expiring cache: a list of entries, newest first.\<close>

definition demo_lru :: "((bytes \<times> gotime list \<times> gotime) list \<times> duration) lru" where
  "demo_lru = \<lparr>
     lru_New = \<lambda>_ d. ([], d),
     lru_Get = \<lambda>now k (es, d). ((es, d), case map_of es k of None \<Rightarrow> None | Some (v, t) \<Rightarrow> if now > t + d then None else Some v),
     lru_Add = \<lambda>now k v (es, d). ((k, v, now) # es, d),
     lru_held = \<lambda>(es, d). map_of es,
     lru_life = snd,
     lru_unbounded = \<lambda>_. True\<rparr>"

lemma demo_lru_law: "lru_law demo_lru"
  by (auto simp: lru_law_def demo_lru_def split: option.splits)

text \<open>Two calls in ten seconds: the third one is refused, and admitted again once the first has left
  the window.\<close>

theorem limiter_is_sliding_window_witness:
  "snd (allow_all demo_lru (ratelimit_New demo_lru 2 10 0) [(0, [1]), (1, [1]), (2, [1]), (2, [9]), (10, [1])]) =
     snd (window_all 2 10 (\<lambda>_. []) [(0, [1]), (1, [1]), (2, [1]), (2, [9]), (10, [1])]) \<and>
   snd (window_all 2 10 (\<lambda>_. []) [(0, [1]), (1, [1]), (2, [1]), (2, [9]), (10, [1])]) = [True, True, False, True, True]"
proof
  show "snd (allow_all demo_lru (ratelimit_New demo_lru 2 10 0) [(0, [1]), (1, [1]), (2, [1]), (2, [9]), (10, [1])]) =
     snd (window_all 2 10 (\<lambda>_. []) [(0, [1]), (1, [1]), (2, [1]), (2, [9]), (10, [1])])"
    by (rule limiter_is_sliding_window [OF demo_lru_law]) simp_all
qed (simp add: window_allow_def in_window_def)

end
