(* ===== verification/Relay.thy ===== *)
theory Relay
  imports Tokens Ratelimit "HOL-Library.AList"
begin

text \<open>
  The relay server: its table of sessions (cmd/relay/internal/services/session.go), the hub
  (services/hub.go) and the connection handler (\<^verbatim>\<open>handleRelayConn\<close> of handlers/ws_handler.go). A
  connection is known by the identity of its encrypted channel; Tunnel has the channel itself. How a
  connection gets to the handler is the subject of Admission. The handlers run
  concurrently: every call that reads, writes or takes the table's lock is a step of its own, and
  the runs of the relay are all interleavings of these steps.
\<close>

subsection \<open>Frames\<close>

text \<open>\<^verbatim>\<open>pb.Frame\<close>: one of its kinds, or none.\<close>

type_synonym register_mode = int

definition MODE_UNSPECIFIED :: register_mode where "MODE_UNSPECIFIED = 0"
definition MODE_CREATE :: register_mode where "MODE_CREATE = 1"
definition MODE_JOIN :: register_mode where "MODE_JOIN = 2"

datatype relay_frame =
    Register bytes register_mode
  | Registered bytes "32 word" "32 word"
  | Msg bytes
  | Ping
  | Pong
  | Auth bytes
  | NoKind

definition relay_frame_ok :: "relay_frame \<Rightarrow> bool" where
  "relay_frame_ok f = (case f of Register t m \<Rightarrow> - (2 ^ 31) \<le> m \<and> m < 2 ^ 31 | _ \<Rightarrow> True)"

subsection \<open>The table of sessions\<close>

type_synonym chan = nat

record relay_session =
  rs_listener :: chan
  rs_dialer :: "chan option"
  rs_expiry :: gotime
  rs_sessionExpiry :: gotime

datatype relay_error =
    ErrSessionFull | ErrTokenNotFound | ErrTokenConsumed | ErrPeerNotFound | ErrSessionExpired | ErrTokenInUse
  | ErrUserToken token_error

record session_manager =
  sm_sessions :: "(bytes \<times> relay_session) list"
  sm_ttl :: duration
  sm_sessionTTL :: duration
  sm_maxConns :: int

definition NewSessionManager :: "duration \<Rightarrow> int \<Rightarrow> duration \<Rightarrow> session_manager" where
  "NewSessionManager ttl maxConns sessionTTL =
     \<lparr>sm_sessions = [], sm_ttl = ttl, sm_sessionTTL = sessionTTL, sm_maxConns = maxConns\<rparr>"

text \<open>\<^verbatim>\<open>fmt.Sprintf("%x", token)\<close>.\<close>

definition hex_key :: "bytes \<Rightarrow> bytes" where
  "hex_key token = concat (map (\<lambda>b.
     [lit ''0123456789abcdef'' ! (unat b div 16), lit ''0123456789abcdef'' ! (unat b mod 16)]) token)"

text \<open>The operations give the table, the channels they close, and their result.\<close>

definition lapsed :: "gotime \<Rightarrow> relay_session \<Rightarrow> bool" where
  "lapsed now s =
     (case rs_dialer s of
        None \<Rightarrow> now > rs_expiry s
      | Some _ \<Rightarrow> rs_sessionExpiry s \<noteq> zero_time \<and> now > rs_sessionExpiry s)"

definition session_channels :: "relay_session \<Rightarrow> chan list" where
  "session_channels s = rs_listener s # (case rs_dialer s of None \<Rightarrow> [] | Some d \<Rightarrow> [d])"

definition purgeExpired :: "gotime \<Rightarrow> session_manager \<Rightarrow> session_manager \<times> chan list" where
  "purgeExpired now sm =
     (sm\<lparr>sm_sessions := filter (\<lambda>(k, s). \<not> lapsed now s) (sm_sessions sm)\<rparr>,
      concat (map (\<lambda>(k, s). session_channels s) (filter (\<lambda>(k, s). lapsed now s) (sm_sessions sm))))"

definition Len :: "session_manager \<Rightarrow> nat" where
  "Len sm = length (sm_sessions sm)"

text \<open>The first clock reading is that of the purge, the second that of the new entry.\<close>

definition Create ::
  "gotime \<Rightarrow> gotime \<Rightarrow> bytes \<Rightarrow> chan \<Rightarrow> session_manager \<Rightarrow> session_manager \<times> chan list \<times> (relay_error + bytes)" where
  "Create now now' token listener sm =
     (let (sm, shut) = purgeExpired now sm in
      if int (Len sm) \<ge> sm_maxConns sm then (sm, shut, Inl ErrSessionFull)
      else (sm\<lparr>sm_sessions := AList.update (hex_key token)
              \<lparr>rs_listener = listener, rs_dialer = None, rs_expiry = now' + sm_ttl sm, rs_sessionExpiry = zero_time\<rparr>
              (sm_sessions sm)\<rparr>, shut, Inr token))"

definition CreateWith ::
  "gotime \<Rightarrow> gotime \<Rightarrow> chan \<Rightarrow> bytes \<Rightarrow> session_manager \<Rightarrow> session_manager \<times> chan list \<times> (relay_error + unit)" where
  "CreateWith now now' listener token sm =
     (case ValidateUserToken token of
        Inl e \<Rightarrow> (sm, [], Inl (ErrUserToken e))
      | Inr _ \<Rightarrow>
          (let (sm, shut) = purgeExpired now sm in
           if int (Len sm) \<ge> sm_maxConns sm then (sm, shut, Inl ErrSessionFull)
           else if map_of (sm_sessions sm) (hex_key token) \<noteq> None then (sm, shut, Inl ErrTokenInUse)
           else (sm\<lparr>sm_sessions := AList.update (hex_key token)
                   \<lparr>rs_listener = listener, rs_dialer = None, rs_expiry = now' + sm_ttl sm, rs_sessionExpiry = zero_time\<rparr>
                   (sm_sessions sm)\<rparr>, shut, Inr ())))"

definition Join :: "gotime \<Rightarrow> gotime \<Rightarrow> bytes \<Rightarrow> chan \<Rightarrow> session_manager \<Rightarrow> session_manager \<times> (relay_error + unit)" where
  "Join now now' token dialer sm =
     (let key = hex_key token in
      case map_of (sm_sessions sm) key of
        None \<Rightarrow> (sm, Inl ErrTokenNotFound)
      | Some sess \<Rightarrow>
          if now > rs_expiry sess then (sm\<lparr>sm_sessions := AList.delete key (sm_sessions sm)\<rparr>, Inl ErrSessionExpired)
          else if rs_dialer sess \<noteq> None then (sm, Inl ErrTokenConsumed)
          else let sess' = sess\<lparr>rs_dialer := Some dialer\<rparr>;
                   sess'' = (if sm_sessionTTL sm > 0 then sess'\<lparr>rs_sessionExpiry := now' + sm_sessionTTL sm\<rparr> else sess')
               in (sm\<lparr>sm_sessions := AList.update key sess'' (sm_sessions sm)\<rparr>, Inr ()))"

definition Recipient :: "bytes \<Rightarrow> chan \<Rightarrow> session_manager \<Rightarrow> relay_error + chan" where
  "Recipient token ch sm =
     (case map_of (sm_sessions sm) (hex_key token) of
        None \<Rightarrow> Inl ErrTokenNotFound
      | Some sess \<Rightarrow>
          if ch = rs_listener sess
          then (case rs_dialer sess of None \<Rightarrow> Inl ErrPeerNotFound | Some d \<Rightarrow> Inr d)
          else if Some ch = rs_dialer sess then Inr (rs_listener sess)
          else Inl ErrPeerNotFound)"

definition ClosePeerChannel :: "bytes \<Rightarrow> chan \<Rightarrow> session_manager \<Rightarrow> chan list" where
  "ClosePeerChannel token shut sm =
     (case map_of (sm_sessions sm) (hex_key token) of
        None \<Rightarrow> []
      | Some sess \<Rightarrow>
          if shut = rs_listener sess then (case rs_dialer sess of None \<Rightarrow> [] | Some d \<Rightarrow> [d])
          else if Some shut = rs_dialer sess then [rs_listener sess]
          else [])"

definition sm_Remove :: "bytes \<Rightarrow> session_manager \<Rightarrow> session_manager" where
  "sm_Remove token sm = sm\<lparr>sm_sessions := AList.delete (hex_key token) (sm_sessions sm)\<rparr>"

subsection \<open>The hub\<close>

record 'l hub =
  hub_sessions :: session_manager
  hub_password :: bytes
  hub_maxMsgSize :: int
  hub_rateLimiter :: "'l rate_limiter option"
  hub_handshakeTimeout :: duration

definition NewHub ::
  "session_manager \<Rightarrow> bytes \<Rightarrow> int \<Rightarrow> 'l rate_limiter option \<Rightarrow> duration \<Rightarrow> 'l hub" where
  "NewHub sessions password maxMsgSize rateLimiter handshakeTimeout =
     \<lparr>hub_sessions = sessions, hub_password = password, hub_maxMsgSize = maxMsgSize,
      hub_rateLimiter = rateLimiter, hub_handshakeTimeout = handshakeTimeout\<rparr>"

text \<open>\<^verbatim>\<open>uint32(d.Seconds())\<close>.\<close>

definition ttl_seconds :: "duration \<Rightarrow> 32 word" where
  "ttl_seconds d = of_int (d div second)"

subsection \<open>The connection handler\<close>

text \<open>Where a handler stands, between two of its steps.\<close>

datatype phase =
    Greeting
  | Acking
  | Authenticated
  | Replying bytes "32 word" "32 word"
  | Pumping
  | Forwarding chan bytes
  | Ponging
  | Closing
  | Leaving
  | Finished

text \<open>\<open>h_token\<close> is the local \<^verbatim>\<open>sentToken\<close> once the registration has set it.\<close>

record handler =
  h_phase :: phase
  h_token :: "bytes option"

text \<open>The state of the relay: the hub, the handlers, the channels that have been closed, and every
  frame written so far with the handler that wrote it and the channel it went to.\<close>

record 'l relay =
  r_hub :: "'l hub"
  r_handlers :: "chan \<Rightarrow> handler option"
  r_closed :: "chan set"
  r_sent :: "(chan \<times> chan \<times> relay_frame) list"

definition relay_start :: "'l hub \<Rightarrow> 'l relay" where
  "relay_start hub = \<lparr>r_hub = hub, r_handlers = \<lambda>_. None, r_closed = {}, r_sent = []\<rparr>"

definition set_phase :: "chan \<Rightarrow> phase \<Rightarrow> 'l relay \<Rightarrow> 'l relay" where
  "set_phase ch p r =
     (case r_handlers r ch of
        None \<Rightarrow> r
      | Some h \<Rightarrow> r\<lparr>r_handlers := (r_handlers r)(ch \<mapsto> h\<lparr>h_phase := p\<rparr>)\<rparr>)"

definition close_chans :: "chan list \<Rightarrow> 'l relay \<Rightarrow> 'l relay" where
  "close_chans chs r = r\<lparr>r_closed := r_closed r \<union> set chs\<rparr>"

text \<open>A return of \<^verbatim>\<open>handleRelayConn\<close>: the deferred function closes the channel.\<close>

definition finish :: "chan \<Rightarrow> 'l relay \<Rightarrow> 'l relay" where
  "finish ch r = close_chans [ch] (set_phase ch Finished r)"

definition set_sessions :: "session_manager \<Rightarrow> 'l relay \<Rightarrow> 'l relay" where
  "set_sessions sm r = r\<lparr>r_hub := (r_hub r)\<lparr>hub_sessions := sm\<rparr>\<rparr>"

text \<open>A write succeeds only on a channel that is not closed.\<close>

definition write_frame :: "chan \<Rightarrow> chan \<Rightarrow> relay_frame \<Rightarrow> bool \<Rightarrow> 'l relay \<Rightarrow> 'l relay \<times> bool" where
  "write_frame writer ch f ok r =
     (if ok \<and> ch \<notin> r_closed r then (r\<lparr>r_sent := r_sent r @ [(writer, ch, f)]\<rparr>, True) else (r, False))"

text \<open>The registration: the second half of the handler's protocol, from the \<^verbatim>\<open>Register\<close> frame to the
  reply it prepares.\<close>

definition register_reply :: "bytes \<Rightarrow> 32 word \<Rightarrow> chan \<Rightarrow> 'l relay \<Rightarrow> 'l relay" where
  "register_reply sentToken ttlSeconds ch r =
     r\<lparr>r_handlers := (r_handlers r)(ch \<mapsto>
        \<lparr>h_phase = Replying sentToken ttlSeconds (ttl_seconds (sm_sessionTTL (hub_sessions (r_hub r)))),
         h_token = Some sentToken\<rparr>)\<rparr>"

definition handle_register :: "gotime \<Rightarrow> gotime \<Rightarrow> bytes \<Rightarrow> chan \<Rightarrow> relay_frame option \<Rightarrow> 'l relay \<Rightarrow> 'l relay" where
  "handle_register now now' rnd ch frame r =
     (let sm = hub_sessions (r_hub r) in
      case frame of
        Some (Register token mode) \<Rightarrow>
          if mode = MODE_CREATE then
            (if token = [] then
               (case Create now now' rnd ch sm of
                  (sm', shut, Inl _) \<Rightarrow> finish ch (close_chans shut (set_sessions sm' r))
                | (sm', shut, Inr sentToken) \<Rightarrow>
                    register_reply sentToken (ttl_seconds (sm_ttl sm)) ch (close_chans shut (set_sessions sm' r)))
             else
               (case CreateWith now now' ch token sm of
                  (sm', shut, Inl _) \<Rightarrow> finish ch (close_chans shut (set_sessions sm' r))
                | (sm', shut, Inr _) \<Rightarrow>
                    register_reply token (ttl_seconds (sm_ttl sm)) ch (close_chans shut (set_sessions sm' r))))
          else if mode = MODE_JOIN then
            (if token = [] then finish ch r
             else
               (case Join now now' token ch sm of
                  (sm', Inl _) \<Rightarrow> finish ch (set_sessions sm' r)
                | (sm', Inr _) \<Rightarrow> register_reply token 0 ch (set_sessions sm' r)))
          else finish ch r
      | _ \<Rightarrow> finish ch r)"

text \<open>The first frame: the password when there is one, otherwise the registration already.\<close>

definition handle_first :: "gotime \<Rightarrow> gotime \<Rightarrow> bytes \<Rightarrow> chan \<Rightarrow> relay_frame option \<Rightarrow> 'l relay \<Rightarrow> 'l relay" where
  "handle_first now now' rnd ch frame r =
     (let password = hub_password (r_hub r) in
      case frame of
        None \<Rightarrow> finish ch r
      | Some (Auth psk) \<Rightarrow>
          if password = [] then finish ch r
          else if psk \<noteq> password then finish ch r
          else set_phase ch Acking r
      | Some f \<Rightarrow> if password \<noteq> [] then finish ch r else handle_register now now' rnd ch (Some f) r)"

text \<open>One turn of \<^verbatim>\<open>ReadPump\<close> with the frame it read; a message waits for its write in \<open>Forwarding\<close>.\<close>

definition pump :: "chan \<Rightarrow> bytes \<Rightarrow> relay_frame option \<Rightarrow> 'l relay \<Rightarrow> 'l relay" where
  "pump ch token frame r =
     (case frame of
        Some (Msg d) \<Rightarrow>
          (case Recipient token ch (hub_sessions (r_hub r)) of
             Inl _ \<Rightarrow> r
           | Inr peer \<Rightarrow> set_phase ch (Forwarding peer d) r)
      | Some Ping \<Rightarrow> set_phase ch Ponging r
      | _ \<Rightarrow> r)"

text \<open>What the scheduler and the network decide: a connection arrives and its key exchange succeeds;
  a handler's read returns, or fails; a handler takes its next step, and whether the write in it
  succeeds; the clean-up loop ticks. A read comes with the clock readings and the random token that a
  registration uses.\<close>

datatype relay_event =
    Arrive chan
  | Reads chan bytes gotime gotime bytes
  | ReadFails chan
  | Steps chan bool
  | Tick gotime

definition on_read :: "relay_frame codec \<Rightarrow> chan \<Rightarrow> bytes \<Rightarrow> gotime \<Rightarrow> gotime \<Rightarrow> bytes \<Rightarrow> handler \<Rightarrow> 'l relay \<Rightarrow> 'l relay" where
  "on_read fc ch data now now' rnd h r =
     (case (h_phase h, h_token h) of
        (Greeting, _) \<Rightarrow> handle_first now now' rnd ch (dec fc data) r
      | (Authenticated, _) \<Rightarrow> handle_register now now' rnd ch (dec fc data) r
      | (Pumping, Some token) \<Rightarrow> pump ch token (dec fc data) r
      | _ \<Rightarrow> r)"

definition on_step :: "chan \<Rightarrow> bool \<Rightarrow> handler \<Rightarrow> 'l relay \<Rightarrow> 'l relay" where
  "on_step ch ok h r =
     (case h_phase h of
        Acking \<Rightarrow> set_phase ch Authenticated (fst (write_frame ch ch (Auth []) ok r))
      | Replying sentToken ttlSeconds sessionTTLSeconds \<Rightarrow>
          (case write_frame ch ch (Registered sentToken ttlSeconds sessionTTLSeconds) ok r of
             (r', True) \<Rightarrow> set_phase ch Pumping r'
           | (r', False) \<Rightarrow> finish ch r')
      | Forwarding peer d \<Rightarrow>
          (case write_frame ch peer (Msg d) ok r of
             (r', True) \<Rightarrow> set_phase ch Pumping r'
           | (r', False) \<Rightarrow> set_phase ch Pumping (close_chans [ch, peer] r'))
      | Ponging \<Rightarrow> set_phase ch Pumping (fst (write_frame ch ch Pong ok r))
      | Closing \<Rightarrow>
          (case h_token h of
             None \<Rightarrow> r
           | Some token \<Rightarrow> set_phase ch Leaving (close_chans (ClosePeerChannel token ch (hub_sessions (r_hub r))) r))
      | Leaving \<Rightarrow>
          (case h_token h of
             None \<Rightarrow> r
           | Some token \<Rightarrow> finish ch (set_sessions (sm_Remove token (hub_sessions (r_hub r))) r))
      | _ \<Rightarrow> r)"

fun relay_step :: "relay_frame codec \<Rightarrow> 'l relay \<Rightarrow> relay_event \<Rightarrow> 'l relay" where
  "relay_step fc r (Arrive ch) =
     (case r_handlers r ch of
        Some _ \<Rightarrow> r
      | None \<Rightarrow> r\<lparr>r_handlers := (r_handlers r)(ch \<mapsto> \<lparr>h_phase = Greeting, h_token = None\<rparr>)\<rparr>)"
| "relay_step fc r (Reads ch data now now' rnd) =
     (case r_handlers r ch of
        None \<Rightarrow> r
      | Some h \<Rightarrow> if ch \<in> r_closed r then r else on_read fc ch data now now' rnd h r)"
| "relay_step fc r (ReadFails ch) =
     (case r_handlers r ch of
        None \<Rightarrow> r
      | Some h \<Rightarrow>
          (case h_phase h of
             Greeting \<Rightarrow> finish ch r
           | Authenticated \<Rightarrow> finish ch r
           | Pumping \<Rightarrow> set_phase ch Closing r
           | _ \<Rightarrow> r))"
| "relay_step fc r (Steps ch ok) =
     (case r_handlers r ch of None \<Rightarrow> r | Some h \<Rightarrow> on_step ch ok h r)"
| "relay_step fc r (Tick now) =
     (case purgeExpired now (hub_sessions (r_hub r)) of (sm', shut) \<Rightarrow> close_chans shut (set_sessions sm' r))"

definition relay_run :: "relay_frame codec \<Rightarrow> 'l hub \<Rightarrow> relay_event list \<Rightarrow> 'l relay" where
  "relay_run fc hub es = foldl (relay_step fc) (relay_start hub) es"


subsection \<open>Keys of the table\<close>

lemma hex_lower_distinct: "distinct (lit ''0123456789abcdef'')"
  by (simp add: lit_def of_char_def)

lemma hex_nibble:
  "i < 16 \<Longrightarrow> j < 16 \<Longrightarrow> lit ''0123456789abcdef'' ! i = lit ''0123456789abcdef'' ! j \<longleftrightarrow> i = j"
  by (rule nth_eq_iff_index_eq [OF hex_lower_distinct]) simp_all

lemma hex_key_inject: "hex_key a = hex_key b \<longleftrightarrow> a = b"
proof
  show "hex_key a = hex_key b \<Longrightarrow> a = b"
  proof (induction a arbitrary: b)
    case Nil
    then show ?case by (cases b) (simp_all add: hex_key_def)
  next
    case (Cons x xs)
    then obtain y ys where b: "b = y # ys" by (cases b) (auto simp: hex_key_def)
    have "unat z div 16 < 16" "unat z mod 16 < 16" for z :: byte
      using unat_byte [of z] by auto
    with Cons.prems b have "unat x div 16 = unat y div 16" "unat x mod 16 = unat y mod 16" "hex_key xs = hex_key ys"
      by (simp_all add: hex_key_def hex_nibble)
    then have "unat x = unat y" by (metis div_mult_mod_eq)
    then have "x = y" by (rule unsigned_word_eqI)
    with Cons.IH [OF \<open>hex_key xs = hex_key ys\<close>] b show ?case by simp
  qed
qed simp

subsection \<open>The table's invariant\<close>

text \<open>No key twice, and no more sessions than configured.\<close>

definition table_ok :: "session_manager \<Rightarrow> bool" where
  "table_ok sm \<longleftrightarrow> distinct (map fst (sm_sessions sm)) \<and> int (Len sm) \<le> max 0 (sm_maxConns sm)"

text \<open>What an operation leaves alone.\<close>

definition same_limits :: "session_manager \<Rightarrow> session_manager \<Rightarrow> bool" where
  "same_limits sm sm' \<longleftrightarrow> sm_maxConns sm' = sm_maxConns sm \<and> sm_ttl sm' = sm_ttl sm \<and> sm_sessionTTL sm' = sm_sessionTTL sm"

definition entries_within :: "session_manager \<Rightarrow> session_manager \<Rightarrow> bool" where
  "entries_within sm' sm \<longleftrightarrow> (\<forall>k s. map_of (sm_sessions sm') k = Some s \<longrightarrow> map_of (sm_sessions sm) k = Some s)"

text \<open>A registration of \<open>ch\<close> under \<open>key\<close> adds it to one entry: a new one, or one without dialer.\<close>

definition adds_channel :: "bytes \<Rightarrow> chan \<Rightarrow> session_manager \<Rightarrow> session_manager \<Rightarrow> bool" where
  "adds_channel key ch sm sm' \<longleftrightarrow>
     (\<forall>k s. map_of (sm_sessions sm') k = Some s \<longrightarrow>
        map_of (sm_sessions sm) k = Some s \<or>
        k = key \<and> (rs_listener s = ch \<and> rs_dialer s = None \<or>
          rs_dialer s = Some ch \<and> (\<exists>s0. map_of (sm_sessions sm) k = Some s0 \<and> rs_listener s0 = rs_listener s)))"

named_theorems table_defs \<open>definitions of the invariant of the table\<close>

lemmas [table_defs] = table_ok_def same_limits_def entries_within_def adds_channel_def Len_def

lemma length_update_le: "length (AList.update k v al) \<le> Suc (length al)"
  by (induction al) auto

lemma length_update_old: "map_of al k \<noteq> None \<Longrightarrow> length (AList.update k v al) = length al"
  by (induction al) auto

lemma map_of_filter_Some:
  "distinct (map fst al) \<Longrightarrow> map_of (filter P al) k = Some s \<Longrightarrow> map_of al k = Some s"
  by (meson filter_is_subset in_mono map_of_SomeD map_of_is_SomeI)

lemma distinct_fst_filter: "distinct (map fst al) \<Longrightarrow> distinct (map fst (filter P al))"
  by (simp add: distinct_map_filter)

lemma purge_table:
  assumes "table_ok sm" "purgeExpired now sm = (sm', shut)"
  shows "table_ok sm'" "same_limits sm sm'" "entries_within sm' sm"
proof -
  let ?f = "filter (\<lambda>(k, s). \<not> lapsed now s) (sm_sessions sm)"
  have "int (length ?f) \<le> int (length (sm_sessions sm))"
    by (simp only: of_nat_le_iff length_filter_le)
  also have "\<dots> \<le> max 0 (sm_maxConns sm)" using assms(1) by (simp add: table_defs)
  finally have "int (length ?f) \<le> max 0 (sm_maxConns sm)" .
  with assms show "table_ok sm'" "same_limits sm sm'" "entries_within sm' sm"
    by (auto simp: purgeExpired_def table_defs distinct_fst_filter intro: map_of_filter_Some)
qed

lemma insert_table:
  assumes "table_ok sm" "int (Len sm) < sm_maxConns sm"
  shows "table_ok (sm\<lparr>sm_sessions := AList.update k s (sm_sessions sm)\<rparr>)"
  using assms length_update_le [of k s "sm_sessions sm"] by (auto simp: table_defs distinct_update)

lemma Create_table:
  assumes "table_ok sm" "Create now now' token ch sm = (sm', shut, r)"
  shows "table_ok sm'" "same_limits sm sm'"
    "case r of Inl _ \<Rightarrow> entries_within sm' sm | Inr t \<Rightarrow> t = token \<and> adds_channel (hex_key t) ch sm sm'"
proof -
  obtain sm1 sh where p: "purgeExpired now sm = (sm1, sh)" by force
  note p' = purge_table [OF assms(1) p]
  show "table_ok sm'"
    using assms(2) p p'(1) insert_table [OF p'(1)]
    by (auto simp: Create_def Let_def split: if_splits)
  show "same_limits sm sm'"
    using assms(2) p p'(2) by (auto simp: Create_def Let_def same_limits_def split: if_splits)
  show "case r of Inl _ \<Rightarrow> entries_within sm' sm | Inr t \<Rightarrow> t = token \<and> adds_channel (hex_key t) ch sm sm'"
    using assms(2) p p'(3)
    by (auto simp: Create_def Let_def entries_within_def adds_channel_def update_conv' split: if_splits)
qed

lemma CreateWith_table:
  assumes "table_ok sm" "CreateWith now now' ch token sm = (sm', shut, r)"
  shows "table_ok sm'" "same_limits sm sm'"
    "case r of Inl _ \<Rightarrow> entries_within sm' sm | Inr _ \<Rightarrow> adds_channel (hex_key token) ch sm sm'"
proof -
  obtain sm1 sh where p: "purgeExpired now sm = (sm1, sh)" by force
  note p' = purge_table [OF assms(1) p]
  show "table_ok sm'"
    using assms p p'(1) insert_table [OF p'(1)]
    by (auto simp: CreateWith_def Let_def split: if_splits sum.splits)
  show "same_limits sm sm'"
    using assms(2) p p'(2) by (auto simp: CreateWith_def Let_def same_limits_def split: if_splits sum.splits)
  show "case r of Inl _ \<Rightarrow> entries_within sm' sm | Inr _ \<Rightarrow> adds_channel (hex_key token) ch sm sm'"
    using assms(2) p p'(3)
    by (auto simp: CreateWith_def Let_def entries_within_def adds_channel_def update_conv' split: if_splits sum.splits)
qed

lemma Remove_table:
  assumes "table_ok sm"
  shows "table_ok (sm\<lparr>sm_sessions := AList.delete k (sm_sessions sm)\<rparr>)"
    "same_limits sm (sm\<lparr>sm_sessions := AList.delete k (sm_sessions sm)\<rparr>)"
    "entries_within (sm\<lparr>sm_sessions := AList.delete k (sm_sessions sm)\<rparr>) sm"
proof -
  have "length (AList.delete k (sm_sessions sm)) \<le> length (sm_sessions sm)" by (simp add: length_delete_le)
  with assms show "table_ok (sm\<lparr>sm_sessions := AList.delete k (sm_sessions sm)\<rparr>)"
    "same_limits sm (sm\<lparr>sm_sessions := AList.delete k (sm_sessions sm)\<rparr>)"
    "entries_within (sm\<lparr>sm_sessions := AList.delete k (sm_sessions sm)\<rparr>) sm"
    by (auto simp: table_defs distinct_delete delete_conv' restrict_map_def split: if_splits)
qed

lemma Join_cases:
  assumes "Join now now' token ch sm = (sm', r)"
  obtains (refused) e where "r = Inl e" "sm' = sm \<or> sm' = sm\<lparr>sm_sessions := AList.delete (hex_key token) (sm_sessions sm)\<rparr>"
  | (joined) s s' where "r = Inr ()" "map_of (sm_sessions sm) (hex_key token) = Some s" "now \<le> rs_expiry s"
      "rs_dialer s = None" "rs_listener s' = rs_listener s" "rs_dialer s' = Some ch"
      "sm' = sm\<lparr>sm_sessions := AList.update (hex_key token) s' (sm_sessions sm)\<rparr>"
proof (cases "map_of (sm_sessions sm) (hex_key token)")
  case None
  with assms show ?thesis by (intro refused) (auto simp: Join_def)
next
  case (Some s)
  show ?thesis
  proof (cases "now > rs_expiry s \<or> rs_dialer s \<noteq> None")
    case True
    with assms Some show ?thesis
      by (cases "now > rs_expiry s"; intro refused [where e = "if now > rs_expiry s then ErrSessionExpired else ErrTokenConsumed"])
        (simp_all add: Join_def)
  next
    case False
    with assms Some show ?thesis
      by (intro joined [where s = s and s' = "if sm_sessionTTL sm > 0
            then s\<lparr>rs_dialer := Some ch, rs_sessionExpiry := now' + sm_sessionTTL sm\<rparr> else s\<lparr>rs_dialer := Some ch\<rparr>"])
        (auto simp: Join_def Let_def)
  qed
qed

lemma Join_table:
  assumes "table_ok sm" "Join now now' token ch sm = (sm', r)"
  shows "table_ok sm'" "same_limits sm sm'"
    "case r of Inl _ \<Rightarrow> entries_within sm' sm | Inr _ \<Rightarrow> adds_channel (hex_key token) ch sm sm'"
proof -
  have "table_ok sm' \<and> same_limits sm sm' \<and>
      (case r of Inl _ \<Rightarrow> entries_within sm' sm | Inr _ \<Rightarrow> adds_channel (hex_key token) ch sm sm')"
    using assms(2)
  proof (cases rule: Join_cases)
    case (refused e)
    moreover have "same_limits sm sm" "entries_within sm sm" by (simp_all add: table_defs)
    ultimately show ?thesis
      using assms(1) Remove_table [OF assms(1), of "hex_key token"] by (elim disjE) simp_all
  next
    case (joined s s')
    then have "length (AList.update (hex_key token) s' (sm_sessions sm)) = length (sm_sessions sm)"
      by (simp add: length_update_old)
    with joined assms(1) show ?thesis
      by (auto simp: table_defs distinct_update update_conv')
  qed
  then show "table_ok sm'" "same_limits sm sm'"
    "case r of Inl _ \<Rightarrow> entries_within sm' sm | Inr _ \<Rightarrow> adds_channel (hex_key token) ch sm sm'" by simp_all
qed

subsection \<open>The relay's invariant\<close>

definition token_of :: "'l relay \<Rightarrow> chan \<Rightarrow> bytes option" where
  "token_of r ch = (case r_handlers r ch of None \<Rightarrow> None | Some h \<Rightarrow> h_token h)"

definition phase_of :: "'l relay \<Rightarrow> chan \<Rightarrow> phase option" where
  "phase_of r ch = map_option h_phase (r_handlers r ch)"

abbreviation relay_table :: "'l relay \<Rightarrow> session_manager" where
  "relay_table r \<equiv> hub_sessions (r_hub r)"

text \<open>Two different channels that registered with the same token.\<close>

definition partners :: "'l relay \<Rightarrow> chan \<Rightarrow> chan \<Rightarrow> bool" where
  "partners r a b \<longleftrightarrow> a \<noteq> b \<and> (\<exists>t. token_of r a = Some t \<and> token_of r b = Some t)"

definition unregistered_phase :: "phase \<Rightarrow> bool" where
  "unregistered_phase p \<longleftrightarrow> p = Greeting \<or> p = Acking \<or> p = Authenticated"

definition members_ok :: "'l relay \<Rightarrow> session_manager \<Rightarrow> bool" where
  "members_ok r sm \<longleftrightarrow>
     (\<forall>k s. map_of (sm_sessions sm) k = Some s \<longrightarrow>
        rs_dialer s \<noteq> Some (rs_listener s) \<and>
        (\<forall>ch \<in> set (session_channels s). \<exists>t. token_of r ch = Some t \<and> hex_key t = k))"

definition phases_ok :: "'l relay \<Rightarrow> bool" where
  "phases_ok r \<longleftrightarrow>
     (\<forall>ch p. phase_of r ch = Some p \<longrightarrow> (unregistered_phase p \<longrightarrow> token_of r ch = None) \<and>
        (\<forall>peer d. p = Forwarding peer d \<longrightarrow> partners r ch peer))"

definition sent_ok :: "'l relay \<Rightarrow> bool" where
  "sent_ok r \<longleftrightarrow> (\<forall>w ch d. (w, ch, Msg d) \<in> set (r_sent r) \<longrightarrow> partners r w ch)"

definition sane :: "'l relay \<Rightarrow> bool" where
  "sane r \<longleftrightarrow> table_ok (relay_table r) \<and> members_ok r (relay_table r) \<and> phases_ok r \<and> sent_ok r"

named_theorems relay_simps \<open>how the primitive changes act on the parts of the state\<close>

lemma relay_changes [simp]:
  "r_hub (set_phase ch p r) = r_hub r" "r_hub (close_chans chs r) = r_hub r" "r_hub (finish ch r) = r_hub r"
  "relay_table (set_sessions sm r) = sm" "hub_password (r_hub (set_sessions sm r)) = hub_password (r_hub r)"
  "token_of (set_phase ch p r) = token_of r" "token_of (close_chans chs r) = token_of r"
  "token_of (finish ch r) = token_of r" "token_of (set_sessions sm r) = token_of r"
  "phase_of (close_chans chs r) = phase_of r" "phase_of (set_sessions sm r) = phase_of r"
  "r_sent (set_phase ch p r) = r_sent r" "r_sent (close_chans chs r) = r_sent r" "r_sent (finish ch r) = r_sent r"
  "r_sent (set_sessions sm r) = r_sent r"
  "r_handlers (close_chans chs r) = r_handlers r" "r_handlers (set_sessions sm r) = r_handlers r"
  by (auto simp: set_phase_def close_chans_def finish_def set_sessions_def token_of_def phase_of_def
      split: option.splits)

lemma phase_of_set_phase:
  "phase_of (set_phase ch p r) c = (if c = ch \<and> r_handlers r ch \<noteq> None then Some p else phase_of r c)"
  by (auto simp: phase_of_def set_phase_def split: option.splits)

lemma partners_cong: "token_of r = token_of r' \<Longrightarrow> partners r = partners r'"
  by (simp add: partners_def fun_eq_iff)

lemma members_cong: "token_of r = token_of r' \<Longrightarrow> members_ok r sm = members_ok r' sm"
  by (simp add: members_ok_def)

lemma sane_set_phase:
  assumes "sane r" "unregistered_phase p \<Longrightarrow> token_of r ch = None" "\<And>peer d. p = Forwarding peer d \<Longrightarrow> partners r ch peer"
  shows "sane (set_phase ch p r)"
proof -
  have [simp]: "partners (set_phase ch p r) = partners r" by (rule partners_cong) simp
  have "members_ok (set_phase ch p r) = members_ok r" by (simp add: members_ok_def fun_eq_iff)
  with assms show ?thesis
    by (auto simp: sane_def phases_ok_def sent_ok_def phase_of_set_phase)
qed

lemma sane_close [simp]: "sane (close_chans chs r) = sane r"
proof -
  have [simp]: "partners (close_chans chs r) = partners r" by (rule partners_cong) simp
  show ?thesis by (simp add: sane_def phases_ok_def sent_ok_def members_ok_def)
qed

lemma sane_finish: "sane r \<Longrightarrow> sane (finish ch r)"
  unfolding finish_def sane_close by (rule sane_set_phase) (auto simp: unregistered_phase_def)

lemma sane_sessions:
  assumes "sane r" "table_ok sm" "entries_within sm (relay_table r)"
  shows "sane (set_sessions sm r)"
proof -
  have [simp]: "partners (set_sessions sm r) = partners r" by (rule partners_cong) simp
  show ?thesis
    using assms by (auto simp: sane_def phases_ok_def sent_ok_def members_ok_def entries_within_def)
qed

lemma write_frame_changes [simp]:
  "r_hub (fst (write_frame w ch f ok r)) = r_hub r" "token_of (fst (write_frame w ch f ok r)) = token_of r"
  "phase_of (fst (write_frame w ch f ok r)) = phase_of r" "r_handlers (fst (write_frame w ch f ok r)) = r_handlers r"
  by (simp_all add: write_frame_def token_of_def phase_of_def fun_eq_iff)

lemma sane_write:
  assumes "sane r" "\<And>d. f = Msg d \<Longrightarrow> partners r w ch"
  shows "sane (fst (write_frame w ch f ok r))"
proof -
  have [simp]: "partners (fst (write_frame w ch f ok r)) = partners r" by (rule partners_cong) simp
  have "set (r_sent (fst (write_frame w ch f ok r))) \<subseteq> insert (w, ch, f) (set (r_sent r))"
    by (auto simp: write_frame_def)
  then have "sent_ok (fst (write_frame w ch f ok r))"
    using assms unfolding sane_def sent_ok_def by fastforce
  with assms(1) show ?thesis
    by (simp add: sane_def phases_ok_def members_ok_def)
qed

lemma sane_register:
  assumes "sane r" "token_of r ch = None" "table_ok sm" "adds_channel (hex_key t) ch (relay_table r) sm"
  shows "sane (register_reply t ttl ch (close_chans shut (set_sessions sm r)))" (is "sane ?r")
proof -
  have tok: "token_of ?r c = (if c = ch then Some t else token_of r c)" for c
    by (simp add: register_reply_def token_of_def close_chans_def set_sessions_def)
  have ph: "phase_of ?r c = Some p \<Longrightarrow> c \<noteq> ch \<and> phase_of r c = Some p \<or> c = ch \<and> (\<exists>x y z. p = Replying x y z)" for c p
    by (auto simp: register_reply_def phase_of_def close_chans_def set_sessions_def split: if_splits)
  have keep: "token_of r c = Some x \<Longrightarrow> token_of ?r c = Some x" for c x
    using assms(2) by (auto simp: tok)
  have part: "partners r a b \<Longrightarrow> partners ?r a b" for a b
    unfolding partners_def using keep by blast
  have mem: "rs_dialer s \<noteq> Some (rs_listener s) \<and>
      (\<forall>c \<in> set (session_channels s). \<exists>x. token_of ?r c = Some x \<and> hex_key x = k)"
    if "map_of (sm_sessions sm) k = Some s" for k s
  proof -
    have old: "rs_dialer s \<noteq> Some (rs_listener s) \<and>
        (\<forall>c \<in> set (session_channels s). \<exists>x. token_of r c = Some x \<and> hex_key x = k)"
      if "map_of (sm_sessions (relay_table r)) k = Some s" for s
      using assms(1) that unfolding sane_def members_ok_def by blast
    from assms(4) [unfolded adds_channel_def, rule_format, OF that] consider "map_of (sm_sessions (relay_table r)) k = Some s"
      | "k = hex_key t" "rs_listener s = ch" "rs_dialer s = None"
      | s0 where "k = hex_key t" "rs_dialer s = Some ch" "map_of (sm_sessions (relay_table r)) k = Some s0"
          "rs_listener s0 = rs_listener s"
      by metis
    then show ?thesis
    proof cases
      case 1
      with old keep show ?thesis by blast
    next
      case 2
      then show ?thesis by (simp add: session_channels_def tok)
    next
      case 3
      have "rs_listener s0 \<in> set (session_channels s0)" by (simp add: session_channels_def)
      with old [OF 3(3)] obtain x where "token_of r (rs_listener s) = Some x" "hex_key x = k"
        using 3(4) by auto
      with 3(1,2) assms(2) show ?thesis by (auto simp: session_channels_def tok)
    qed
  qed
  have hub: "relay_table ?r = sm" "r_sent ?r = r_sent r"
    by (simp_all add: register_reply_def close_chans_def set_sessions_def)
  show ?thesis
    unfolding sane_def hub
  proof (intro conjI assms(3))
    show "members_ok ?r sm" using mem by (simp add: members_ok_def)
    show "phases_ok ?r"
      unfolding phases_ok_def
    proof (intro allI impI)
      fix c p
      assume "phase_of ?r c = Some p"
      from ph [OF this] show "(unregistered_phase p \<longrightarrow> token_of ?r c = None) \<and>
          (\<forall>peer d. p = Forwarding peer d \<longrightarrow> partners ?r c peer)"
      proof
        assume c: "c \<noteq> ch \<and> phase_of r c = Some p"
        with assms(1) have "(unregistered_phase p \<longrightarrow> token_of r c = None) \<and>
            (\<forall>peer d. p = Forwarding peer d \<longrightarrow> partners r c peer)"
          unfolding sane_def phases_ok_def by blast
        with c part show ?thesis by (simp add: tok)
      qed (auto simp: unregistered_phase_def)
    qed
    show "sent_ok ?r"
      using assms(1) part by (auto simp: sane_def sent_ok_def hub(2))
  qed
qed

lemma handler_parts:
  "r_handlers r ch = Some h \<Longrightarrow> token_of r ch = h_token h" "r_handlers r ch = Some h \<Longrightarrow> phase_of r ch = Some (h_phase h)"
  by (simp_all add: token_of_def phase_of_def)

lemma Recipient_partners:
  assumes "sane r" "token_of r ch = Some token" "Recipient token ch (relay_table r) = Inr peer"
  shows "partners r ch peer"
proof -
  from assms(3) obtain s where s: "map_of (sm_sessions (relay_table r)) (hex_key token) = Some s"
    and c: "ch = rs_listener s \<and> rs_dialer s = Some peer \<or> rs_dialer s = Some ch \<and> peer = rs_listener s \<and> ch \<noteq> rs_listener s"
    by (auto simp: Recipient_def split: option.splits if_splits)
  from assms(1) s have "rs_dialer s \<noteq> Some (rs_listener s) \<and>
      (\<forall>c \<in> set (session_channels s). \<exists>t. token_of r c = Some t \<and> hex_key t = hex_key token)"
    unfolding sane_def members_ok_def by blast
  then have m: "rs_dialer s \<noteq> Some (rs_listener s)" "\<And>c. c \<in> set (session_channels s) \<Longrightarrow> token_of r c = Some token"
    by (auto simp: hex_key_inject)
  from c have "peer \<in> set (session_channels s)" by (auto simp: session_channels_def)
  from m(2) [OF this] c m(1) assms(2) show ?thesis by (auto simp: partners_def)
qed

lemma sane_handle_register:
  assumes "sane r" "token_of r ch = None"
  shows "sane (handle_register now now' rnd ch frame r)"
proof -
  have t: "table_ok (relay_table r)" using assms(1) by (simp add: sane_def)
  have create: "sane (case Create now now' rnd ch (relay_table r) of
      (sm', shut, Inl _) \<Rightarrow> finish ch (close_chans shut (set_sessions sm' r))
    | (sm', shut, Inr tok) \<Rightarrow> register_reply tok ttl ch (close_chans shut (set_sessions sm' r)))" for ttl
    using assms Create_table [OF t]
    by (auto split: prod.split sum.split intro!: sane_finish sane_sessions sane_register) fastforce+
  have create_with: "sane (case CreateWith now now' ch token (relay_table r) of
      (sm', shut, Inl _) \<Rightarrow> finish ch (close_chans shut (set_sessions sm' r))
    | (sm', shut, Inr _) \<Rightarrow> register_reply token ttl ch (close_chans shut (set_sessions sm' r)))" for ttl token
    using assms CreateWith_table [OF t]
    by (auto split: prod.split sum.split intro!: sane_finish sane_sessions sane_register) fastforce+
  have join: "sane (case Join now now' token ch (relay_table r) of
      (sm', Inl _) \<Rightarrow> finish ch (set_sessions sm' r)
    | (sm', Inr _) \<Rightarrow> register_reply token 0 ch (set_sessions sm' r))" for token
  proof -
    obtain sm' x where j: "Join now now' token ch (relay_table r) = (sm', x)" by force
    note jt = Join_table [OF t j]
    show ?thesis
    proof (cases x)
      case (Inl e)
      with j jt assms(1) show ?thesis by (simp add: sane_finish sane_sessions)
    next
      case (Inr u)
      with jt have "adds_channel (hex_key token) ch (relay_table r) sm'" by simp
      from sane_register [OF assms jt(1) this, of 0 "[]"] j Inr show ?thesis by (simp add: close_chans_def)
    qed
  qed
  show ?thesis
    using create create_with join sane_finish [OF assms(1)]
    by (auto simp: handle_register_def Let_def split: option.split relay_frame.split)
qed

lemma sane_handle_first:
  assumes "sane r" "token_of r ch = None"
  shows "sane (handle_first now now' rnd ch frame r)"
proof -
  have "sane (set_phase ch Acking r)" using assms by (intro sane_set_phase) simp_all
  then show ?thesis
    using sane_finish [OF assms(1)] sane_handle_register [OF assms]
    by (auto simp: handle_first_def Let_def split: option.split relay_frame.split)
qed

lemma sane_pump:
  assumes "sane r" "token_of r ch = Some token"
  shows "sane (pump ch token frame r)"
proof -
  have "sane (set_phase ch Ponging r)"
    by (rule sane_set_phase [OF assms(1)]) (simp_all add: unregistered_phase_def)
  moreover have "sane (set_phase ch (Forwarding peer d) r)"
    if "Recipient token ch (relay_table r) = Inr peer" for peer d
    using Recipient_partners [OF assms that] by (intro sane_set_phase [OF assms(1)]) (simp_all add: unregistered_phase_def)
  ultimately show ?thesis
    using assms(1) by (auto simp: pump_def split: option.split relay_frame.split sum.split)
qed

lemma sane_on_read:
  assumes "sane r" "r_handlers r ch = Some h"
  shows "sane (on_read fc ch data now now' rnd h r)"
proof -
  have n: "token_of r ch = None" if "unregistered_phase (h_phase h)"
    using assms that handler_parts(2) [OF assms(2)] by (auto simp: sane_def phases_ok_def)
  have t: "token_of r ch = h_token h" by (rule handler_parts(1) [OF assms(2)])
  show ?thesis
    using assms(1) sane_handle_first [OF assms(1) n] sane_handle_register [OF assms(1) n] sane_pump [OF assms(1)] t
    by (auto simp: on_read_def unregistered_phase_def split: phase.split option.split)
qed

lemma write_frame_pair: "write_frame w ch f ok r = (r', b) \<Longrightarrow> r' = fst (write_frame w ch f ok r)"
  by simp

lemma sane_on_step:
  assumes "sane r" "r_handlers r ch = Some h"
  shows "sane (on_step ch ok h r)"
proof -
  have settle: "sane (set_phase ch p r')" if "sane r'" "p = Pumping \<or> p = Leaving" for r' p
    using that by (intro sane_set_phase) (auto simp: unregistered_phase_def)
  have w: "sane (fst (write_frame ch ch f ok r))" if "\<And>d. f \<noteq> Msg d" for f
    using that by (intro sane_write [OF assms(1)]) blast
  have ack: "sane (set_phase ch Authenticated (fst (write_frame ch ch (Auth []) ok r)))" if "h_phase h = Acking"
    using assms that handler_parts(2) [OF assms(2)]
    by (intro sane_set_phase w) (auto simp: sane_def phases_ok_def unregistered_phase_def)
  have fwd: "sane (fst (write_frame ch peer (Msg d) ok r))" if "h_phase h = Forwarding peer d" for peer d
    using assms that handler_parts(2) [OF assms(2)]
    by (intro sane_write) (auto simp: sane_def phases_ok_def)
  have reply: "sane (case write_frame ch ch f ok r of (r', True) \<Rightarrow> set_phase ch Pumping r' | (r', False) \<Rightarrow> finish ch r')"
    if "\<And>d. f \<noteq> Msg d" for f
    using w [OF that] by (auto split: prod.split bool.split intro!: settle sane_finish dest: write_frame_pair)
  have forward: "sane (case write_frame ch peer (Msg d) ok r of (r', True) \<Rightarrow> set_phase ch Pumping r'
      | (r', False) \<Rightarrow> set_phase ch Pumping (close_chans [ch, peer] r'))"
    if "h_phase h = Forwarding peer d" for peer d
    using fwd [OF that] by (auto split: prod.split bool.split intro!: settle dest: write_frame_pair)
  have leave: "sane (finish ch (set_sessions (sm_Remove token (relay_table r)) r))" for token
    using assms(1) Remove_table by (intro sane_finish sane_sessions) (auto simp: sm_Remove_def sane_def)
  have pong: "sane (set_phase ch Pumping (fst (write_frame ch ch Pong ok r)))" by (intro settle w) simp_all
  have closing: "sane (set_phase ch Leaving (close_chans chs r))" for chs by (intro settle) (simp_all add: assms(1))
  show ?thesis
    unfolding on_step_def
    using assms(1) ack reply forward leave pong closing by (auto split: phase.split option.split)
qed

lemma sane_step:
  assumes "sane r"
  shows "sane (relay_step fc r e)"
proof (cases e)
  case (Arrive ch)
  have "sane (r\<lparr>r_handlers := (r_handlers r)(ch \<mapsto> \<lparr>h_phase = Greeting, h_token = None\<rparr>)\<rparr>)" (is "sane ?r")
    if "r_handlers r ch = None"
  proof -
    have t: "token_of ?r = token_of r" using that by (auto simp: token_of_def fun_eq_iff)
    then have "partners ?r = partners r" "members_ok ?r = members_ok r"
      by (auto simp: members_ok_def fun_eq_iff partners_def)
    moreover have "phase_of ?r c = (if c = ch then Some Greeting else phase_of r c)" for c by (simp add: phase_of_def)
    moreover have "token_of r ch = None" using that by (simp add: token_of_def)
    ultimately show ?thesis
      using assms t by (auto simp: sane_def phases_ok_def sent_ok_def)
  qed
  with assms Arrive show ?thesis by (simp split: option.split)
next
  case (Reads ch data now now' rnd)
  with sane_on_read [OF assms] assms show ?thesis by (auto split: option.split)
next
  case (ReadFails ch)
  have "sane (set_phase ch Closing r)"
    by (rule sane_set_phase [OF assms]) (simp_all add: unregistered_phase_def)
  with assms sane_finish [OF assms] ReadFails show ?thesis by (simp split: option.split phase.split)
next
  case (Steps ch ok)
  with sane_on_step [OF assms] assms show ?thesis by (auto split: option.split)
next
  case (Tick now)
  obtain sm' shut where p: "purgeExpired now (relay_table r) = (sm', shut)" by force
  have "table_ok (relay_table r)" using assms by (simp add: sane_def)
  with purge_table [OF _ p] assms Tick p show ?thesis by (simp add: sane_sessions)
qed

subsection \<open>What a run never changes\<close>

definition configured :: "int \<Rightarrow> bytes \<Rightarrow> 'l relay \<Rightarrow> bool" where
  "configured maxConns password r \<longleftrightarrow> sm_maxConns (relay_table r) = maxConns \<and> hub_password (r_hub r) = password"

lemma register_reply_hub [simp]: "r_hub (register_reply t ttl ch r) = r_hub r"
  by (simp add: register_reply_def)

lemma configured_simps [simp]:
  "configured m pw (set_phase ch p r) = configured m pw r" "configured m pw (close_chans chs r) = configured m pw r"
  "configured m pw (finish ch r) = configured m pw r" "configured m pw (register_reply t ttl ch r) = configured m pw r"
  "configured m pw (fst (write_frame w c f ok r)) = configured m pw r"
  by (simp_all add: configured_def)

lemma configured_sessions: "configured m pw r \<Longrightarrow> same_limits (relay_table r) sm \<Longrightarrow> configured m pw (set_sessions sm r)"
  by (simp add: configured_def same_limits_def)

lemma configured_write: "write_frame w c f ok r = (r', b) \<Longrightarrow> configured m pw r' = configured m pw r"
  using configured_simps(5) [of m pw w c f ok r] by simp

lemma configured_register:
  assumes "table_ok (relay_table r)" "configured m pw r"
  shows "configured m pw (handle_register now now' rnd ch frame r)"
  unfolding handle_register_def Let_def
  using assms Create_table(2) [OF assms(1)] CreateWith_table(2) [OF assms(1)] Join_table(2) [OF assms(1)]
  by (auto split: option.split relay_frame.split prod.split sum.split intro!: configured_sessions)

lemma configured_step:
  assumes "sane r" "configured m pw r"
  shows "configured m pw (relay_step fc r e)"
proof -
  have t: "table_ok (relay_table r)" using assms(1) by (simp add: sane_def)
  note reg = configured_register [OF t assms(2)]
  have read: "configured m pw (on_read fc ch data now now' rnd h r)" for ch data now now' rnd h
    using reg assms(2)
    by (auto simp: on_read_def handle_first_def pump_def Let_def split: phase.split option.split relay_frame.split sum.split)
  have step: "configured m pw (on_step ch ok h r)" for ch ok h
    using assms(2) configured_sessions [OF assms(2)] Remove_table(2) [OF t]
    by (auto simp: on_step_def sm_Remove_def configured_write split: phase.split option.split prod.split bool.split)
  show ?thesis
    using assms(2) read step configured_sessions [OF assms(2)] purge_table(2) [OF t]
    by (cases e) (auto simp: configured_def [of m pw "_\<lparr>r_handlers := _\<rparr>"] configured_def split: option.split phase.split prod.split)
qed

interpretation rly: machine "relay_step fc" "\<lambda>r. sane r \<and> configured m pw r" for fc m pw
  by unfold_locales (auto intro: sane_step configured_step)

lemma relay_run_sane:
  assumes "sm_sessions (hub_sessions hub) = []"
  shows "sane (relay_run fc hub es)" "configured (sm_maxConns (hub_sessions hub)) (hub_password hub) (relay_run fc hub es)"
proof -
  have "sane (relay_start hub) \<and> configured (sm_maxConns (hub_sessions hub)) (hub_password hub) (relay_start hub)"
    using assms by (simp add: sane_def table_defs members_ok_def phases_ok_def sent_ok_def relay_start_def phase_of_def configured_def)
  from rly.run [OF this, of fc es] show "sane (relay_run fc hub es)"
    "configured (sm_maxConns (hub_sessions hub)) (hub_password hub) (relay_run fc hub es)"
    by (simp_all add: relay_run_def)
qed

subsection \<open>Who may register\<close>

text \<open>In the events so far, the channel presented the password, or there is none.\<close>

definition authorised :: "relay_frame codec \<Rightarrow> bytes \<Rightarrow> relay_event list \<Rightarrow> chan \<Rightarrow> bool" where
  "authorised fc password es ch \<longleftrightarrow> password = [] \<or>
     (\<exists>data now now' rnd. Reads ch data now now' rnd \<in> set es \<and> dec fc data = Some (Auth password))"

definition admitted_only :: "(chan \<Rightarrow> bool) \<Rightarrow> 'l relay \<Rightarrow> bool" where
  "admitted_only A r \<longleftrightarrow>
     (\<forall>ch. token_of r ch \<noteq> None \<or> phase_of r ch = Some Acking \<or> phase_of r ch = Some Authenticated \<longrightarrow> A ch)"

lemma admitted_simps:
  "admitted_only A (close_chans chs r) = admitted_only A r" "admitted_only A (set_sessions sm r) = admitted_only A r"
  "admitted_only A (fst (write_frame w c f ok r)) = admitted_only A r"
  by (simp_all add: admitted_only_def)

lemma admitted_set_phase:
  "admitted_only A r \<Longrightarrow> p = Acking \<or> p = Authenticated \<longrightarrow> A ch \<Longrightarrow> admitted_only A (set_phase ch p r)"
  by (auto simp: admitted_only_def phase_of_set_phase)

lemma admitted_mono: "admitted_only A r \<Longrightarrow> (\<And>ch. A ch \<Longrightarrow> B ch) \<Longrightarrow> admitted_only B r"
  unfolding admitted_only_def by blast

lemma admitted_finish: "admitted_only A r \<Longrightarrow> admitted_only A (finish ch r)"
  by (simp add: finish_def admitted_simps admitted_set_phase)

lemma admitted_reply: "admitted_only A r \<Longrightarrow> A ch \<Longrightarrow> admitted_only A (register_reply t ttl ch r)"
  by (auto simp: admitted_only_def register_reply_def token_of_def phase_of_def)

lemma admitted_write: "write_frame w c f ok r = (r', b) \<Longrightarrow> admitted_only A r' = admitted_only A r"
  using admitted_simps(3) [of A w c f ok r] by simp

lemmas admitted_changes = admitted_simps admitted_set_phase admitted_finish admitted_reply admitted_write

lemma admitted_register:
  "admitted_only A r \<Longrightarrow> A ch \<Longrightarrow> admitted_only A (handle_register now now' rnd ch frame r)"
  by (auto simp: handle_register_def Let_def admitted_changes split: option.split relay_frame.split prod.split sum.split)

lemma admitted_step:
  assumes "admitted_only A r" "hub_password (r_hub r) = [] \<Longrightarrow> \<forall>ch. A ch"
    and "\<And>ch data now now' rnd. e = Reads ch data now now' rnd \<Longrightarrow>
      dec fc data = Some (Auth (hub_password (r_hub r))) \<Longrightarrow> A ch"
  shows "admitted_only A (relay_step fc r e)"
proof -
  have first: "admitted_only A (handle_first now now' rnd ch (dec fc data) r)"
    if "e = Reads ch data now now' rnd" for ch data now now' rnd
    using assms(1,2) assms(3) [OF that] admitted_register [OF assms(1)]
    by (auto simp: handle_first_def Let_def admitted_changes split: option.split relay_frame.split)
  have auth: "A ch" if "r_handlers r ch = Some h" "h_phase h = Acking \<or> h_phase h = Authenticated" for ch h
    using assms(1) that by (auto simp: admitted_only_def phase_of_def)
  have read: "admitted_only A (on_read fc ch data now now' rnd h r)"
    if "e = Reads ch data now now' rnd" "r_handlers r ch = Some h" for ch data now now' rnd h
    using first [OF that(1)] admitted_register [OF assms(1) auth [OF that(2)]] assms(1)
    by (auto simp: on_read_def pump_def admitted_changes split: phase.split option.split relay_frame.split sum.split)
  have step: "admitted_only A (on_step ch ok h r)" if "r_handlers r ch = Some h" for ch ok h
    using assms(1) auth [OF that]
    by (auto simp: on_step_def admitted_changes split: phase.split option.split prod.split bool.split)
  have arrive: "admitted_only A (r\<lparr>r_handlers := (r_handlers r)(ch \<mapsto> \<lparr>h_phase = Greeting, h_token = None\<rparr>)\<rparr>)" for ch
    using assms(1) by (auto simp: admitted_only_def token_of_def phase_of_def)
  show ?thesis
    using assms(1) read step arrive
    by (cases e) (auto simp: admitted_changes split: option.split phase.split prod.split)
qed

lemma relay_run_admitted:
  assumes "sm_sessions (hub_sessions hub) = []"
  shows "admitted_only (authorised fc (hub_password hub) es) (relay_run fc hub es)"
proof (induction es rule: rev_induct)
  case Nil
  then show ?case by (simp add: relay_run_def relay_start_def admitted_only_def token_of_def phase_of_def)
next
  case (snoc e es)
  have pw: "hub_password (r_hub (relay_run fc hub es)) = hub_password hub"
    using relay_run_sane(2) [OF assms, of fc es] by (simp add: configured_def)
  have "admitted_only (authorised fc (hub_password hub) (es @ [e])) (relay_run fc hub es)"
    using snoc by (rule admitted_mono) (auto simp: authorised_def)
  then have "admitted_only (authorised fc (hub_password hub) (es @ [e])) (relay_step fc (relay_run fc hub es) e)"
    by (rule admitted_step) (auto simp: authorised_def pw)
  then show ?case by (simp add: relay_run_def)
qed

subsection \<open>Properties of every run\<close>

text \<open>C12. However connections, frames, failures, clock ticks and handler steps interleave, the relay
  never holds more sessions than \<^verbatim>\<open>max_concurrent_sessions\<close>, no two of them under the same key, and
  every channel of a session is one that registered with exactly the session's token, the listener and
  the dialer being different channels.\<close>

theorem relay_table_invariant:
  assumes "sm_sessions (hub_sessions hub) = []" "0 \<le> sm_maxConns (hub_sessions hub)" "r = relay_run fc hub es"
  shows "int (Len (relay_table r)) \<le> sm_maxConns (hub_sessions hub) \<and>
     distinct (map fst (sm_sessions (relay_table r))) \<and>
     (\<forall>(k, s) \<in> set (sm_sessions (relay_table r)).
        rs_dialer s \<noteq> Some (rs_listener s) \<and>
        (\<forall>ch \<in> set (session_channels s). \<exists>t. token_of r ch = Some t \<and> k = hex_key t))"
proof -
  have "sane r" "configured (sm_maxConns (hub_sessions hub)) (hub_password hub) r"
    unfolding assms(3) by (rule relay_run_sane [OF assms(1)])+
  then have t: "distinct (map fst (sm_sessions (relay_table r)))" "int (Len (relay_table r)) \<le> sm_maxConns (hub_sessions hub)"
      and m: "members_ok r (relay_table r)"
    using assms(2) by (auto simp: sane_def table_ok_def configured_def)
  have "rs_dialer s \<noteq> Some (rs_listener s) \<and> (\<forall>ch \<in> set (session_channels s). \<exists>t. token_of r ch = Some t \<and> k = hex_key t)"
    if "(k, s) \<in> set (sm_sessions (relay_table r))" for k s
    using m map_of_is_SomeI [OF t(1) that] unfolding members_ok_def by metis
  with t show ?thesis by blast
qed

text \<open>C11. The relay forwards only within a rendezvous: in every run, a message frame written to a
  channel was read from a different channel that registered with the same token, and with a password
  configured both had presented it.\<close>

theorem relay_isolates:
  assumes "sm_sessions (hub_sessions hub) = []" "(from, to, Msg d) \<in> set (r_sent (relay_run fc hub es))"
  shows "\<exists>t. token_of (relay_run fc hub es) from = Some t \<and> token_of (relay_run fc hub es) to = Some t \<and> from \<noteq> to \<and>
     authorised fc (hub_password hub) es from \<and> authorised fc (hub_password hub) es to"
proof -
  have "partners (relay_run fc hub es) from to"
    using relay_run_sane(1) [OF assms(1)] assms(2) unfolding sane_def sent_ok_def by blast
  with relay_run_admitted [OF assms(1), of fc es] show ?thesis
    by (auto simp: partners_def admitted_only_def)
qed

subsection \<open>A rendezvous\<close>

definition paired_up :: "'l relay \<Rightarrow> bytes \<Rightarrow> chan \<Rightarrow> chan \<Rightarrow> bool" where
  "paired_up r token l d \<longleftrightarrow> l \<noteq> d \<and> l \<notin> r_closed r \<and> d \<notin> r_closed r \<and>
     r_handlers r l = Some \<lparr>h_phase = Pumping, h_token = Some token\<rparr> \<and>
     r_handlers r d = Some \<lparr>h_phase = Pumping, h_token = Some token\<rparr> \<and>
     (\<exists>s. map_of (sm_sessions (relay_table r)) (hex_key token) = Some s \<and> rs_listener s = l \<and> rs_dialer s = Some d)"

text \<open>The events of two peers meeting: the listener creates the session, the dialer joins it.\<close>

definition meeting :: "relay_frame codec \<Rightarrow> bytes \<Rightarrow> chan \<Rightarrow> chan \<Rightarrow> gotime \<Rightarrow> gotime \<Rightarrow> relay_event list" where
  "meeting fc token l d t1 t2 =
     [Arrive l, Reads l (the (enc fc (Register token MODE_CREATE))) t1 t1 [], Steps l True,
      Arrive d, Reads d (the (enc fc (Register token MODE_JOIN))) t2 t2 [], Steps d True]"

text \<open>Messages they send, each with its direction (\<open>True\<close> from the dialer).\<close>

definition exchange :: "relay_frame codec \<Rightarrow> chan \<Rightarrow> chan \<Rightarrow> (bool \<times> bytes) list \<Rightarrow> relay_event list" where
  "exchange fc l d ms = concat (map (\<lambda>(up, m).
     [Reads (if up then d else l) (the (enc fc (Msg m))) 0 0 [], Steps (if up then d else l) True]) ms)"

definition forwarded :: "chan \<Rightarrow> chan \<Rightarrow> (bool \<times> bytes) list \<Rightarrow> (chan \<times> chan \<times> relay_frame) list" where
  "forwarded l d ms = map (\<lambda>(up, m). if up then (d, l, Msg m) else (l, d, Msg m)) ms"

lemma dec_enc:
  assumes "codec_ok relay_frame_ok fc" "relay_frame_ok f"
  shows "dec fc (the (enc fc f)) = Some f"
  using assms unfolding codec_ok_def by force

lemma modes_ok [simp]:
  "relay_frame_ok (Register t MODE_CREATE)" "relay_frame_ok (Register t MODE_JOIN)" "relay_frame_ok (Msg m)"
  by (simp_all add: relay_frame_ok_def MODE_CREATE_def MODE_JOIN_def)

lemma modes_distinct [simp]: "MODE_JOIN \<noteq> MODE_CREATE" "MODE_CREATE \<noteq> MODE_JOIN"
  by (simp_all add: MODE_CREATE_def MODE_JOIN_def)

lemma forward_one:
  assumes "codec_ok relay_frame_ok fc" "paired_up r token l d"
  shows "relay_step fc (relay_step fc r (Reads (if up then d else l) (the (enc fc (Msg m))) 0 0 [])) (Steps (if up then d else l) True) =
     r\<lparr>r_sent := r_sent r @ forwarded l d [(up, m)]\<rparr>"
proof -
  have d: "dec fc (the (enc fc (Msg m))) = Some (Msg m)" by (rule dec_enc [OF assms(1)]) simp
  show ?thesis
    using assms(2)
    by (cases up)
      (auto simp: paired_up_def d on_read_def on_step_def pump_def Recipient_def set_phase_def write_frame_def forwarded_def
        fun_upd_idem)
qed

lemma forward_all:
  assumes "codec_ok relay_frame_ok fc" "paired_up r token l d"
  shows "foldl (relay_step fc) r (exchange fc l d ms) = r\<lparr>r_sent := r_sent r @ forwarded l d ms\<rparr>"
  using assms(2)
proof (induction ms arbitrary: r)
  case Nil
  then show ?case by (simp add: exchange_def forwarded_def)
next
  case (Cons x ms)
  obtain up m where x: "x = (up, m)" by force
  have "paired_up (r\<lparr>r_sent := z\<rparr>) token l d" for z using Cons.prems by (simp add: paired_up_def)
  with Cons.IH have "foldl (relay_step fc) (r\<lparr>r_sent := z\<rparr>) (exchange fc l d ms) =
      r\<lparr>r_sent := z @ forwarded l d ms\<rparr>" for z by simp
  with forward_one [OF assms(1) Cons.prems] show ?case
    by (simp add: x exchange_def forwarded_def)
qed

text \<open>It pairs them from any state with an empty table in which the two are new.\<close>

lemma meeting_from:
  assumes "codec_ok relay_frame_ok fc" "sm_sessions (relay_table r) = []" "hub_password (r_hub r) = []"
    and "0 < sm_maxConns (relay_table r)" "ValidateUserToken token = Inr ()" "l \<noteq> d" "t2 \<le> t1 + sm_ttl (relay_table r)"
    and "r_handlers r l = None" "r_handlers r d = None" "l \<notin> r_closed r" "d \<notin> r_closed r"
  shows "paired_up (foldl (relay_step fc) r (meeting fc token l d t1 t2)) token l d"
    "r_sent (foldl (relay_step fc) r (meeting fc token l d t1 t2)) = r_sent r @
       [(l, l, Registered token (ttl_seconds (sm_ttl (relay_table r))) (ttl_seconds (sm_sessionTTL (relay_table r)))),
        (d, d, Registered token 0 (ttl_seconds (sm_sessionTTL (relay_table r))))]"
    "c \<noteq> l \<Longrightarrow> c \<noteq> d \<Longrightarrow> r_handlers (foldl (relay_step fc) r (meeting fc token l d t1 t2)) c = r_handlers r c"
proof -
  have token: "token \<noteq> []" using assms(5) by (auto simp: ValidateUserToken_def peerTokenSize_def)
  have d: "dec fc (the (enc fc (Register token MODE_CREATE))) = Some (Register token MODE_CREATE)"
      "dec fc (the (enc fc (Register token MODE_JOIN))) = Some (Register token MODE_JOIN)"
    by (rule dec_enc [OF assms(1)], simp)+
  have ne: "d \<noteq> l" "\<not> t1 + sm_ttl (relay_table r) < t2" "\<not> sm_maxConns (relay_table r) \<le> 0"
    using assms(4,6,7) by auto
  note defs = meeting_def on_read_def handle_first_def d handle_register_def token
    CreateWith_def assms(2,3,5,8-11) purgeExpired_def Len_def register_reply_def close_chans_def set_sessions_def on_step_def
    write_frame_def set_phase_def Join_def Let_def ne assms(6)
  show "paired_up (foldl (relay_step fc) r (meeting fc token l d t1 t2)) token l d"
    by (simp add: defs paired_up_def)
  show "r_sent (foldl (relay_step fc) r (meeting fc token l d t1 t2)) = r_sent r @
       [(l, l, Registered token (ttl_seconds (sm_ttl (relay_table r))) (ttl_seconds (sm_sessionTTL (relay_table r)))),
        (d, d, Registered token 0 (ttl_seconds (sm_sessionTTL (relay_table r))))]"
    by (simp add: defs)
  show "r_handlers (foldl (relay_step fc) r (meeting fc token l d t1 t2)) c = r_handlers r c" if "c \<noteq> l" "c \<noteq> d"
    using that by (simp add: defs)
qed

text \<open>C17. A rendezvous works: on a relay without password, a listener that registers an acceptable
  token and a dialer that joins with it before the token's time to live has passed both get their
  \<^verbatim>\<open>Registered\<close> reply, and from then on every message either of them sends is written to the other,
  once each and in the order sent.\<close>

theorem relay_rendezvous:
  assumes "codec_ok relay_frame_ok fc" "sm_sessions (hub_sessions hub) = []" "hub_password hub = []"
    and "0 < sm_maxConns (hub_sessions hub)" "ValidateUserToken token = Inr ()" "l \<noteq> d" "t2 \<le> t1 + sm_ttl (hub_sessions hub)"
  shows "r_sent (relay_run fc hub (meeting fc token l d t1 t2 @ exchange fc l d ms)) =
     [(l, l, Registered token (ttl_seconds (sm_ttl (hub_sessions hub))) (ttl_seconds (sm_sessionTTL (hub_sessions hub)))),
      (d, d, Registered token 0 (ttl_seconds (sm_sessionTTL (hub_sessions hub))))] @ forwarded l d ms"
proof -
  let ?r = "relay_start hub"
  have "sm_sessions (relay_table ?r) = []" "hub_password (r_hub ?r) = []" "0 < sm_maxConns (relay_table ?r)"
      "t2 \<le> t1 + sm_ttl (relay_table ?r)" "r_handlers ?r l = None" "r_handlers ?r d = None" "l \<notin> r_closed ?r" "d \<notin> r_closed ?r"
    using assms(2-4,7) by (simp_all add: relay_start_def)
  note m = meeting_from [OF assms(1) this(1-3) assms(5,6) this(4-8)]
  from forward_all [OF assms(1) m(1)] m(2) show ?thesis
    by (simp add: relay_run_def) (simp add: relay_start_def)
qed

text \<open>C36. A session in use can be removed by a third connection: once the token's time to live has
  passed, a further \<^verbatim>\<open>Join\<close> with the token deletes the entry although both peers are connected and the
  clean-up would keep it; from then on neither peer's messages find a recipient, and when one leaves
  the other is not closed.\<close>

theorem late_join_drops_live_session:
  assumes "map_of (sm_sessions sm) (hex_key token) = Some s" "rs_dialer s = Some d"
    and "rs_expiry s < now" "\<not> lapsed now s"
    and "Join now now' token x sm = (sm', res)"
  shows "res = Inl ErrSessionExpired \<and>
     Recipient token (rs_listener s) sm' = Inl ErrTokenNotFound \<and> Recipient token d sm' = Inl ErrTokenNotFound \<and>
     ClosePeerChannel token (rs_listener s) sm' = [] \<and> ClosePeerChannel token d sm' = []"
  using assms by (auto simp: Join_def Recipient_def ClosePeerChannel_def delete_conv')

text \<open>A listener whose token expires before anyone joins: the clean-up removes its session and closes
  its channel, its read fails, and its handler has closed the peer it does not have and is about to
  unregister.\<close>

definition expiring :: "relay_frame codec \<Rightarrow> bytes \<Rightarrow> chan \<Rightarrow> gotime \<Rightarrow> gotime \<Rightarrow> relay_event list" where
  "expiring fc token a t1 t2 =
     [Arrive a, Reads a (the (enc fc (Register token MODE_CREATE))) t1 t1 [], Steps a True,
      Tick t2, ReadFails a, Steps a True]"

lemma expiring_leaves:
  assumes "codec_ok relay_frame_ok fc" "sm_sessions (hub_sessions hub) = []" "hub_password hub = []"
    and "0 < sm_maxConns (hub_sessions hub)" "ValidateUserToken token = Inr ()" "t1 + sm_ttl (hub_sessions hub) < t2"
  shows "relay_run fc hub (expiring fc token a t1 t2) =
     \<lparr>r_hub = hub, r_handlers = [a \<mapsto> \<lparr>h_phase = Leaving, h_token = Some token\<rparr>], r_closed = {a},
      r_sent = [(a, a, Registered token (ttl_seconds (sm_ttl (hub_sessions hub))) (ttl_seconds (sm_sessionTTL (hub_sessions hub))))]\<rparr>"
proof -
  have token: "token \<noteq> []" using assms(5) by (auto simp: ValidateUserToken_def peerTokenSize_def)
  have d: "dec fc (the (enc fc (Register token MODE_CREATE))) = Some (Register token MODE_CREATE)"
    by (rule dec_enc [OF assms(1)]) simp
  have ne: "\<not> sm_maxConns (hub_sessions hub) \<le> 0" using assms(4) by simp
  have "hub\<lparr>hub_sessions := (hub_sessions hub)\<lparr>sm_sessions := []\<rparr>\<rparr> = hub" using assms(2) by simp
  then show ?thesis
    by (simp add: relay_run_def expiring_def relay_start_def on_read_def handle_first_def d handle_register_def token
      CreateWith_def assms(2,3,5,6) purgeExpired_def Len_def register_reply_def close_chans_def set_sessions_def on_step_def
      write_frame_def set_phase_def Let_def ne lapsed_def session_channels_def ClosePeerChannel_def)
qed

text \<open>A handler that leaves removes the session under its token whoever owns it by then. When a
  listener's session has expired and two peers have met again under the same token before its handler
  unregisters, that step removes the new session: both peers are connected and in step, yet their
  messages find no recipient any more.\<close>

theorem stale_unregister_drops_new_session:
  assumes "codec_ok relay_frame_ok fc" "sm_sessions (hub_sessions hub) = []" "hub_password hub = []"
    and "0 < sm_maxConns (hub_sessions hub)" "ValidateUserToken token = Inr ()" "distinct [a, l, d]"
    and "t1 + sm_ttl (hub_sessions hub) < t2" "t3 \<le> t2 + sm_ttl (hub_sessions hub)"
    and "r = relay_run fc hub (expiring fc token a t1 t2 @ meeting fc token l d t2 t3)"
  shows "paired_up r token l d \<and>
     Recipient token l (relay_table (relay_step fc r (Steps a True))) = Inl ErrTokenNotFound \<and>
     Recipient token d (relay_table (relay_step fc r (Steps a True))) = Inl ErrTokenNotFound"
proof -
  note e = expiring_leaves [OF assms(1-5,7), of a]
  have r: "r = foldl (relay_step fc) (relay_run fc hub (expiring fc token a t1 t2)) (meeting fc token l d t2 t3)"
    by (simp add: assms(9) relay_run_def)
  let ?e = "relay_run fc hub (expiring fc token a t1 t2)"
  have "sm_sessions (relay_table ?e) = []" "hub_password (r_hub ?e) = []" "0 < sm_maxConns (relay_table ?e)"
      "t3 \<le> t2 + sm_ttl (relay_table ?e)" "r_handlers ?e l = None" "r_handlers ?e d = None" "l \<notin> r_closed ?e" "d \<notin> r_closed ?e"
    using assms(2-4,6,8) by (simp_all add: e)
  note m' = meeting_from [OF assms(1) this(1-3) assms(5) _ this(4-8)]
  have m: "paired_up r token l d" "r_handlers r a = Some \<lparr>h_phase = Leaving, h_token = Some token\<rparr>"
    using m'(1) m'(3) [of a] assms(6) by (simp_all add: r) (simp add: e)
  show ?thesis
    using m by (simp add: on_step_def sm_Remove_def Recipient_def delete_conv')
qed

subsection \<open>Instances\<close>

definition demo_frames :: "relay_frame codec" where
  "demo_frames = \<lparr>
     enc = \<lambda>f. Some (case f of
         Register t m \<Rightarrow> 1 # put_int 4 m @ t
       | Registered t a b \<Rightarrow> 2 # put_uint32 a @ put_uint32 b @ t
       | Msg d \<Rightarrow> 3 # d
       | Ping \<Rightarrow> [4]
       | Pong \<Rightarrow> [5]
       | Auth p \<Rightarrow> 6 # p
       | NoKind \<Rightarrow> []),
     dec = \<lambda>bs. (case bs of
         [] \<Rightarrow> Some NoKind
       | b # x \<Rightarrow>
           if b = 1 then Some (Register (drop 4 x) (get_int 4 (take 4 x)))
           else if b = 2 then Some (Registered (drop 8 x) (get_uint32 x) (get_uint32 (drop 4 x)))
           else if b = 3 then Some (Msg x)
           else if b = 4 then Some Ping
           else if b = 5 then Some Pong
           else if b = 6 then Some (Auth x)
           else None)\<rparr>"

lemma demo_frames_law: "codec_ok relay_frame_ok demo_frames"
proof -
  have "dec demo_frames (the (enc demo_frames f)) = Some f" if "relay_frame_ok f" for f
  proof (cases f)
    case (Register t m)
    with that have m: "- (2 ^ 31) \<le> m" "m < 2 ^ 31" by (simp_all add: relay_frame_ok_def)
    have "length (put_int 4 m) = 4" by (simp add: put_int_def)
    with m get_put_int [of 4 m] show ?thesis by (simp add: Register demo_frames_def)
  qed (simp_all add: demo_frames_def)
  then show ?thesis by (simp add: codec_ok_def demo_frames_def)
qed

definition demo_token :: bytes where
  "demo_token = map of_nat [0..<32]"

definition demo_hub :: "bytes \<Rightarrow> unit hub" where
  "demo_hub password = NewHub (NewSessionManager (60 * second) 2 0) password 65536 None 0"

lemma distinct_token_ok:
  assumes "distinct token" "length token = 32"
  shows "ValidateUserToken token = Inr ()"
proof -
  have c: "count_list xs x = 0 \<or> count_list xs x = 1" if "distinct xs" for xs :: bytes and x
    using that by (induction xs) (auto simp: count_list_0_iff)
  have "list_all (\<lambda>f. f = 0 \<or> f = 1) (token_freq token)"
    using c [OF assms(1)] by (auto simp: token_freq_def list_all_iff)
  moreover have "prod_list (map (\<lambda>f. f ^ f) fs) = 1" if "list_all (\<lambda>f. f = 0 \<or> f = 1) fs" for fs :: "nat list"
    using that by (induction fs) auto
  ultimately have "prod_list (map (\<lambda>f. f ^ f) (token_freq token)) = 1" by blast
  then show ?thesis by (simp add: ValidateUserToken_code exact_token_test_def assms(2))
qed

lemma demo_token_ok: "ValidateUserToken demo_token = Inr ()"
proof (rule distinct_token_ok)
  show "distinct demo_token"
    by (auto simp: demo_token_def distinct_map of_nat_byte_eq intro!: inj_onI)
qed (simp add: demo_token_def)

lemma demo_hub_simps [simp]:
  "sm_sessions (hub_sessions (demo_hub pw)) = []" "hub_password (demo_hub pw) = pw"
  "sm_maxConns (hub_sessions (demo_hub pw)) = 2" "sm_ttl (hub_sessions (demo_hub pw)) = 60 * second"
  by (simp_all add: demo_hub_def NewHub_def NewSessionManager_def)

theorem relay_rendezvous_witness:
  "r_sent (relay_run demo_frames (demo_hub []) (meeting demo_frames demo_token 1 2 0 1 @
       exchange demo_frames 1 2 [(True, lit ''hello''), (False, lit ''hi'')])) =
     [(1, 1, Registered demo_token 60 0), (2, 2, Registered demo_token 0 0),
      (2, 1, Msg (lit ''hello'')), (1, 2, Msg (lit ''hi''))]"
proof -
  have "(1 :: int) \<le> 0 + sm_ttl (hub_sessions (demo_hub []))" by (simp add: second_def)
  moreover have "ttl_seconds (sm_ttl (hub_sessions (demo_hub []))) = 60" "ttl_seconds (sm_sessionTTL (hub_sessions (demo_hub []))) = 0"
    by (simp_all add: ttl_seconds_def second_def demo_hub_def NewHub_def NewSessionManager_def)
  ultimately show ?thesis
    using relay_rendezvous [OF demo_frames_law, of "demo_hub []" demo_token 1 2 1 0 "[(True, lit ''hello''), (False, lit ''hi'')]"]
    by (simp add: demo_token_ok forwarded_def)
qed

definition demo_table :: session_manager where
  "demo_table = \<lparr>sm_sessions = [(hex_key [7], \<lparr>rs_listener = 1, rs_dialer = Some 2, rs_expiry = 60, rs_sessionExpiry = zero_time\<rparr>)],
     sm_ttl = 60, sm_sessionTTL = 0, sm_maxConns = 2\<rparr>"

theorem late_join_drops_live_session_witness:
  "snd (Join 61 61 [7] 3 demo_table) = Inl ErrSessionExpired \<and> Recipient [7] 1 (fst (Join 61 61 [7] 3 demo_table)) = Inl ErrTokenNotFound"
proof -
  have "map_of (sm_sessions demo_table) (hex_key [7]) =
      Some \<lparr>rs_listener = 1, rs_dialer = Some 2, rs_expiry = 60, rs_sessionExpiry = zero_time\<rparr>"
    by (simp add: demo_table_def)
  from late_join_drops_live_session [OF this _ _ _ prod.collapse [symmetric], of 2 61 61 3] show ?thesis
    by (simp add: lapsed_def)
qed

theorem stale_unregister_drops_new_session_witness:
  "let r = relay_run demo_frames (demo_hub []) (expiring demo_frames demo_token 1 0 (61 * second) @
         meeting demo_frames demo_token 2 3 (61 * second) (62 * second)) in
   paired_up r demo_token 2 3 \<and> Recipient demo_token 2 (relay_table (relay_step demo_frames r (Steps 1 True))) = Inl ErrTokenNotFound"
  unfolding Let_def
  using stale_unregister_drops_new_session [OF demo_frames_law demo_hub_simps(1,2) _ demo_token_ok _ _ _ refl,
      of 1 2 3 0 "61 * second" "62 * second"]
  by (simp add: second_def)

text \<open>A run with a password: a listener asks for a random token, a dialer joins with it and sends.\<close>

definition demo_events :: "relay_event list" where
  "demo_events =
     (let f = \<lambda>x. the (enc demo_frames x) in
      [Arrive 1, Reads 1 (f (Auth (lit ''pw''))) 0 0 [], Steps 1 True, Reads 1 (f (Register [] MODE_CREATE)) 0 0 [9, 9], Steps 1 True,
       Arrive 2, Reads 2 (f (Auth (lit ''pw''))) 1 1 [], Steps 2 True, Reads 2 (f (Register [9, 9] MODE_JOIN)) 1 1 [], Steps 2 True,
       Reads 2 (f (Msg [5])) 2 2 [], Steps 2 True])"

lemma demo_events_sent: "(2, 1, Msg [5]) \<in> set (r_sent (relay_run demo_frames (demo_hub (lit ''pw'')) demo_events))"
proof -
  have d: "dec demo_frames (the (enc demo_frames f)) = Some f" if "relay_frame_ok f" for f
    using that by (rule dec_enc [OF demo_frames_law])
  have a: "relay_frame_ok (Auth p)" for p by (simp add: relay_frame_ok_def)
  have pw: "lit ''pw'' \<noteq> []" by (simp add: lit_def)
  show ?thesis
    by (simp add: demo_events_def relay_run_def relay_start_def on_read_def handle_first_def d a pw handle_register_def
      Create_def purgeExpired_def Len_def register_reply_def close_chans_def set_sessions_def on_step_def
      write_frame_def set_phase_def Join_def Let_def second_def pump_def Recipient_def)
qed

theorem relay_isolates_witness:
  "\<exists>t. token_of (relay_run demo_frames (demo_hub (lit ''pw'')) demo_events) 2 = Some t \<and>
     token_of (relay_run demo_frames (demo_hub (lit ''pw'')) demo_events) 1 = Some t \<and>
     authorised demo_frames (lit ''pw'') demo_events 2 \<and> authorised demo_frames (lit ''pw'') demo_events 1"
  using relay_isolates [OF _ demo_events_sent] by auto

theorem relay_table_invariant_witness:
  "int (Len (relay_table (relay_run demo_frames (demo_hub (lit ''pw'')) demo_events))) \<le> 2 \<and>
   distinct (map fst (sm_sessions (relay_table (relay_run demo_frames (demo_hub (lit ''pw'')) demo_events))))"
  using relay_table_invariant [OF _ _ refl, of "demo_hub (lit ''pw'')" demo_frames demo_events] by simp

end
