(* ===== verification/Netaddr.thy ===== *)
theory Netaddr
  imports Version
begin

text \<open>
  Addresses in text, as Go's \<^verbatim>\<open>net\<close>, \<^verbatim>\<open>net/netip\<close>, \<^verbatim>\<open>strings\<close> and \<^verbatim>\<open>strconv\<close> read and print them: what the
  signalling broker and the relay's request router use of the standard library. An address is four or
  sixteen bytes.
\<close>

type_synonym ip = bytes

definition dot :: byte where "dot = 46"
definition colon :: byte where "colon = 58"
definition comma :: byte where "comma = 44"
definition open_bracket :: byte where "open_bracket = 91"
definition close_bracket :: byte where "close_bracket = 93"
definition percent :: byte where "percent = 37"

lemmas punctuation = dot_def colon_def comma_def open_bracket_def close_bracket_def percent_def

text \<open>\<^verbatim>\<open>net.IP.To4\<close>: four bytes, or the last four of an IPv4-mapped IPv6 address.\<close>

definition To4 :: "ip \<Rightarrow> ip option" where
  "To4 ip =
     (if length ip = 4 then Some ip
      else if length ip = 16 \<and> take 10 ip = replicate 10 0 \<and> ip ! 10 = 255 \<and> ip ! 11 = 255 then Some (drop 12 ip)
      else None)"

subsection \<open>Printing\<close>

definition dec_text :: "nat \<Rightarrow> bytes" where
  "dec_text n = lit (itoa n)"

definition ip4_String :: "ip \<Rightarrow> bytes" where
  "ip4_String ip =
     dec_text (unat (ip ! 0)) @ [dot] @ dec_text (unat (ip ! 1)) @ [dot] @
     dec_text (unat (ip ! 2)) @ [dot] @ dec_text (unat (ip ! 3))"

text \<open>The eight groups of an IPv6 address, a group in hexadecimal without leading zeros, and the
  longest run of zero groups, the first of several of the same length.\<close>

definition v6_group :: "ip \<Rightarrow> nat \<Rightarrow> nat" where
  "v6_group ip i = unat (ip ! (2 * i)) * 256 + unat (ip ! (2 * i + 1))"

definition hex_digit :: "nat \<Rightarrow> byte" where
  "hex_digit n = (if n < 10 then of_nat (48 + n) else of_nat (87 + n))"

definition hex_text :: "nat \<Rightarrow> bytes" where
  "hex_text x =
     (if 4096 \<le> x then [hex_digit (x div 4096)] else []) @
     (if 256 \<le> x then [hex_digit (x div 256 mod 16)] else []) @
     (if 16 \<le> x then [hex_digit (x div 16 mod 16)] else []) @
     [hex_digit (x mod 16)]"

definition zeros_from :: "ip \<Rightarrow> nat \<Rightarrow> nat" where
  "zeros_from ip i = length (takeWhile (\<lambda>j. v6_group ip j = 0) [i..<8])"

definition zero_run :: "ip \<Rightarrow> nat \<times> nat" where
  "zero_run ip =
     foldl (\<lambda>(start, n) i. if 2 \<le> zeros_from ip i \<and> n < zeros_from ip i then (i, zeros_from ip i) else (start, n))
       (8, 0) [0..<8]"

definition ip6_String :: "ip \<Rightarrow> bytes" where
  "ip6_String ip =
     (let (start, n) = zero_run ip;
          texts = (\<lambda>is. concat (map (\<lambda>i. (if i = hd is then [] else [colon]) @ hex_text (v6_group ip i)) is))
      in if n = 0 then texts [0..<8] else texts [0..<start] @ [colon, colon] @ texts [start + n..<8])"

text \<open>\<^verbatim>\<open>net.IP.String\<close>; an address of another length is printed as \<^verbatim>\<open><nil>\<close> or in hexadecimal.\<close>

definition IP_String :: "ip \<Rightarrow> bytes" where
  "IP_String ip =
     (if ip = [] then lit ''<nil>''
      else case To4 ip of
             Some ip4 \<Rightarrow> ip4_String ip4
           | None \<Rightarrow>
               if length ip = 16 then ip6_String ip
               else lit ''?'' @ concat (map (\<lambda>b. [hex_digit (unat b div 16), hex_digit (unat b mod 16)]) ip))"

definition JoinHostPort :: "bytes \<Rightarrow> bytes \<Rightarrow> bytes" where
  "JoinHostPort host port =
     (if colon \<in> set host then [open_bracket] @ host @ [close_bracket, colon] @ port else host @ [colon] @ port)"

subsection \<open>Parsing\<close>

definition is_dec :: "byte \<Rightarrow> bool" where
  "is_dec c \<longleftrightarrow> 48 \<le> c \<and> c \<le> 57"

definition is_hex :: "byte \<Rightarrow> bool" where
  "is_hex c \<longleftrightarrow> is_dec c \<or> 97 \<le> c \<and> c \<le> 102 \<or> 65 \<le> c \<and> c \<le> 70"

definition hex_val :: "byte \<Rightarrow> nat" where
  "hex_val c = (if is_dec c then unat c - 48 else if 97 \<le> c then unat c - 87 else unat c - 55)"

text \<open>\<^verbatim>\<open>parseIPv4Fields\<close>: the flag says that a field has just begun, then come the value and the number of
  digits of the field and the fields before it.\<close>

fun v4_fields :: "bool \<Rightarrow> nat \<Rightarrow> nat \<Rightarrow> bytes \<Rightarrow> bytes \<Rightarrow> ip option" where
  "v4_fields begun val digLen fs [] = (if length fs < 3 then None else Some (fs @ [of_nat val]))"
| "v4_fields begun val digLen fs (c # s) =
     (if is_dec c then
        (if digLen = 1 \<and> val = 0 then None
         else if 255 < val * 10 + (unat c - 48) then None
         else v4_fields False (val * 10 + (unat c - 48)) (Suc digLen) fs s)
      else if c = dot then
        (if begun \<or> s = [] then None
         else if length fs = 3 then None
         else v4_fields True 0 0 (fs @ [of_nat val]) s)
      else None)"

definition parseIPv4 :: "bytes \<Rightarrow> ip option" where
  "parseIPv4 s = v4_fields True 0 0 [] s"

text \<open>The loop of \<^verbatim>\<open>parseIPv6\<close>: the bytes so far, the position of the ellipsis, and the rest.\<close>

fun v6_loop :: "nat \<Rightarrow> bytes \<Rightarrow> nat option \<Rightarrow> bytes \<Rightarrow> (bytes \<times> nat option \<times> bytes) option" where
  "v6_loop 0 acc ell s = Some (acc, ell, s)"
| "v6_loop (Suc g) acc ell s =
     (let run = takeWhile is_hex s; off = length run; v = foldl (\<lambda>a c. a * 16 + hex_val c) 0 run;
          acc' = acc @ [of_nat (v div 256), of_nat (v mod 256)]; s1 = drop off s; s2 = tl s1
      in if 4 < off \<or> off = 0 then None
         else if s1 \<noteq> [] \<and> hd s1 = dot then
           (if ell = None \<and> length acc \<noteq> 12 \<or> 16 < length acc + 4 then None
            else case parseIPv4 s of None \<Rightarrow> None | Some v4 \<Rightarrow> Some (acc @ v4, ell, []))
         else if s1 = [] then Some (acc', ell, [])
         else if hd s1 \<noteq> colon \<or> s2 = [] then None
         else if hd s2 = colon then
           (if ell \<noteq> None then None
            else if tl s2 = [] then Some (acc', Some (length acc'), [])
            else v6_loop g acc' (Some (length acc')) (tl s2))
         else v6_loop g acc' ell s2)"

definition v6_finish :: "bytes \<times> nat option \<times> bytes \<Rightarrow> ip option" where
  "v6_finish = (\<lambda>(acc, ell, s).
     if s \<noteq> [] then None
     else if length acc < 16 then
       (case ell of None \<Rightarrow> None | Some e \<Rightarrow> Some (take e acc @ replicate (16 - length acc) 0 @ drop e acc))
     else if ell \<noteq> None then None
     else Some acc)"

definition parseIPv6 :: "bytes \<Rightarrow> ip option" where
  "parseIPv6 s =
     (if take 2 s = [colon, colon] then
        (if drop 2 s = [] then Some (replicate 16 0)
         else case v6_loop 8 [] (Some 0) (drop 2 s) of None \<Rightarrow> None | Some r \<Rightarrow> v6_finish r)
      else case v6_loop 8 [] None s of None \<Rightarrow> None | Some r \<Rightarrow> v6_finish r)"

definition mapped :: "ip \<Rightarrow> ip" where
  "mapped ip4 = replicate 10 0 @ [255, 255] @ ip4"

text \<open>\<^verbatim>\<open>net.ParseIP\<close> decides by the first dot, colon or percent sign; an address with a zone is refused.\<close>

definition ParseIP :: "bytes \<Rightarrow> ip option" where
  "ParseIP s =
     (case find (\<lambda>c. c = dot \<or> c = colon \<or> c = percent) s of
        None \<Rightarrow> None
      | Some c \<Rightarrow>
          if c = dot then map_option mapped (parseIPv4 s)
          else if c = colon then (if percent \<in> set s then None else parseIPv6 s)
          else None)"

definition SplitHostPort :: "bytes \<Rightarrow> (bytes \<times> bytes) option" where
  "SplitHostPort hostport =
     (if colon \<notin> set hostport then None
      else
        let port = rev (takeWhile (\<lambda>c. c \<noteq> colon) (rev hostport));
            i = length hostport - length port - 1
        in if hd hostport = open_bracket then
             (let e = length (takeWhile (\<lambda>c. c \<noteq> close_bracket) hostport)
              in if close_bracket \<notin> set hostport then None
                 else if e + 1 \<noteq> i then None
                 else if open_bracket \<in> set (drop 1 hostport) then None
                 else if close_bracket \<in> set (drop (e + 1) hostport) then None
                 else Some (slice hostport 1 e, port))
           else if colon \<in> set (take i hostport) then None
           else if open_bracket \<in> set hostport \<or> close_bracket \<in> set hostport then None
           else Some (take i hostport, port))"

text \<open>\<^verbatim>\<open>strconv.ParseUint(s, 10, 16)\<close>.\<close>

definition dec_val :: "bytes \<Rightarrow> nat" where
  "dec_val s = foldl (\<lambda>v c. v * 10 + (unat c - 48)) 0 s"

definition ParseUint16 :: "bytes \<Rightarrow> (16 word) option" where
  "ParseUint16 s = (if s = [] \<or> \<not> list_all is_dec s \<or> 65535 < dec_val s then None else Some (of_nat (dec_val s)))"

text \<open>\<^verbatim>\<open>strings.TrimSpace\<close>: the white space of Unicode, in UTF-8.\<close>

definition spaces :: "bytes list" where
  "spaces =
     map (\<lambda>b. [b]) [9, 10, 11, 12, 13, 32] @ [[0xC2, 0x85], [0xC2, 0xA0], [0xE1, 0x9A, 0x80]] @
     map (\<lambda>n. [0xE2, 0x80, of_nat n]) ([0x80..<0x8B] @ [0xA8, 0xA9, 0xAF]) @ [[0xE2, 0x81, 0x9F], [0xE3, 0x80, 0x80]]"

fun trim_with :: "bytes list \<Rightarrow> nat \<Rightarrow> bytes \<Rightarrow> bytes" where
  "trim_with ws 0 s = s"
| "trim_with ws (Suc n) s =
     (case find (\<lambda>w. take (length w) s = w) ws of None \<Rightarrow> s | Some w \<Rightarrow> trim_with ws n (drop (length w) s))"

definition TrimSpace :: "bytes \<Rightarrow> bytes" where
  "TrimSpace s =
     (let t = trim_with spaces (length s) s in rev (trim_with (map rev spaces) (length t) (rev t)))"

subsection \<open>Printed addresses read back\<close>

lemma dec_text_rec:
  "dec_text n = (if n < 10 then [of_nat (48 + n)] else dec_text (n div 10) @ [of_nat (48 + n mod 10)])"
proof -
  have c: "(of_char (char_of (48 + d :: nat)) :: byte) = of_nat (48 + d)" if "d < 10" for d
  proof -
    have "(of_char (char_of (48 + d :: nat)) :: byte) = of_nat (of_char (char_of (48 + d)))"
      by (simp only: of_nat_of_char)
    also have "of_char (char_of (48 + d)) = 48 + d" using that by simp
    finally show ?thesis .
  qed
  show ?thesis by (simp add: dec_text_def itoa.simps [of n] lit_def c)
qed

lemma dec_text_small:
  "n < 10 \<Longrightarrow> dec_text n = [of_nat (48 + n)]"
  "10 \<le> n \<Longrightarrow> n < 100 \<Longrightarrow> dec_text n = [of_nat (48 + n div 10), of_nat (48 + n mod 10)]"
  "100 \<le> n \<Longrightarrow> n < 1000 \<Longrightarrow>
     dec_text n = [of_nat (48 + n div 10 div 10), of_nat (48 + n div 10 mod 10), of_nat (48 + n mod 10)]"
proof -
  show one: "n < 10 \<Longrightarrow> dec_text n = [of_nat (48 + n)]" for n
    by (simp add: dec_text_rec [of n])
  show two: "10 \<le> n \<Longrightarrow> n < 100 \<Longrightarrow> dec_text n = [of_nat (48 + n div 10), of_nat (48 + n mod 10)]" for n
    by (simp add: dec_text_rec [of n] one less_mult_imp_div_less)
  show "100 \<le> n \<Longrightarrow> n < 1000 \<Longrightarrow>
     dec_text n = [of_nat (48 + n div 10 div 10), of_nat (48 + n div 10 mod 10), of_nat (48 + n mod 10)]"
    using two [of "n div 10"] by (simp add: dec_text_rec [of n] less_mult_imp_div_less del: of_nat_add)
qed

lemma dec_bytes:
  assumes "d < 10"
  shows "is_dec (of_nat (48 + d))" "unat (of_nat (48 + d) :: byte) - 48 = d"
proof -
  have u: "unat (of_nat (48 + d) :: byte) = 48 + d"
    using assms by (simp add: unat_of_nat del: of_nat_add)
  then show "unat (of_nat (48 + d) :: byte) - 48 = d" by simp
  have "unat (48 :: byte) = 48" "unat (57 :: byte) = 57" by simp_all
  with u assms show "is_dec (of_nat (48 + d))"
    unfolding is_dec_def word_le_nat_alt by simp
qed

lemma v4_digit:
  assumes "d < 10" "\<not> (digLen = 1 \<and> val = 0)" "val * 10 + d \<le> 255"
  shows "v4_fields begun val digLen fs (of_nat (48 + d) # s) = v4_fields False (val * 10 + d) (Suc digLen) fs s"
  using assms(2,3) dec_bytes [OF assms(1)] by (auto simp del: of_nat_add)

lemma v4_reads_field:
  assumes "n < 256"
  obtains k where "\<And>fs s. v4_fields True 0 0 fs (dec_text n @ s) = v4_fields False n k fs s"
proof -
  consider "n < 10" | "10 \<le> n" "n < 100" | "100 \<le> n" "n < 1000" using assms by linarith
  then show thesis
  proof cases
    case 1
    show thesis
      by (rule that [of 1]) (use 1 in \<open>simp add: dec_text_small v4_digit del: of_nat_add v4_fields.simps\<close>)
  next
    case 2
    have m: "n div 10 < 10" "n div 10 * 10 + n mod 10 = n" "n div 10 \<noteq> 0" using 2 by auto
    show thesis
      by (rule that [of 2]) (use 2 m assms in \<open>simp add: dec_text_small v4_digit numeral_2_eq_2 del: of_nat_add v4_fields.simps\<close>)
  next
    case 3
    have m: "n div 10 div 10 < 10" "n div 10 div 10 * 10 + n div 10 mod 10 = n div 10" "n div 10 * 10 + n mod 10 = n"
      using 3 by (simp_all add: less_mult_imp_div_less)
    have z: "n div 10 div 10 \<noteq> 0" "n div 10 \<noteq> 0" "n div 10 \<le> 255" using 3 assms by simp_all
    show thesis
      by (rule that [of 3]) (use 3 m z assms in \<open>simp add: dec_text_small v4_digit numeral_3_eq_3 del: of_nat_add v4_fields.simps\<close>)
  qed
qed

lemma dot_not_dec: "\<not> is_dec dot" "dot \<noteq> colon"
  by (simp_all add: is_dec_def punctuation)

lemma v4_dot:
  assumes "s \<noteq> []" "length fs < 3"
  shows "v4_fields False n k fs (dot # s) = v4_fields True 0 0 (fs @ [of_nat n]) s"
  using assms dot_not_dec by simp

lemma dec_text_nonempty [simp]: "dec_text n \<noteq> []"
  using itoa_digits [of n] by (simp add: dec_text_def lit_def)

lemma parseIPv4_ip4_String:
  assumes "length ip = 4"
  shows "parseIPv4 (ip4_String ip) = Some ip"
proof -
  obtain a b c d where ip: "ip = [a, b, c, d]"
    using assms by (auto simp: numeral_eq_Suc length_Suc_conv)
  have step: "v4_fields True 0 0 fs (dec_text (unat x) @ dot # s) = v4_fields True 0 0 (fs @ [x]) s"
    if "s \<noteq> []" "length fs < 3" for fs s and x :: byte
  proof -
    obtain k where "v4_fields True 0 0 fs (dec_text (unat x) @ dot # s) = v4_fields False (unat x) k fs (dot # s)"
      using v4_reads_field [OF unat_byte [of x]] by metis
    then show ?thesis by (simp add: v4_dot [OF that] del: v4_fields.simps)
  qed
  have last: "v4_fields True 0 0 fs (dec_text (unat x)) = Some (fs @ [x])" if "length fs = 3" for fs and x :: byte
  proof -
    obtain k where "v4_fields True 0 0 fs (dec_text (unat x) @ []) = v4_fields False (unat x) k fs []"
      using v4_reads_field [OF unat_byte [of x]] by metis
    with that show ?thesis by simp
  qed
  show ?thesis
    by (simp add: ip parseIPv4_def ip4_String_def step last numeral_eq_Suc del: v4_fields.simps)
qed

lemma dec_text_dec: "list_all is_dec (dec_text n)"
proof (induction n rule: less_induct)
  case (less n)
  show ?case
    using less [of "n div 10"] by (subst dec_text_rec) (auto simp: dec_bytes simp del: of_nat_add)
qed

lemma dec_val_dec_text: "dec_val (dec_text n) = n"
proof (induction n rule: less_induct)
  case (less n)
  show ?case
    using less [of "n div 10"] by (subst dec_text_rec) (auto simp: dec_val_def dec_bytes simp del: of_nat_add)
qed

lemma ParseUint16_dec_text: "ParseUint16 (dec_text (unat p)) = Some p"
proof -
  have "unat p < 65536" using unsigned_less [of p] by simp
  then show ?thesis by (simp add: ParseUint16_def dec_text_dec dec_val_dec_text)
qed

lemma dec_text_plain: "colon \<notin> set (dec_text n)" "open_bracket \<notin> set (dec_text n)" "close_bracket \<notin> set (dec_text n)"
    "percent \<notin> set (dec_text n)" "0 \<notin> set (dec_text n)"
  using dec_text_dec [of n] by (auto simp: list_all_iff is_dec_def punctuation)

lemma ip4_String_plain: "colon \<notin> set (ip4_String ip)" "open_bracket \<notin> set (ip4_String ip)" "close_bracket \<notin> set (ip4_String ip)"
    "0 \<notin> set (ip4_String ip)"
  by (simp_all add: ip4_String_def dec_text_plain) (simp_all add: punctuation)

lemma SplitHostPort_JoinHostPort:
  assumes "colon \<notin> set host" "open_bracket \<notin> set host" "close_bracket \<notin> set host" "host \<noteq> []"
    and "colon \<notin> set port" "open_bracket \<notin> set port" "close_bracket \<notin> set port"
  shows "SplitHostPort (JoinHostPort host port) = Some (host, port)"
proof -
  have t: "takeWhile (\<lambda>c. c \<noteq> colon) (rev port @ colon # rev host) = rev port"
    using assms(5) by (simp add: takeWhile_append)
  have h: "hd (host @ colon # port) \<noteq> open_bracket" using assms(2,4) by (cases host) auto
  have c: "colon \<noteq> open_bracket" "colon \<noteq> close_bracket" by (simp_all add: punctuation)
  show ?thesis
    using assms(1,2,3,6,7) c h by (simp add: SplitHostPort_def JoinHostPort_def Let_def t)
qed

lemma ParseIP_ip4_String:
  assumes "length ip = 4"
  shows "ParseIP (ip4_String ip) = Some (mapped ip)"
proof -
  have "find (\<lambda>c. c = dot \<or> c = colon \<or> c = percent) (s @ dot # t) = Some dot" if "list_all is_dec s" for s t
    using that by (induction s) (auto simp: is_dec_def punctuation)
  then have "find (\<lambda>c. c = dot \<or> c = colon \<or> c = percent) (ip4_String ip) = Some dot"
    by (simp add: ip4_String_def dec_text_dec)
  then show ?thesis by (simp add: ParseIP_def parseIPv4_ip4_String [OF assms])
qed

lemma To4_mapped [simp]: "length ip = 4 \<Longrightarrow> To4 (mapped ip) = Some ip"
  by (simp add: To4_def mapped_def nth_append)

lemma IP_String_mapped: "length ip = 4 \<Longrightarrow> IP_String (mapped ip) = ip4_String ip"
  by (simp add: IP_String_def) (simp add: mapped_def)

lemma ip4_String_inject:
  assumes "length a = 4" "length b = 4"
  shows "ip4_String a = ip4_String b \<longleftrightarrow> a = b"
  using parseIPv4_ip4_String [OF assms(1)] parseIPv4_ip4_String [OF assms(2)] by (metis option.inject)

end
