(* ===== verification/Broker.thy ===== *)
theory Broker
  imports Relay Netaddr
begin

text \<open>
  The broker that introduces two peers to each other over UDP: the packets of
  pkg/relayconn/broker/codec.go, the server of cmd/relay/internal/broker/broker.go, and the decoding
  side of the client in pkg/relayconn/broker/client.go. The server's loop is one goroutine: it reacts
  to one datagram at a time, and purges when a read times out.
\<close>

subsection \<open>Packets\<close>

definition broker_magic :: bytes where "broker_magic = lit ''KBRK''"
definition broker_ver :: byte where "broker_ver = 1"
definition opcodeEcho :: byte where "opcodeEcho = 1"
definition opcodeRegister :: byte where "opcodeRegister = 2"
definition opcodeNotify :: byte where "opcodeNotify = 3"

definition tokenSize :: nat where "tokenSize = 16"
definition x25519KeySize :: nat where "x25519KeySize = 32"
definition ipv4Size :: nat where "ipv4Size = 4"
definition portSize :: nat where "portSize = 2"
definition broker_nonceSize :: nat where "broker_nonceSize = 24"
definition headerSize :: nat where "headerSize = 6"
definition notifyHeaderSize :: nat where "notifyHeaderSize = 38"
definition registerSize :: nat where "registerSize = 60"
definition peerMatchedPayloadSize :: nat where "peerMatchedPayloadSize = 1 + tokenSize + x25519KeySize + ipv4Size + portSize"
definition tokenAssignedPayloadSize :: nat where "tokenAssignedPayloadSize = 1 + tokenSize + 4"

definition NotifyPeerMatched :: byte where "NotifyPeerMatched = 1"
definition NotifyTokenAssigned :: byte where "NotifyTokenAssigned = 2"

datatype broker_error =
    ErrShortPacket | ErrBadMagic | ErrBadVersion | ErrBadOpcode | ErrBrokerCrypto | ErrNotAssigned | ErrBrokerRead
  | ErrMalformedEcho

definition bytesHasPrefix :: "bytes \<Rightarrow> bytes \<Rightarrow> bool" where
  "bytesHasPrefix b prefix \<longleftrightarrow> length prefix \<le> length b \<and> take (length prefix) b = prefix"

definition padOrTruncate :: "bytes \<Rightarrow> nat \<Rightarrow> bytes" where
  "padOrTruncate b n = take n (b @ replicate n 0)"

text \<open>The checks every parser starts with, at its own minimal length and opcode.\<close>

definition check_header :: "nat \<Rightarrow> byte \<Rightarrow> bytes \<Rightarrow> broker_error + unit" where
  "check_header minSize opcode pkt =
     (if length pkt < minSize then Inl ErrShortPacket
      else if \<not> bytesHasPrefix pkt broker_magic then Inl ErrBadMagic
      else if pkt ! 4 \<noteq> broker_ver then Inl ErrBadVersion
      else if pkt ! 5 \<noteq> opcode then Inl ErrBadOpcode
      else Inr ())"

definition ParseEchoRequest :: "bytes \<Rightarrow> broker_error + unit" where
  "ParseEchoRequest pkt = check_header headerSize opcodeEcho pkt"

definition ParseRegister :: "bytes \<Rightarrow> broker_error + bytes \<times> bytes \<times> bytes \<times> 16 word" where
  "ParseRegister pkt =
     (case check_header registerSize opcodeRegister pkt of
        Inl e \<Rightarrow> Inl e
      | Inr _ \<Rightarrow>
          Inr (slice pkt headerSize (headerSize + tokenSize),
               slice pkt (headerSize + tokenSize) (headerSize + tokenSize + x25519KeySize),
               slice pkt (headerSize + tokenSize + x25519KeySize) (headerSize + tokenSize + x25519KeySize + ipv4Size),
               get_uint16 (slice pkt (headerSize + tokenSize + x25519KeySize + ipv4Size) registerSize)))"

definition BuildRegister :: "bytes \<Rightarrow> bytes \<Rightarrow> bytes \<Rightarrow> 16 word \<Rightarrow> bytes" where
  "BuildRegister token peerEphPub ip port =
     (let ip4 = (case To4 ip of None \<Rightarrow> replicate ipv4Size 0 | Some x \<Rightarrow> x) in
      broker_magic @ [broker_ver, opcodeRegister] @ padOrTruncate token tokenSize @
      padOrTruncate peerEphPub x25519KeySize @ padOrTruncate ip4 ipv4Size @ put_uint16 port)"

definition buildNotify :: "bytes \<Rightarrow> bytes \<Rightarrow> bytes \<Rightarrow> bytes" where
  "buildNotify brokerEphPub nonce box =
     broker_magic @ [broker_ver, opcodeNotify] @ brokerEphPub @ nonce @ box"

definition BuildNotifyPeerMatched :: "bytes \<Rightarrow> bytes \<Rightarrow> bytes \<Rightarrow> bytes" where
  "BuildNotifyPeerMatched brokerEphPub nonce box = buildNotify brokerEphPub nonce box"

definition BuildNotifyTokenAssigned :: "bytes \<Rightarrow> bytes \<Rightarrow> bytes \<Rightarrow> bytes" where
  "BuildNotifyTokenAssigned brokerEphPub nonce box = buildNotify brokerEphPub nonce box"

definition ParseNotify :: "bytes \<Rightarrow> broker_error + bytes \<times> bytes \<times> bytes" where
  "ParseNotify pkt =
     (case check_header (notifyHeaderSize + broker_nonceSize) opcodeNotify pkt of
        Inl e \<Rightarrow> Inl e
      | Inr _ \<Rightarrow>
          Inr (slice pkt headerSize notifyHeaderSize, slice pkt notifyHeaderSize (notifyHeaderSize + broker_nonceSize),
               drop (notifyHeaderSize + broker_nonceSize) pkt))"

text \<open>A nil address is padded to the zero one.\<close>

definition PeerMatchedPlaintext :: "bytes \<Rightarrow> bytes \<Rightarrow> bytes \<Rightarrow> 16 word \<Rightarrow> bytes" where
  "PeerMatchedPlaintext token otherPeerEphPub ip port =
     (let ip4 = padOrTruncate (case To4 ip of None \<Rightarrow> [] | Some x \<Rightarrow> x) ipv4Size in
      [NotifyPeerMatched] @ padOrTruncate token tokenSize @ padOrTruncate otherPeerEphPub x25519KeySize @ ip4 @ put_uint16 port)"

definition TokenAssignedPlaintext :: "bytes \<Rightarrow> 32 word \<Rightarrow> bytes" where
  "TokenAssignedPlaintext token ttlSeconds =
     [NotifyTokenAssigned] @ padOrTruncate token tokenSize @ put_uint32 ttlSeconds"

datatype notify_payload =
    PeerMatched bytes bytes bytes "16 word"
  | TokenAssigned bytes "32 word"

definition ParseNotifyPayload :: "bytes \<Rightarrow> broker_error + notify_payload" where
  "ParseNotifyPayload plaintext =
     (if length plaintext < 1 then Inl ErrShortPacket
      else if plaintext ! 0 = NotifyPeerMatched then
        (if length plaintext < peerMatchedPayloadSize then Inl ErrShortPacket
         else Inr (PeerMatched (slice plaintext 1 (1 + tokenSize))
                (slice plaintext (1 + tokenSize) (1 + tokenSize + x25519KeySize))
                (slice plaintext (1 + tokenSize + x25519KeySize) (1 + tokenSize + x25519KeySize + ipv4Size))
                (get_uint16 (slice plaintext (1 + tokenSize + x25519KeySize + ipv4Size) peerMatchedPayloadSize))))
      else if plaintext ! 0 = NotifyTokenAssigned then
        (if length plaintext < tokenAssignedPayloadSize then Inl ErrShortPacket
         else Inr (TokenAssigned (slice plaintext 1 (1 + tokenSize))
                (get_uint32 (slice plaintext (1 + tokenSize) tokenAssignedPayloadSize))))
      else Inl ErrBadOpcode)"

definition buildAAD :: "bytes \<Rightarrow> bytes" where
  "buildAAD brokerEphPub = broker_magic @ [broker_ver, opcodeNotify] @ brokerEphPub"

text \<open>\<^verbatim>\<open>SealNotify\<close> with the nonce it draws.\<close>

definition SealNotify :: "dh_crypto \<Rightarrow> bytes \<Rightarrow> bytes \<Rightarrow> bytes \<Rightarrow> bytes \<Rightarrow> bytes \<times> bytes" where
  "SealNotify dh nonce aeadKey brokerEphPub plaintext =
     (nonce, aad_seal dh aeadKey nonce plaintext (buildAAD brokerEphPub))"

definition OpenNotify :: "dh_crypto \<Rightarrow> bytes \<Rightarrow> bytes \<Rightarrow> bytes \<Rightarrow> bytes \<Rightarrow> broker_error + bytes" where
  "OpenNotify dh aeadKey brokerEphPub nonce box =
     (if length aeadKey \<noteq> 32 then Inl ErrBrokerCrypto
      else if length nonce \<noteq> broker_nonceSize then Inl ErrBrokerCrypto
      else case aad_open dh aeadKey nonce box (buildAAD brokerEphPub) of
             None \<Rightarrow> Inl ErrBrokerCrypto
           | Some p \<Rightarrow> Inr p)"

subsection \<open>The server\<close>

record udp_addr =
  ua_IP :: bytes
  ua_Port :: "16 word"

record registration =
  rg_addr :: udp_addr
  rg_peerEphPub :: bytes
  rg_expires :: gotime

record 'l broker =
  br_registry :: "(bytes \<times> registration) list"
  br_ttl :: duration
  br_allow :: "'l rate_limiter option"

definition broker_New :: "duration \<Rightarrow> 'l rate_limiter option \<Rightarrow> 'l broker" where
  "broker_New registrationTTL allow =
     \<lparr>br_registry = [], br_ttl = (if registrationTTL \<le> 0 then 60 * second else registrationTTL), br_allow = allow\<rparr>"

definition isZeroBytes :: "bytes \<Rightarrow> bool" where
  "isZeroBytes b \<longleftrightarrow> list_all (\<lambda>x. x = 0) b"

definition validIPv4 :: "bytes \<Rightarrow> bool" where
  "validIPv4 ip = (case To4 ip of None \<Rightarrow> False | Some ip4 \<Rightarrow> \<not> isZeroBytes ip4)"

definition ipv4FromAddr :: "udp_addr \<Rightarrow> udp_addr option" where
  "ipv4FromAddr addr = (case To4 (ua_IP addr) of None \<Rightarrow> None | Some ip \<Rightarrow> Some \<lparr>ua_IP = ip, ua_Port = ua_Port addr\<rparr>)"

text \<open>The key the rate limiter is asked with: the text of the address, or nothing when it is not IPv4.\<close>

definition ipv4KeyFromAddr :: "udp_addr \<Rightarrow> bytes" where
  "ipv4KeyFromAddr addr = (case To4 (ua_IP addr) of None \<Rightarrow> [] | Some ip \<Rightarrow> IP_String ip)"

definition broker_allow :: "'l lru \<Rightarrow> gotime \<Rightarrow> udp_addr \<Rightarrow> 'l broker \<Rightarrow> 'l broker \<times> bool" where
  "broker_allow c now src b =
     (case br_allow b of
        None \<Rightarrow> (b, True)
      | Some rl \<Rightarrow> (let (rl', ok) = Allow c now (ipv4KeyFromAddr src) rl in (b\<lparr>br_allow := Some rl'\<rparr>, ok)))"

text \<open>The draws of one \<^verbatim>\<open>sendNotify\<close>: the seed of its key pair and the nonce. The result is what is
  written to the socket.\<close>

type_synonym notify_draws = "bytes \<times> bytes"
type_synonym datagrams = "(udp_addr \<times> bytes) list"

definition sendNotify :: "crypto \<Rightarrow> dh_crypto \<Rightarrow> notify_draws \<Rightarrow> bytes \<Rightarrow> bytes \<Rightarrow> udp_addr \<Rightarrow> datagrams" where
  "sendNotify cr dh draws plaintext peerEphPub dst =
     (let brokerECDH = x_generate dh (fst draws) in
      case ecdh_Exchange dh brokerECDH peerEphPub of
        Inl _ \<Rightarrow> []
      | Inr shared \<Rightarrow>
          let aeadKey = sha256_sum cr shared;
              brokerEphPub = ecdh_MarshalPublicKey dh brokerECDH;
              (nonce, box) = SealNotify dh (snd draws) aeadKey brokerEphPub plaintext;
              pkt = (if hd plaintext = NotifyPeerMatched then BuildNotifyPeerMatched brokerEphPub nonce box
                     else if hd plaintext = NotifyTokenAssigned then BuildNotifyTokenAssigned brokerEphPub nonce box
                     else [])
          in [(dst, pkt)])"

definition sendTokenAssigned ::
  "crypto \<Rightarrow> dh_crypto \<Rightarrow> notify_draws \<Rightarrow> bytes \<Rightarrow> bytes \<Rightarrow> udp_addr \<Rightarrow> 'l broker \<Rightarrow> datagrams" where
  "sendTokenAssigned cr dh draws token peerEphPub dst b =
     sendNotify cr dh draws (TokenAssignedPlaintext token (ttl_seconds (br_ttl b))) peerEphPub dst"

definition sendPeerMatched ::
  "crypto \<Rightarrow> dh_crypto \<Rightarrow> notify_draws \<Rightarrow> notify_draws \<Rightarrow> bytes \<Rightarrow> registration \<Rightarrow> bytes \<Rightarrow> udp_addr \<Rightarrow>
     bytes \<Rightarrow> 16 word \<Rightarrow> datagrams" where
  "sendPeerMatched cr dh draws1 draws2 token held newPub newAddr newIP newPort =
     (case ipv4FromAddr (rg_addr held) of
        None \<Rightarrow> []
      | Some heldIP \<Rightarrow>
          sendNotify cr dh draws1 (PeerMatchedPlaintext token (rg_peerEphPub held) (ua_IP heldIP) (ua_Port (rg_addr held)))
            newPub newAddr @
          sendNotify cr dh draws2 (PeerMatchedPlaintext token newPub newIP newPort) (rg_peerEphPub held) (rg_addr held))"

definition handleRandomRegister ::
  "crypto \<Rightarrow> dh_crypto \<Rightarrow> gotime \<Rightarrow> bytes \<Rightarrow> notify_draws \<Rightarrow> bytes \<Rightarrow> udp_addr \<Rightarrow> 'l broker \<Rightarrow> 'l broker \<times> datagrams" where
  "handleRandomRegister cr dh now key draws peerEphPub src b =
     (let pub = padOrTruncate peerEphPub 32;
          b' = b\<lparr>br_registry := AList.update (hex_key key)
                   \<lparr>rg_addr = src, rg_peerEphPub = pub, rg_expires = now + br_ttl b\<rparr> (br_registry b)\<rparr>
      in (b', sendTokenAssigned cr dh draws key pub src b'))"

definition handleStaticRegister ::
  "crypto \<Rightarrow> dh_crypto \<Rightarrow> gotime \<Rightarrow> notify_draws \<Rightarrow> notify_draws \<Rightarrow> bytes \<Rightarrow> bytes \<Rightarrow> udp_addr \<Rightarrow> bytes \<Rightarrow> 16 word \<Rightarrow>
     'l broker \<Rightarrow> 'l broker \<times> datagrams" where
  "handleStaticRegister cr dh now draws1 draws2 token peerEphPub src ip port b =
     (let pub = padOrTruncate peerEphPub 32 in
      case map_of (br_registry b) (hex_key token) of
        Some held \<Rightarrow>
          if rg_peerEphPub held = pub
          then (b\<lparr>br_registry := AList.update (hex_key token) (held\<lparr>rg_expires := now + br_ttl b\<rparr>) (br_registry b)\<rparr>, [])
          else (b\<lparr>br_registry := AList.delete (hex_key token) (br_registry b)\<rparr>,
                sendPeerMatched cr dh draws1 draws2 token held pub src ip port)
      | None \<Rightarrow>
          (b\<lparr>br_registry := AList.update (hex_key token)
               \<lparr>rg_addr = src, rg_peerEphPub = pub, rg_expires = now + br_ttl b\<rparr> (br_registry b)\<rparr>, []))"

text \<open>What the server draws and reads while it handles one datagram.\<close>

record broker_draws =
  bd_now :: gotime
  bd_key :: bytes
  bd_notify1 :: notify_draws
  bd_notify2 :: notify_draws

definition handleRegister ::
  "crypto \<Rightarrow> dh_crypto \<Rightarrow> 'l lru \<Rightarrow> broker_draws \<Rightarrow> bytes \<Rightarrow> udp_addr \<Rightarrow> 'l broker \<Rightarrow> 'l broker \<times> datagrams" where
  "handleRegister cr dh c d pkt src b =
     (case broker_allow c (bd_now d) src b of
        (b, False) \<Rightarrow> (b, [])
      | (b, True) \<Rightarrow>
          (case ParseRegister pkt of
             Inl _ \<Rightarrow> (b, [])
           | Inr (token, peerEphPub, ip, port) \<Rightarrow>
               if \<not> validIPv4 ip \<or> port = 0 then (b, [])
               else if isZeroBytes peerEphPub then (b, [])
               else
                 (case ipv4FromAddr src of
                    None \<Rightarrow> (b, [])
                  | Some src4 \<Rightarrow>
                      if isZeroBytes token
                      then handleRandomRegister cr dh (bd_now d) (bd_key d) (bd_notify1 d) peerEphPub src4 b
                      else handleStaticRegister cr dh (bd_now d) (bd_notify1 d) (bd_notify2 d) token peerEphPub src4 ip port b)))"

definition BuildEchoResponse :: "udp_addr \<Rightarrow> bytes" where
  "BuildEchoResponse addr =
     JoinHostPort (IP_String (case To4 (ua_IP addr) of None \<Rightarrow> ua_IP addr | Some ip4 \<Rightarrow> ip4))
       (dec_text (unat (ua_Port addr))) @ [0]"

definition handleEcho :: "'l lru \<Rightarrow> broker_draws \<Rightarrow> udp_addr \<Rightarrow> 'l broker \<Rightarrow> 'l broker \<times> datagrams" where
  "handleEcho c d src b =
     (case broker_allow c (bd_now d) src b of
        (b, False) \<Rightarrow> (b, [])
      | (b, True) \<Rightarrow> (b, [(src, BuildEchoResponse src)]))"

definition dispatch ::
  "crypto \<Rightarrow> dh_crypto \<Rightarrow> 'l lru \<Rightarrow> broker_draws \<Rightarrow> bytes \<Rightarrow> udp_addr \<Rightarrow> 'l broker \<Rightarrow> 'l broker \<times> datagrams" where
  "dispatch cr dh c d pkt src b =
     (if length pkt < 6 then (b, [])
      else if take 4 pkt \<noteq> broker_magic then (b, [])
      else if pkt ! 4 \<noteq> 1 then (b, [])
      else if pkt ! 5 = 1 then handleEcho c d src b
      else if pkt ! 5 = 2 then handleRegister cr dh c d pkt src b
      else (b, []))"

definition broker_purgeExpired :: "gotime \<Rightarrow> 'l broker \<Rightarrow> 'l broker" where
  "broker_purgeExpired now b = b\<lparr>br_registry := filter (\<lambda>(k, r). \<not> now > rg_expires r) (br_registry b)\<rparr>"

text \<open>One turn of \<^verbatim>\<open>Run\<close>: a datagram, or the read deadline.\<close>

datatype broker_event = Datagram bytes udp_addr broker_draws | Deadline gotime

fun broker_turn ::
  "crypto \<Rightarrow> dh_crypto \<Rightarrow> 'l lru \<Rightarrow> 'l broker \<times> datagrams \<Rightarrow> broker_event \<Rightarrow> 'l broker \<times> datagrams" where
  "broker_turn cr dh c (b, out) (Datagram pkt src d) =
     (let (b', out') = dispatch cr dh c d (take 1500 pkt) src b in (b', out @ out'))"
| "broker_turn cr dh c (b, out) (Deadline now) = (broker_purgeExpired now b, out)"

definition broker_Run ::
  "crypto \<Rightarrow> dh_crypto \<Rightarrow> 'l lru \<Rightarrow> 'l broker \<Rightarrow> broker_event list \<Rightarrow> 'l broker \<times> datagrams" where
  "broker_Run cr dh c b es = foldl (broker_turn cr dh c) (b, []) es"

subsection \<open>The client's side\<close>

text \<open>The client's key pair.\<close>

record broker_client =
  bc_key :: bytes
  bc_pub :: bytes

definition NewClientWithKey :: "dh_crypto \<Rightarrow> bytes \<Rightarrow> broker_client" where
  "NewClientWithKey dh key = \<lparr>bc_key = key, bc_pub = x_public dh key\<rparr>"

definition openNotify :: "crypto \<Rightarrow> dh_crypto \<Rightarrow> broker_client \<Rightarrow> bytes \<Rightarrow> broker_error + bytes" where
  "openNotify cr dh cl pkt =
     (case ParseNotify pkt of
        Inl e \<Rightarrow> Inl e
      | Inr (brokerEphPub, nonce, box) \<Rightarrow>
          if \<not> x_valid dh brokerEphPub then Inl ErrBrokerCrypto
          else (case x_shared dh (bc_key cl) brokerEphPub of
                  None \<Rightarrow> Inl ErrBrokerCrypto
                | Some shared \<Rightarrow> OpenNotify dh (sha256_sum cr shared) brokerEphPub nonce box))"

definition decodeNotify :: "crypto \<Rightarrow> dh_crypto \<Rightarrow> broker_client \<Rightarrow> bytes \<Rightarrow> broker_error + notify_payload" where
  "decodeNotify cr dh cl pkt =
     (case openNotify cr dh cl pkt of Inl e \<Rightarrow> Inl e | Inr plaintext \<Rightarrow> ParseNotifyPayload plaintext)"

definition decodeAssignedToken :: "crypto \<Rightarrow> dh_crypto \<Rightarrow> broker_client \<Rightarrow> bytes \<Rightarrow> broker_error + bytes" where
  "decodeAssignedToken cr dh cl pkt =
     (case openNotify cr dh cl pkt of
        Inl e \<Rightarrow> Inl e
      | Inr plaintext \<Rightarrow>
          (case ParseNotifyPayload plaintext of
             Inl e \<Rightarrow> Inl e
           | Inr (TokenAssigned token _) \<Rightarrow> Inr token
           | Inr (PeerMatched _ _ _ _) \<Rightarrow> Inl ErrNotAssigned))"

text \<open>\<^verbatim>\<open>Client.Register\<close> from the datagram it reads back, if any: the datagram it sends, and its result. In
  static mode the whole buffer is decoded, not the part that was read.\<close>

definition read_buffer :: "bytes \<Rightarrow> bytes" where
  "read_buffer pkt = take 1500 (pkt @ replicate 1500 0)"

definition Client_Register ::
  "crypto \<Rightarrow> dh_crypto \<Rightarrow> broker_client \<Rightarrow> bytes \<Rightarrow> bytes \<Rightarrow> 16 word \<Rightarrow> bytes option \<Rightarrow> bytes \<times> (broker_error + bytes)" where
  "Client_Register cr dh cl token claimIP claimPort reply =
     (BuildRegister token (bc_pub cl) claimIP claimPort,
      if length token \<noteq> 0 then
        (case reply of Some pkt \<Rightarrow> decodeAssignedToken cr dh cl (read_buffer pkt) | None \<Rightarrow> Inr token)
      else
        (case reply of Some pkt \<Rightarrow> decodeAssignedToken cr dh cl (take 1500 pkt) | None \<Rightarrow> Inl ErrBrokerRead))"

text \<open>\<^verbatim>\<open>Client.Echo\<close>, likewise, and \<^verbatim>\<open>Client.Listen\<close> from the datagrams that arrive at its socket.\<close>

definition buildEchoRequest :: bytes where
  "buildEchoRequest = lit ''KBRK'' @ [1, 1]"

definition parseEchoResponse :: "bytes \<Rightarrow> broker_error + ip \<times> 16 word" where
  "parseEchoResponse resp =
     (case SplitHostPort (takeWhile (\<lambda>c. c \<noteq> 0) resp) of
        None \<Rightarrow> Inl ErrMalformedEcho
      | Some (host, portStr) \<Rightarrow>
          (case ParseIP host of
             None \<Rightarrow> Inl ErrMalformedEcho
           | Some ip \<Rightarrow>
               (case ParseUint16 portStr of None \<Rightarrow> Inl ErrMalformedEcho | Some port \<Rightarrow> Inr (ip, port))))"

definition Client_Echo :: "bytes option \<Rightarrow> bytes \<times> (broker_error + ip \<times> 16 word)" where
  "Client_Echo reply =
     (buildEchoRequest, case reply of None \<Rightarrow> Inl ErrBrokerRead | Some pkt \<Rightarrow> parseEchoResponse (take 64 pkt))"

fun Client_Listen :: "crypto \<Rightarrow> dh_crypto \<Rightarrow> broker_client \<Rightarrow> bytes list \<Rightarrow> notify_payload list" where
  "Client_Listen cr dh cl [] = []"
| "Client_Listen cr dh cl (pkt # pkts) =
     (case decodeNotify cr dh cl (take 1500 pkt) of
        Inl _ \<Rightarrow> Client_Listen cr dh cl pkts
      | Inr payload \<Rightarrow> payload # Client_Listen cr dh cl pkts)"

subsection \<open>Packets and their parsers\<close>

lemmas broker_sizes = tokenSize_def x25519KeySize_def ipv4Size_def portSize_def broker_nonceSize_def headerSize_def
  notifyHeaderSize_def registerSize_def peerMatchedPayloadSize_def tokenAssignedPayloadSize_def

lemma length_padOrTruncate [simp]: "length (padOrTruncate b n) = n"
  by (simp add: padOrTruncate_def)

lemma padOrTruncate_same [simp]: "length b = n \<Longrightarrow> padOrTruncate b n = b"
  by (simp add: padOrTruncate_def)

lemma length_To4: "To4 ip = Some x \<Longrightarrow> length x = 4"
  by (auto simp: To4_def split: if_splits)

lemma To4_four [simp]: "length ip = 4 \<Longrightarrow> To4 ip = Some ip"
  by (simp add: To4_def)

lemma magic_bytes: "broker_magic = [75, 66, 82, 75]"
  by (simp add: broker_magic_def lit_def of_char_def)

lemma check_header_built:
  "check_header n opcode (broker_magic @ [broker_ver, opcode'] @ rest) =
     (if 6 + length rest < n then Inl ErrShortPacket else if opcode' \<noteq> opcode then Inl ErrBadOpcode else Inr ())"
  by (simp add: check_header_def magic_bytes bytesHasPrefix_def)

lemma slice_skip: "length a = i \<Longrightarrow> slice (a @ b) (i + j) (i + k) = slice b j k"
  by (simp add: slice_def)

lemma slice_here: "length a = n \<Longrightarrow> slice (a @ b) 0 n = a"
  by (simp add: slice_def)

lemma BuildRegister_eq:
  assumes "length token = 16" "length pub = 32" "To4 ip = Some ip4"
  shows "BuildRegister token pub ip port = broker_magic @ [broker_ver, opcodeRegister] @ token @ pub @ ip4 @ put_uint16 port"
  using assms length_To4 [OF assms(3)] by (simp add: BuildRegister_def broker_sizes)

lemma ParseRegister_BuildRegister:
  assumes "length token = 16" "length pub = 32" "To4 ip = Some ip4"
  shows "ParseRegister (BuildRegister token pub ip port) = Inr (token, pub, ip4, port)"
proof -
  have l: "length ip4 = 4" by (rule length_To4 [OF assms(3)])
  show ?thesis
    unfolding BuildRegister_eq [OF assms] ParseRegister_def check_header_built
    by (simp add: broker_sizes assms l magic_bytes slice_def)
qed

lemma ParseNotify_buildNotify:
  assumes "length pub = 32" "length nonce = 24"
  shows "ParseNotify (buildNotify pub nonce box) = Inr (pub, nonce, box)"
  unfolding buildNotify_def ParseNotify_def check_header_built
  using assms by (simp add: broker_sizes magic_bytes slice_def)

lemma ParseNotifyPayload_matched:
  assumes "length token = 16" "length pub = 32" "To4 ip = Some ip4"
  shows "ParseNotifyPayload (PeerMatchedPlaintext token pub ip port) = Inr (PeerMatched token pub ip4 port)"
  using assms length_To4 [OF assms(3)]
  by (simp add: PeerMatchedPlaintext_def ParseNotifyPayload_def broker_sizes slice_def)

lemma ParseNotifyPayload_assigned:
  assumes "length token = 16"
  shows "ParseNotifyPayload (TokenAssignedPlaintext token ttl) = Inr (TokenAssigned token ttl)"
  using assms by (simp add: TokenAssignedPlaintext_def ParseNotifyPayload_def broker_sizes slice_def
      NotifyPeerMatched_def NotifyTokenAssigned_def)

subsection \<open>A notification reaches the key it is meant for\<close>

definition sha256_law :: "crypto \<Rightarrow> bool" where
  "sha256_law cr \<longleftrightarrow> (\<forall>x. length (sha256_sum cr x) = 32)"

text \<open>A client with a generated key, as \<^verbatim>\<open>NewClient\<close> makes it.\<close>

definition fresh_client :: "dh_crypto \<Rightarrow> bytes \<Rightarrow> broker_client" where
  "fresh_client dh seed = NewClientWithKey dh (x_generate dh seed)"

lemma notify_decodes:
  assumes "dh_law dh" "aad_law dh" "sha256_law cr" "length (snd draws) = 24"
    and "hd plaintext = NotifyPeerMatched \<or> hd plaintext = NotifyTokenAssigned"
  shows "\<exists>pkt. sendNotify cr dh draws plaintext (bc_pub (fresh_client dh seed)) dst = [(dst, pkt)] \<and>
     openNotify cr dh (fresh_client dh seed) pkt = Inr plaintext"
proof -
  obtain z where z: "x_shared dh (x_generate dh (fst draws)) (x_public dh (x_generate dh seed)) = Some z"
      "x_shared dh (x_generate dh seed) (x_public dh (x_generate dh (fst draws))) = Some z"
    using assms(1) unfolding dh_law_def by blast
  have pub: "x_valid dh (x_public dh k)" "length (x_public dh k) = 32" for k
    using assms(1) by (simp_all add: dh_law_def)
  have "aad_open dh k n (aad_seal dh k n p a) a = Some p" for k n p a
    using assms(2) by (simp add: aad_law_def)
  with z pub assms(3-5) show ?thesis
    by (auto simp: sendNotify_def ecdh_Exchange_def fresh_client_def NewClientWithKey_def ecdh_MarshalPublicKey_def Let_def
        SealNotify_def BuildNotifyPeerMatched_def BuildNotifyTokenAssigned_def openNotify_def ParseNotify_buildNotify
        OpenNotify_def sha256_law_def broker_nonceSize_def)
qed

lemma hd_plaintexts [simp]:
  "hd (PeerMatchedPlaintext token pub ip port) = NotifyPeerMatched" "hd (TokenAssignedPlaintext token ttl) = NotifyTokenAssigned"
  by (simp_all add: PeerMatchedPlaintext_def TokenAssignedPlaintext_def Let_def)

text \<open>A registration that the server acts on: a usable token and key, an IPv4 source and claim.\<close>

definition good_register :: "bytes \<Rightarrow> broker_client \<Rightarrow> bytes \<Rightarrow> 16 word \<Rightarrow> udp_addr \<Rightarrow> bool" where
  "good_register token cl ip port src \<longleftrightarrow>
     length token = 16 \<and> \<not> isZeroBytes token \<and> length (bc_pub cl) = 32 \<and> \<not> isZeroBytes (bc_pub cl) \<and>
     length ip = 4 \<and> \<not> isZeroBytes ip \<and> port \<noteq> 0 \<and> length (ua_IP src) = 4"

lemma dispatch_register:
  assumes "good_register token cl ip port src" "br_allow b = None"
  shows "dispatch cr dh c d (take 1500 (BuildRegister token (bc_pub cl) ip port)) src b =
     handleStaticRegister cr dh (bd_now d) (bd_notify1 d) (bd_notify2 d) token (bc_pub cl) src ip port b"
proof -
  have g: "length token = 16" "length (bc_pub cl) = 32" "To4 ip = Some ip" "length (ua_IP src) = 4" "\<not> isZeroBytes token"
      "\<not> isZeroBytes (bc_pub cl)" "\<not> isZeroBytes ip" "port \<noteq> 0"
    using assms(1) by (auto simp: good_register_def)
  have l: "length ip = 4" using assms(1) by (simp add: good_register_def)
  let ?p = "BuildRegister token (bc_pub cl) ip port"
  have "length ?p = 60" by (simp add: BuildRegister_eq [OF g(1-3)] magic_bytes g l)
  then have p: "take 1500 ?p = ?p" "\<not> length ?p < 6" by simp_all
  have h: "take 4 ?p = broker_magic" "?p ! 4 = 1" "?p ! 5 = 2"
    by (simp_all add: BuildRegister_eq [OF g(1-3)] magic_bytes broker_ver_def opcodeRegister_def)
  have src: "ipv4FromAddr src = Some src" using g(4) by (simp add: ipv4FromAddr_def)
  show ?thesis
    unfolding dispatch_def p(1) using p(2)
    by (simp add: h handleRegister_def broker_allow_def assms(2) ParseRegister_BuildRegister [OF g(1-3)] validIPv4_def g src)
qed

text \<open>C30. The broker introduces two peers: when two clients with different keys register the same
  token, the broker answers nothing to the first and sends, on the second, exactly two notifications,
  one to each source address. Each one opens with the private key of the client it is sent to, and
  tells it the other's key: the second client learns the address the broker saw of the first, the first
  the address the second claimed. The token is free again.\<close>

theorem broker_introduces:
  assumes "dh_law dh" "aad_law dh" "sha256_law cr" "br_allow b = None"
    and "A = fresh_client dh sA" "B = fresh_client dh sB" "bc_pub A \<noteq> bc_pub B"
    and "good_register token A ipA portA srcA" "good_register token B ipB portB srcB"
    and "map_of (br_registry b) (hex_key token) = None"
    and "length (snd (bd_notify1 dB)) = 24" "length (snd (bd_notify2 dB)) = 24"
  shows "\<exists>b' toB toA.
     broker_Run cr dh c b [Datagram (BuildRegister token (bc_pub A) ipA portA) srcA dA,
       Datagram (BuildRegister token (bc_pub B) ipB portB) srcB dB] = (b', [(srcB, toB), (srcA, toA)]) \<and>
     decodeNotify cr dh B toB = Inr (PeerMatched token (bc_pub A) (ua_IP srcA) (ua_Port srcA)) \<and>
     decodeNotify cr dh A toA = Inr (PeerMatched token (bc_pub B) ipB portB) \<and>
     map_of (br_registry b') (hex_key token) = None"
proof -
  have g: "length token = 16" "length (bc_pub A) = 32" "length (bc_pub B) = 32" "length (ua_IP srcA) = 4" "length ipB = 4"
    using assms(8,9) by (auto simp: good_register_def)
  obtain toB where B: "sendNotify cr dh (bd_notify1 dB) (PeerMatchedPlaintext token (bc_pub A) (ua_IP srcA) (ua_Port srcA))
      (bc_pub B) srcB = [(srcB, toB)]"
      "openNotify cr dh B toB = Inr (PeerMatchedPlaintext token (bc_pub A) (ua_IP srcA) (ua_Port srcA))"
    using notify_decodes [OF assms(1-3,11)] assms(6) by (metis hd_plaintexts(1))
  obtain toA where A: "sendNotify cr dh (bd_notify2 dB) (PeerMatchedPlaintext token (bc_pub B) ipB portB)
      (bc_pub A) srcA = [(srcA, toA)]"
      "openNotify cr dh A toA = Inr (PeerMatchedPlaintext token (bc_pub B) ipB portB)"
    using notify_decodes [OF assms(1-3,12)] assms(5) by (metis hd_plaintexts(1))
  have "decodeNotify cr dh B toB = Inr (PeerMatched token (bc_pub A) (ua_IP srcA) (ua_Port srcA))"
    "decodeNotify cr dh A toA = Inr (PeerMatched token (bc_pub B) ipB portB)"
    using A(2) B(2) g by (simp_all add: decodeNotify_def ParseNotifyPayload_matched)
  then show ?thesis
    using assms(4,7,10) g A(1) B(1)
    by (auto simp: broker_Run_def dispatch_register [OF assms(8)] dispatch_register [OF assms(9)] handleStaticRegister_def
        update_conv' delete_conv' sendPeerMatched_def ipv4FromAddr_def)
qed

text \<open>A peer that moves is not followed: a second registration of the same token by the same key
  from another address renews the entry but keeps the address of the first, so that when the other peer
  registers, the notification for the one that moved is sent to its old address, and the other is told
  that address too.\<close>

theorem rebinding_keeps_old_address:
  assumes "dh_law dh" "aad_law dh" "sha256_law cr" "br_allow b = None"
    and "A = fresh_client dh sA" "B = fresh_client dh sB" "bc_pub A \<noteq> bc_pub B"
    and "good_register token A ipA portA old" "good_register token A ipA' portA' new" "good_register token B ipB portB srcB"
    and "map_of (br_registry b) (hex_key token) = None"
    and "length (snd (bd_notify1 dB)) = 24" "length (snd (bd_notify2 dB)) = 24"
  shows "\<exists>b' toB toA.
     broker_Run cr dh c b [Datagram (BuildRegister token (bc_pub A) ipA portA) old dA,
       Datagram (BuildRegister token (bc_pub A) ipA' portA') new dA',
       Datagram (BuildRegister token (bc_pub B) ipB portB) srcB dB] = (b', [(srcB, toB), (old, toA)]) \<and>
     decodeNotify cr dh B toB = Inr (PeerMatched token (bc_pub A) (ua_IP old) (ua_Port old))"
proof -
  have g: "length token = 16" "length (bc_pub A) = 32" "length (bc_pub B) = 32" "length (ua_IP old) = 4" "length ipB = 4"
    using assms(8,10) by (auto simp: good_register_def)
  obtain toB where B: "sendNotify cr dh (bd_notify1 dB) (PeerMatchedPlaintext token (bc_pub A) (ua_IP old) (ua_Port old))
      (bc_pub B) srcB = [(srcB, toB)]"
      "openNotify cr dh B toB = Inr (PeerMatchedPlaintext token (bc_pub A) (ua_IP old) (ua_Port old))"
    using notify_decodes [OF assms(1-3,12)] assms(6) by (metis hd_plaintexts(1))
  obtain toA where A: "sendNotify cr dh (bd_notify2 dB) (PeerMatchedPlaintext token (bc_pub B) ipB portB)
      (bc_pub A) old = [(old, toA)]"
    using notify_decodes [OF assms(1-3,13)] assms(5) by (metis hd_plaintexts(1))
  have "decodeNotify cr dh B toB = Inr (PeerMatched token (bc_pub A) (ua_IP old) (ua_Port old))"
    using B(2) g by (simp add: decodeNotify_def ParseNotifyPayload_matched)
  then show ?thesis
    using assms(4,7,11) g A(1) B(1)
    by (auto simp: broker_Run_def dispatch_register [OF assms(8)] dispatch_register [OF assms(9)] dispatch_register [OF assms(10)]
        handleStaticRegister_def update_conv' delete_conv' sendPeerMatched_def ipv4FromAddr_def)
qed

text \<open>A client that registers with a token and is answered by a match gets an error: the reply is
  decoded as if it could only assign a token.\<close>

lemma matched_reply_is_error:
  assumes "openNotify cr dh cl pkt = Inr (PeerMatchedPlaintext token pub ip port)"
    and "length token = 16" "length pub = 32" "To4 ip = Some ip4"
  shows "decodeAssignedToken cr dh cl pkt = Inl ErrNotAssigned"
  using assms(1) by (simp add: decodeAssignedToken_def ParseNotifyPayload_matched [OF assms(2-4)])

subsection \<open>The echo\<close>

lemma echo_text_length:
  assumes "length ip = 4"
  shows "length (JoinHostPort (ip4_String ip) (dec_text (unat (p :: 16 word)))) \<le> 21"
proof -
  have digits: "length (dec_text n) \<le> 3" if "n < 256" for n
    using that by (cases "n < 10"; cases "n < 100") (auto simp: dec_text_small)
  have "length (dec_text n) \<le> Suc (length (dec_text (n div 10)))" for n
    by (subst dec_text_rec) simp
  then have step: "length (dec_text n) \<le> Suc k" if "length (dec_text (n div 10)) \<le> k" for n k
    using that by (meson Suc_le_mono order_trans)
  have "unat p < 65536" using unsigned_less [of p] by simp
  then have "unat p div 10 div 10 < 1000" by (simp add: less_mult_imp_div_less)
  then have "length (dec_text (unat p div 10 div 10)) \<le> 3"
    using digits by (cases "unat p div 10 div 10 < 256") (auto simp: dec_text_small(3))
  from step [OF step [OF this]] have port: "length (dec_text (unat p)) \<le> 5" by simp
  have "length (ip4_String ip) \<le> 15"
    using digits [OF unat_byte [of "ip ! 0"]] digits [OF unat_byte [of "ip ! 1"]]
      digits [OF unat_byte [of "ip ! 2"]] digits [OF unat_byte [of "ip ! 3"]]
    by (simp add: ip4_String_def)
  with port show ?thesis by (simp add: JoinHostPort_def ip4_String_plain)
qed

lemma parseEchoResponse_Build:
  assumes "To4 (ua_IP src) = Some ip"
  shows "parseEchoResponse (take 64 (BuildEchoResponse src)) = Inr (mapped ip, ua_Port src)"
proof -
  have l: "length ip = 4" by (rule length_To4 [OF assms])
  let ?t = "JoinHostPort (ip4_String ip) (dec_text (unat (ua_Port src)))"
  have "BuildEchoResponse src = ?t @ [0]"
    using l by (auto simp: BuildEchoResponse_def assms IP_String_def)
  moreover have "length ?t \<le> 21" by (rule echo_text_length [OF l])
  moreover have "0 \<notin> set ?t"
    by (simp add: JoinHostPort_def ip4_String_plain dec_text_plain) (simp add: punctuation)
  moreover have "SplitHostPort ?t = Some (ip4_String ip, dec_text (unat (ua_Port src)))"
    by (rule SplitHostPort_JoinHostPort) (simp_all add: ip4_String_plain dec_text_plain, simp add: ip4_String_def)
  ultimately show ?thesis
    by (simp add: parseEchoResponse_def takeWhile_append ParseIP_ip4_String [OF l] ParseUint16_dec_text)
qed

text \<open>The echo tells a client how the broker sees it: whenever the rate limiter lets the request of an
  IPv4 source pass, the broker sends one datagram, back to that source, from which \<^verbatim>\<open>Client.Echo\<close> reads
  the very address and port of the source; the registry is as before.\<close>

theorem echo_reports_source:
  assumes "snd (broker_allow c (bd_now d) src b)" "To4 (ua_IP src) = Some ip"
  shows "\<exists>b' resp. broker_Run cr dh c b [Datagram (fst (Client_Echo reply)) src d] = (b', [(src, resp)]) \<and>
     br_registry b' = br_registry b \<and> snd (Client_Echo (Some resp)) = Inr (mapped ip, ua_Port src)"
proof -
  obtain b' where b': "broker_allow c (bd_now d) src b = (b', True)"
    using assms(1) by (cases "broker_allow c (bd_now d) src b") auto
  then have "br_registry b' = br_registry b"
    by (auto simp: broker_allow_def Let_def split: option.splits prod.splits)
  with b' show ?thesis
    by (simp add: broker_Run_def dispatch_def Client_Echo_def buildEchoRequest_def magic_bytes [unfolded broker_magic_def]
        broker_magic_def handleEcho_def parseEchoResponse_Build [OF assms(2)])
qed

subsection \<open>Instances\<close>

definition demo_addr :: "byte \<Rightarrow> udp_addr" where
  "demo_addr x = \<lparr>ua_IP = [192, 0, 2, x], ua_Port = 4000\<rparr>"

definition demo_draws :: broker_draws where
  "demo_draws = \<lparr>bd_now = 0, bd_key = [], bd_notify1 = ([], replicate 24 0), bd_notify2 = ([], replicate 24 0)\<rparr>"

lemma demo_sha256: "sha256_law demo_crypto"
  by (simp add: sha256_law_def demo_crypto_def)

lemma demo_pub: "bc_pub (fresh_client demo_dh [x]) = x # replicate 31 0"
  by (simp add: fresh_client_def NewClientWithKey_def demo_dh_def fit_def)

lemma demo_register:
  "good_register (replicate 16 7) (fresh_client demo_dh [1]) [192, 0, 2, 1] 4000 (demo_addr x)"
  "good_register (replicate 16 7) (fresh_client demo_dh [2]) [192, 0, 2, 2] 4000 (demo_addr x)"
  by (simp_all add: good_register_def demo_pub isZeroBytes_def demo_addr_def list_all_iff)

abbreviation demo_broker :: "((bytes \<times> gotime list \<times> gotime) list \<times> duration) broker" where
  "demo_broker \<equiv> broker_New 0 None"

theorem broker_introduces_witness:
  "\<exists>b' toB toA.
     broker_Run demo_crypto demo_dh demo_lru demo_broker
       [Datagram (BuildRegister (replicate 16 7) (bc_pub (fresh_client demo_dh [1])) [192, 0, 2, 1] 4000) (demo_addr 1) demo_draws,
        Datagram (BuildRegister (replicate 16 7) (bc_pub (fresh_client demo_dh [2])) [192, 0, 2, 2] 4000) (demo_addr 2) demo_draws] =
       (b', [(demo_addr 2, toB), (demo_addr 1, toA)]) \<and>
     decodeNotify demo_crypto demo_dh (fresh_client demo_dh [1]) toA =
       Inr (PeerMatched (replicate 16 7) (bc_pub (fresh_client demo_dh [2])) [192, 0, 2, 2] 4000)"
proof -
  have "br_allow demo_broker = None" "map_of (br_registry demo_broker) (hex_key (replicate 16 7)) = None"
      "length (snd (bd_notify1 demo_draws)) = 24" "length (snd (bd_notify2 demo_draws)) = 24"
      "bc_pub (fresh_client demo_dh [1]) \<noteq> bc_pub (fresh_client demo_dh [2])"
    by (simp_all add: broker_New_def demo_draws_def demo_pub)
  from broker_introduces [OF demo_dh_laws(1,3) demo_sha256 this(1) refl refl this(5) demo_register this(2-4)]
  show ?thesis by fast
qed

theorem rebinding_keeps_old_address_witness:
  "\<exists>b' toB toA.
     broker_Run demo_crypto demo_dh demo_lru demo_broker
       [Datagram (BuildRegister (replicate 16 7) (bc_pub (fresh_client demo_dh [1])) [192, 0, 2, 1] 4000) (demo_addr 1) demo_draws,
        Datagram (BuildRegister (replicate 16 7) (bc_pub (fresh_client demo_dh [1])) [192, 0, 2, 1] 4000) (demo_addr 9) demo_draws,
        Datagram (BuildRegister (replicate 16 7) (bc_pub (fresh_client demo_dh [2])) [192, 0, 2, 2] 4000) (demo_addr 2) demo_draws] =
       (b', [(demo_addr 2, toB), (demo_addr 1, toA)])"
proof -
  have "br_allow demo_broker = None" "map_of (br_registry demo_broker) (hex_key (replicate 16 7)) = None"
      "length (snd (bd_notify1 demo_draws)) = 24" "length (snd (bd_notify2 demo_draws)) = 24"
      "bc_pub (fresh_client demo_dh [1]) \<noteq> bc_pub (fresh_client demo_dh [2])"
    by (simp_all add: broker_New_def demo_draws_def demo_pub)
  from rebinding_keeps_old_address [OF demo_dh_laws(1,3) demo_sha256 this(1) refl refl this(5)
      demo_register(1) demo_register(1) [of 9] demo_register(2) this(2-4)]
  show ?thesis by fast
qed

theorem echo_reports_source_witness:
  "\<exists>b' resp. broker_Run demo_crypto demo_dh demo_lru demo_broker
       [Datagram buildEchoRequest (demo_addr 7) demo_draws] = (b', [(demo_addr 7, resp)]) \<and>
     parseEchoResponse (take 64 resp) = Inr (mapped [192, 0, 2, 7], 4000)"
proof -
  have "snd (broker_allow demo_lru (bd_now demo_draws) (demo_addr 7) demo_broker)"
      "To4 (ua_IP (demo_addr 7)) = Some [192, 0, 2, 7]"
    by (simp_all add: broker_allow_def broker_New_def demo_addr_def)
  from echo_reports_source [OF this, of demo_crypto demo_dh None] show ?thesis
    by (auto simp: Client_Echo_def demo_addr_def)
qed

end
