(* ===== verification/Admission.thy ===== *)
theory Admission
  imports Relay Netaddr
begin

text \<open>
  What stands before the relay's handlers: its configuration (cmd/relay/internal/config/config.go), the
  construction of the service (services/services.go), the client address of a request
  (handlers/router.go), and the admission of connections by \<^verbatim>\<open>acceptLoop\<close> (handlers/tcp_handler.go) and
  \<^verbatim>\<open>WebSocketHandler\<close> (handlers/ws_handler.go): the rate limit and the handshake timeout.
\<close>

subsection \<open>Configuration\<close>

record relay_config =
  cfg_password :: bytes
  cfg_diagnose :: bool
  cfg_ws :: bool
  cfg_tcp :: bool
  cfg_tls :: bool
  cfg_tls_cert :: bytes
  cfg_tls_key :: bytes
  cfg_wss :: bool
  cfg_wss_cert :: bytes
  cfg_wss_key :: bytes
  cfg_broker :: bool
  cfg_broker_ttl :: duration
  cfg_token_ttl :: duration
  cfg_session_ttl :: duration
  cfg_handshake_timeout :: duration
  cfg_max_sessions :: int
  cfg_max_message :: int
  cfg_rl_disabled :: bool
  cfg_rl_window :: duration
  cfg_rl_quota :: "64 word"
  cfg_rl_entries :: int

datatype config_error =
    BadMaxSessions | BadTokenTTL | BadSessionTTL | BadMaxMessage | BadTLSFiles | BadWSSFiles | NothingEnabled

definition IsEnabled :: "relay_config \<Rightarrow> bool" where
  "IsEnabled cfg \<longleftrightarrow> \<not> cfg_rl_disabled cfg"

definition config_Validate :: "relay_config \<Rightarrow> config_error option" where
  "config_Validate c =
     (if cfg_max_sessions c \<le> 0 then Some BadMaxSessions
      else if cfg_token_ttl c \<le> 0 then Some BadTokenTTL
      else if cfg_session_ttl c < 0 then Some BadSessionTTL
      else if cfg_max_message c < 0 then Some BadMaxMessage
      else if cfg_tls c \<and> (cfg_tls_cert c = []) \<noteq> (cfg_tls_key c = []) then Some BadTLSFiles
      else if cfg_wss c \<and> (cfg_wss_cert c = []) \<noteq> (cfg_wss_key c = []) then Some BadWSSFiles
      else if \<not> cfg_diagnose c \<and> \<not> cfg_ws c \<and> \<not> cfg_tcp c \<and> \<not> cfg_tls c \<and> \<not> cfg_wss c \<and> \<not> cfg_broker c
        then Some NothingEnabled
      else None)"

subsection \<open>The service\<close>

text \<open>A handshake timeout of zero stands for the default, a negative one for none. The quota is
  converted from \<^verbatim>\<open>uint64\<close> to \<^verbatim>\<open>int\<close>.\<close>

definition handshake_timeout :: "duration \<Rightarrow> duration" where
  "handshake_timeout t = (if 0 < t then t else if t < 0 then 0 else 30 * second)"

definition services_New :: "'l lru \<Rightarrow> relay_config \<Rightarrow> config_error + 'l hub" where
  "services_New c cfg =
     (case config_Validate cfg of
        Some e \<Rightarrow> Inl e
      | None \<Rightarrow>
          let sessions = NewSessionManager (cfg_token_ttl cfg) (cfg_max_sessions cfg) (cfg_session_ttl cfg);
              rl = (if IsEnabled cfg
                    then Some (ratelimit_New c (sint (cfg_rl_quota cfg)) (cfg_rl_window cfg) (cfg_rl_entries cfg))
                    else None)
          in Inr (NewHub sessions (cfg_password cfg) (cfg_max_message cfg) rl
               (handshake_timeout (cfg_handshake_timeout cfg))))"

subsection \<open>The address of a request\<close>

definition privateRanges :: "(bytes \<times> nat) list" where
  "privateRanges =
     [([10, 0, 0, 0], 8), ([172, 16, 0, 0], 12), ([192, 168, 0, 0], 16), ([127, 0, 0, 0], 8), ([169, 254, 0, 0], 16),
      (replicate 15 0 @ [1], 128), (0xFC # replicate 15 0, 7), (0xFE # 0x80 # replicate 14 0, 10)]"

text \<open>\<^verbatim>\<open>net.IPNet.Contains\<close>.\<close>

definition mask_byte :: "nat \<Rightarrow> nat \<Rightarrow> byte" where
  "mask_byte ones i = (if 8 * (i + 1) \<le> ones then 255 else if ones \<le> 8 * i then 0 else of_nat (256 - 2 ^ (8 * (i + 1) - ones)))"

definition block_contains :: "bytes \<times> nat \<Rightarrow> ip \<Rightarrow> bool" where
  "block_contains = (\<lambda>(net, ones) ip.
     let x = (case To4 ip of Some ip4 \<Rightarrow> ip4 | None \<Rightarrow> ip) in
     length x = length net \<and>
     list_all (\<lambda>i. and (net ! i) (mask_byte ones i) = and (x ! i) (mask_byte ones i)) [0..<length net])"

definition isPrivateIP :: "ip \<Rightarrow> bool" where
  "isPrivateIP ip \<longleftrightarrow> list_ex (\<lambda>block. block_contains block ip) privateRanges"

definition extractIP :: "bytes \<Rightarrow> bytes" where
  "extractIP s =
     (let s = TrimSpace s in
      if s = [] then [] else case SplitHostPort s of Some (host, _) \<Rightarrow> host | None \<Rightarrow> s)"

definition validateIP :: "bytes \<Rightarrow> bytes" where
  "validateIP s =
     (let raw = extractIP s in
      if raw = [] then [] else case ParseIP raw of None \<Rightarrow> [] | Some ip \<Rightarrow> IP_String ip)"

text \<open>\<^verbatim>\<open>strings.Split(header, ",")\<close>.\<close>

fun split_commas :: "bytes \<Rightarrow> bytes list" where
  "split_commas [] = [[]]"
| "split_commas (c # s) =
     (if c = comma then [] # split_commas s else case split_commas s of p # ps \<Rightarrow> (c # p) # ps | [] \<Rightarrow> [[c]])"

fun forwarded_parts :: "bytes \<Rightarrow> bytes list \<Rightarrow> bytes" where
  "forwarded_parts firstValid [] = firstValid"
| "forwarded_parts firstValid (part # parts) =
     (let ip = validateIP part in
      if ip = [] then forwarded_parts firstValid parts
      else
        let firstValid = (if firstValid = [] then ip else firstValid) in
        case ParseIP ip of
          Some parsed \<Rightarrow> if \<not> isPrivateIP parsed then ip else forwarded_parts firstValid parts
        | None \<Rightarrow> forwarded_parts firstValid parts)"

definition ParseForwardedIP :: "bytes \<Rightarrow> bytes" where
  "ParseForwardedIP header = (if header = [] then [] else forwarded_parts [] (split_commas header))"

text \<open>A request: its header, as \<^verbatim>\<open>Header.Get\<close> answers, and the address of the connection.\<close>

record request =
  req_header :: "string \<Rightarrow> bytes"
  req_RemoteAddr :: bytes

definition singleHeader :: "request \<Rightarrow> string \<Rightarrow> bytes" where
  "singleHeader r name = validateIP (req_header r name)"

definition clientIP :: "request \<Rightarrow> bytes" where
  "clientIP r =
     (case find (\<lambda>name. singleHeader r name \<noteq> [])
        [''X-Real-Ip'', ''True-Client-IP'', ''CF-Connecting-IP'', ''Fly-Client-IP'', ''Fastly-Client-IP''] of
        Some name \<Rightarrow> singleHeader r name
      | None \<Rightarrow>
          let fwd = ParseForwardedIP (req_header r ''X-Forwarded-For''); ip = validateIP (req_RemoteAddr r) in
          if fwd \<noteq> [] then fwd else if ip \<noteq> [] then ip else extractIP (req_RemoteAddr r))"

subsection \<open>Admission\<close>

text \<open>The relay with what its listeners add: the connections they have let in, with the time and the key
  of the limiter, and the instants at which a handshake that is still going on is cut off. For a TCP
  connection this is its deadline, for a WebSocket one the timer that closes it.\<close>

record 'l front =
  f_relay :: "'l relay"
  f_admitted :: "(chan \<times> gotime \<times> bytes) list"
  f_deadline :: "chan \<Rightarrow> gotime option"

definition front_start :: "'l hub \<Rightarrow> 'l front" where
  "front_start hub = \<lparr>f_relay = relay_start hub, f_admitted = [], f_deadline = \<lambda>_. None\<rparr>"

definition set_limiter :: "'l rate_limiter \<Rightarrow> 'l relay \<Rightarrow> 'l relay" where
  "set_limiter rl r = r\<lparr>r_hub := (r_hub r)\<lparr>hub_rateLimiter := Some rl\<rparr>\<rparr>"

text \<open>A connection refused by the limiter is closed. One that is let in starts its timeout; its handler
  begins when the key exchange has succeeded. The clock is read by the limiter and again for the
  timeout.\<close>

definition admit :: "'l lru \<Rightarrow> chan \<Rightarrow> gotime \<Rightarrow> gotime \<Rightarrow> bytes \<Rightarrow> 'l front \<Rightarrow> 'l front" where
  "admit c ch now now' key f =
     (let r = f_relay f; hub = r_hub r;
          (r', ok) = (case hub_rateLimiter hub of
                        None \<Rightarrow> (r, True)
                      | Some rl \<Rightarrow> (case Allow c now key rl of (rl', ok) \<Rightarrow> (set_limiter rl' r, ok)))
      in if \<not> ok then f\<lparr>f_relay := r'\<rparr>
         else f\<lparr>f_relay := r', f_admitted := f_admitted f @ [(ch, now, key)],
                f_deadline := (f_deadline f)(ch := (if 0 < hub_handshakeTimeout hub
                                                    then Some (now' + hub_handshakeTimeout hub) else None))\<rparr>)"

definition acceptLoop :: "'l lru \<Rightarrow> chan \<Rightarrow> bytes \<Rightarrow> gotime \<Rightarrow> gotime \<Rightarrow> 'l front \<Rightarrow> 'l front" where
  "acceptLoop c ch remoteAddr now now' f = admit c ch now now' (extractIP remoteAddr) f"

definition WebSocketHandler :: "'l lru \<Rightarrow> chan \<Rightarrow> request \<Rightarrow> gotime \<Rightarrow> gotime \<Rightarrow> 'l front \<Rightarrow> 'l front" where
  "WebSocketHandler c ch r now now' f = admit c ch now now' (clientIP r) f"

text \<open>The timeout of a connection: whatever its handler waits for fails.\<close>

definition cut_off :: "relay_frame codec \<Rightarrow> chan \<Rightarrow> 'l relay \<Rightarrow> 'l relay" where
  "cut_off fc ch r =
     (case map_option h_phase (r_handlers r ch) of
        Some Acking \<Rightarrow> relay_step fc r (Steps ch False)
      | Some (Replying _ _ _) \<Rightarrow> relay_step fc r (Steps ch False)
      | _ \<Rightarrow> relay_step fc r (ReadFails ch))"

datatype front_event =
    Accepts chan bytes gotime gotime
  | Upgrades chan request gotime gotime
  | Expires chan gotime
  | Handles relay_event

text \<open>A handler whose registration has been answered clears the timeout of its connection.\<close>

definition answered :: "'l relay \<Rightarrow> relay_event \<Rightarrow> 'l relay \<Rightarrow> chan option" where
  "answered r e r' =
     (case e of
        Steps ch ok \<Rightarrow>
          (case (map_option h_phase (r_handlers r ch), map_option h_phase (r_handlers r' ch)) of
             (Some (Replying _ _ _), Some Pumping) \<Rightarrow> Some ch
           | _ \<Rightarrow> None)
      | _ \<Rightarrow> None)"

fun front_step :: "relay_frame codec \<Rightarrow> 'l lru \<Rightarrow> 'l front \<Rightarrow> front_event \<Rightarrow> 'l front" where
  "front_step fc c f (Accepts ch remoteAddr now now') =
     (if ch \<in> fst ` set (f_admitted f) then f else acceptLoop c ch remoteAddr now now' f)"
| "front_step fc c f (Upgrades ch req now now') =
     (if ch \<in> fst ` set (f_admitted f) then f else WebSocketHandler c ch req now now' f)"
| "front_step fc c f (Expires ch now) =
     (case f_deadline f ch of
        None \<Rightarrow> f
      | Some t \<Rightarrow> if t \<le> now then f\<lparr>f_relay := cut_off fc ch (f_relay f)\<rparr> else f)"
| "front_step fc c f (Handles e) =
     (if (case e of Arrive ch \<Rightarrow> ch \<notin> fst ` set (f_admitted f) | _ \<Rightarrow> False) then f
      else
        let r' = relay_step fc (f_relay f) e in
        f\<lparr>f_relay := r',
          f_deadline := (case answered (f_relay f) e r' of None \<Rightarrow> f_deadline f | Some ch \<Rightarrow> (f_deadline f)(ch := None))\<rparr>)"

definition front_run :: "relay_frame codec \<Rightarrow> 'l lru \<Rightarrow> 'l hub \<Rightarrow> front_event list \<Rightarrow> 'l front" where
  "front_run fc c hub es = foldl (front_step fc c) (front_start hub) es"

subsection \<open>The limiter before the handlers\<close>

text \<open>A step touches neither the limiter nor the timeout of the hub, and only its own channel's handler.\<close>

definition event_chan :: "relay_event \<Rightarrow> chan option" where
  "event_chan e = (case e of Arrive ch \<Rightarrow> Some ch | Reads ch _ _ _ _ \<Rightarrow> Some ch | ReadFails ch \<Rightarrow> Some ch
     | Steps ch _ \<Rightarrow> Some ch | Tick _ \<Rightarrow> None)"

definition same_front :: "chan option \<Rightarrow> 'l relay \<Rightarrow> 'l relay \<Rightarrow> bool" where
  "same_front x r r' \<longleftrightarrow> hub_rateLimiter (r_hub r') = hub_rateLimiter (r_hub r) \<and>
     hub_handshakeTimeout (r_hub r') = hub_handshakeTimeout (r_hub r) \<and> (\<forall>c. Some c \<noteq> x \<longrightarrow> r_handlers r' c = r_handlers r c)"

lemma relay_step_front: "same_front (event_chan e) r (relay_step fc r e)"
proof -
  note parts = same_front_def set_phase_def close_chans_def finish_def set_sessions_def write_frame_def register_reply_def
  have register: "same_front (Some ch) r (handle_register now now' rnd ch frame r)" for now now' rnd ch frame
    by (auto simp: handle_register_def Let_def parts split: option.splits relay_frame.splits prod.splits sum.splits)
  have first: "same_front (Some ch) r (handle_first now now' rnd ch frame r)" for now now' rnd ch frame
    using register by (auto simp: handle_first_def Let_def parts split: option.splits relay_frame.splits)
  have pump: "same_front (Some ch) r (pump ch token frame r)" for ch token frame
    by (auto simp: pump_def parts split: option.splits relay_frame.splits sum.splits)
  have refl: "same_front x r r" for x by (simp add: same_front_def)
  show ?thesis
  proof (cases e)
    case (Reads ch d now now' rnd)
    then show ?thesis
      using first register pump refl by (auto simp: on_read_def event_chan_def split: option.splits phase.splits)
  next
    case (Steps ch ok)
    then show ?thesis
      by (auto simp: on_step_def event_chan_def parts split: option.splits phase.splits)
  qed (auto simp: event_chan_def parts split: option.splits phase.splits prod.splits)
qed

lemma relay_step_kept [simp]:
  "hub_rateLimiter (r_hub (relay_step fc r e)) = hub_rateLimiter (r_hub r)"
  "hub_handshakeTimeout (r_hub (relay_step fc r e)) = hub_handshakeTimeout (r_hub r)"
  using relay_step_front [of e r fc] by (simp_all add: same_front_def)


lemma cut_off_step: "\<exists>e. event_chan e = Some ch \<and> (\<forall>c. e \<noteq> Arrive c) \<and> cut_off fc ch r = relay_step fc r e"
proof -
  have "cut_off fc ch r = relay_step fc r (Steps ch False) \<or> cut_off fc ch r = relay_step fc r (ReadFails ch)"
    by (auto simp: cut_off_def simp del: relay_step.simps split: option.splits phase.splits)
  then show ?thesis
  proof
    assume "cut_off fc ch r = relay_step fc r (Steps ch False)"
    then show ?thesis by (intro exI [of _ "Steps ch False"]) (simp add: event_chan_def)
  next
    assume "cut_off fc ch r = relay_step fc r (ReadFails ch)"
    then show ?thesis by (intro exI [of _ "ReadFails ch"]) (simp add: event_chan_def)
  qed
qed

lemma cut_off_kept [simp]:
  "hub_rateLimiter (r_hub (cut_off fc ch r)) = hub_rateLimiter (r_hub r)"
  "hub_handshakeTimeout (r_hub (cut_off fc ch r)) = hub_handshakeTimeout (r_hub r)"
  using cut_off_step [of ch fc r] relay_step_kept by metis+

text \<open>The admissions of a key, and the clock readings of the limiter.\<close>

definition admissions :: "'l front \<Rightarrow> bytes \<Rightarrow> gotime list" where
  "admissions f key = map (\<lambda>(ch, t, k). t) (filter (\<lambda>(ch, t, k). k = key) (f_admitted f))"


definition limited :: "'l lru \<Rightarrow> int \<Rightarrow> duration \<Rightarrow> gotime \<Rightarrow> 'l front \<Rightarrow> bool" where
  "limited c quota window now f \<longleftrightarrow>
     (\<exists>rl. hub_rateLimiter (r_hub (f_relay f)) = Some rl \<and> rl_quota rl = quota \<and> rl_window rl = window \<and>
        tracks c now rl (admissions f) \<and> (\<forall>k. capped quota window (admissions f k)))"



lemma limited_admit:
  assumes "lru_law c" "0 < window" "limited c quota window now0 f" "now0 \<le> now"
  shows "limited c quota window now (admit c ch now now' key f)"
proof -
  obtain rl where rl: "hub_rateLimiter (r_hub (f_relay f)) = Some rl" "rl_quota rl = quota" "rl_window rl = window"
      "tracks c now0 rl (admissions f)" "\<And>k. capped quota window (admissions f k)"
    using assms(3) by (auto simp: limited_def)
  have le: "x \<le> now" if "x \<in> set (admissions f key)" for x
    using rl(4) that assms(4) unfolding tracks_def tracked_def by (force split: option.splits)
  obtain rl' adm' ok where st: "Allow c now key rl = (rl', ok)" "window_allow quota window now key (admissions f) = (adm', ok)"
      "rl_quota rl' = quota" "rl_window rl' = window" "tracks c now rl' adm'"
    using Allow_step [OF assms(1) _ rl(4) assms(4), of key] assms(2) rl(2,3) by auto
  let ?f = "admit c ch now now' key f"
  have hub: "hub_rateLimiter (r_hub (f_relay ?f)) = Some rl'"
    by (simp add: admit_def Let_def rl(1) st(1) set_limiter_def)
  have adm: "admissions ?f = adm'" and cap: "capped quota window (adm' k)" for k
  proof -
    have "admissions ?f = (if ok then (admissions f)(key := admissions f key @ [now]) else admissions f)"
      by (auto simp: admit_def Let_def rl(1) st(1) admissions_def fun_eq_iff)
    moreover have "adm' = (if ok then (admissions f)(key := admissions f key @ [now]) else admissions f)"
      using st(2) by (auto simp: window_allow_def split: if_splits)
    ultimately show "admissions ?f = adm'" by simp
    show "capped quota window (adm' k)"
      using st(2) rl(5) capped_add [OF rl(5) le] by (auto simp: window_allow_def split: if_splits)
  qed
  show ?thesis using hub st(3-5) cap by (simp add: limited_def adm)
qed


lemma limited_start:
  assumes "lru_law c" "services_New c cfg = Inr hub" "IsEnabled cfg" "cfg_rl_entries cfg = 0" "0 < cfg_rl_window cfg"
  shows "limited c (sint (cfg_rl_quota cfg)) (cfg_rl_window cfg) now (front_start hub)"
proof -
  have hub: "hub_rateLimiter hub = Some (ratelimit_New c (sint (cfg_rl_quota cfg)) (cfg_rl_window cfg) 0)"
    using assms(2-4) by (auto simp: services_New_def Let_def NewHub_def split: option.splits)
  have none: "admissions (front_start hub) = (\<lambda>_. [])" by (simp add: admissions_def front_start_def fun_eq_iff)
  have "capped q w []" for q w by (simp add: capped_def)
  with hub tracks_New [OF assms(1,5)] show ?thesis
    unfolding limited_def none by (simp add: front_start_def relay_start_def ratelimit_New_def)
qed


subsection \<open>The key is the client's choice\<close>

lemma trim_with_none: "(\<And>w. w \<in> set ws \<Longrightarrow> take (length w) s \<noteq> w) \<Longrightarrow> trim_with ws n s = s"
  by (cases n) (auto simp: find_Some_iff split: option.splits)

lemma spaces_start: "w \<in> set spaces \<Longrightarrow> w \<noteq> [] \<and> \<not> is_dec (hd w) \<and> \<not> is_dec (last w)"
  by (auto simp: spaces_def is_dec_def upt_rec_numeral)

lemma TrimSpace_digits:
  assumes "s \<noteq> []" "is_dec (hd s)" "is_dec (last s)"
  shows "TrimSpace s = s"
proof -
  have start: "trim_with ws n t = t" if "t \<noteq> []" "is_dec (hd t)" "\<And>w. w \<in> set ws \<Longrightarrow> w \<noteq> [] \<and> \<not> is_dec (hd w)" for ws n t
  proof (rule trim_with_none)
    fix w assume "w \<in> set ws"
    with that show "take (length w) t \<noteq> w" by (cases t; cases w) fastforce+
  qed
  have "trim_with spaces n s = s" for n
    by (rule start) (use assms spaces_start in auto)
  moreover have "trim_with (map rev spaces) n (rev s) = rev s" for n
    by (rule start) (use assms spaces_start in \<open>auto simp: hd_rev\<close>)
  ultimately show ?thesis by (simp add: TrimSpace_def Let_def)
qed

lemma validateIP_ip4_String:
  assumes "length ip = 4"
  shows "validateIP (ip4_String ip) = ip4_String ip" "ip4_String ip \<noteq> []"
proof -
  show ne: "ip4_String ip \<noteq> []" by (simp add: ip4_String_def)
  have d: "is_dec (hd (dec_text n))" "is_dec (last (dec_text n))" for n
    using dec_text_dec [of n] dec_text_nonempty [of n] by (auto simp: list_all_iff)
  have "TrimSpace (ip4_String ip) = ip4_String ip"
    by (rule TrimSpace_digits) (simp_all add: ip4_String_def d)
  moreover have "SplitHostPort (ip4_String ip) = None" by (simp add: SplitHostPort_def ip4_String_plain)
  ultimately show "validateIP (ip4_String ip) = ip4_String ip"
    using ne by (simp add: validateIP_def extractIP_def ParseIP_ip4_String [OF assms] IP_String_mapped [OF assms])
qed

text \<open>Requests over connections from one address, each with an address of its own choice in the header.\<close>

definition forged :: "bytes \<Rightarrow> ip \<Rightarrow> request" where
  "forged remote ip = \<lparr>req_header = (\<lambda>name. if name = ''X-Real-Ip'' then ip4_String ip else []), req_RemoteAddr = remote\<rparr>"

fun flood :: "bytes \<Rightarrow> gotime \<Rightarrow> chan \<Rightarrow> ip list \<Rightarrow> front_event list" where
  "flood remote now ch [] = []"
| "flood remote now ch (ip # ips) = Upgrades ch (forged remote ip) now now # flood remote now (Suc ch) ips"

lemma clientIP_forged: "length ip = 4 \<Longrightarrow> clientIP (forged remote ip) = ip4_String ip"
  using validateIP_ip4_String [of ip] by (simp add: clientIP_def singleHeader_def forged_def)

lemma fresh_key_admitted:
  assumes "lru_law c" "0 < window" "limited c quota window now f" "0 < quota" "admissions f key = []"
  shows "f_admitted (admit c ch now now' key f) = f_admitted f @ [(ch, now, key)]"
proof -
  obtain rl where rl: "hub_rateLimiter (r_hub (f_relay f)) = Some rl" "rl_quota rl = quota" "rl_window rl = window"
      "tracks c now rl (admissions f)"
    using assms(3) by (auto simp: limited_def)
  obtain rl' adm' ok where st: "Allow c now key rl = (rl', ok)" "window_allow quota window now key (admissions f) = (adm', ok)"
    using Allow_step [OF assms(1) _ rl(4), of now key] assms(2) rl(2,3) by auto
  then have ok by (simp add: window_allow_def in_window_def assms(4,5))
  with st(1) show ?thesis by (simp add: admit_def Let_def rl(1))
qed

lemma flood_admitted:
  assumes "lru_law c" "0 < window" "0 < quota"
  shows "limited c quota window now f \<Longrightarrow> distinct ips \<Longrightarrow> list_all (\<lambda>ip. length ip = 4) ips \<Longrightarrow>
     (\<forall>ip \<in> set ips. admissions f (ip4_String ip) = []) \<Longrightarrow> (\<forall>x \<in> fst ` set (f_admitted f). x < ch) \<Longrightarrow>
     length (f_admitted (foldl (front_step fc c) f (flood remote now ch ips))) = length (f_admitted f) + length ips"
proof (induction ips arbitrary: f ch)
  case (Cons ip ips)
  let ?f = "admit c ch now now (ip4_String ip) f"
  have l: "length ip = 4" using Cons.prems(3) by simp
  have step: "front_step fc c f (Upgrades ch (forged remote ip) now now) = ?f"
    using Cons.prems(5) by (auto simp: WebSocketHandler_def clientIP_forged [OF l])
  have adm: "f_admitted ?f = f_admitted f @ [(ch, now, ip4_String ip)]"
    by (rule fresh_key_admitted [OF assms(1,2) Cons.prems(1) assms(3)]) (use Cons.prems(4) in simp)
  have "admissions ?f (ip4_String x) = []" if "x \<in> set ips" for x
  proof -
    have "ip4_String ip \<noteq> ip4_String x"
      using that Cons.prems(2,3) ip4_String_inject [OF l, of x] by (auto simp: list_all_iff)
    with that Cons.prems(4) show ?thesis by (simp add: admissions_def adm)
  qed
  then have "length (f_admitted (foldl (front_step fc c) ?f (flood remote now (Suc ch) ips))) =
      length (f_admitted ?f) + length ips"
    using Cons.prems(2,3,5) limited_admit [OF assms(1,2) Cons.prems(1)]
    by (intro Cons.IH) (auto simp: adm less_Suc_eq)
  then show ?case by (simp add: step adm del: front_step.simps)
qed simp

text \<open>C37. The rate limit does not bind WebSocket clients: the key is taken from a header of the request, so
  one that puts a different IPv4 address into \<^verbatim>\<open>X-Real-Ip\<close> each time has all its connections admitted at
  one instant, however many they are and however small the quota is.\<close>

theorem forged_headers_admit_all:
  assumes "lru_law c" "services_New c cfg = Inr hub" "IsEnabled cfg" "cfg_rl_entries cfg = 0" "0 < cfg_rl_window cfg"
    and "0 < sint (cfg_rl_quota cfg)" "distinct ips" "list_all (\<lambda>ip. length ip = 4) ips"
  shows "length (f_admitted (front_run fc c hub (flood remote now 0 ips))) = length ips"
  unfolding front_run_def
  using flood_admitted [OF assms(1,5,6) limited_start [OF assms(1-5)] assms(7,8), of 0 fc remote]
  by (simp add: admissions_def front_start_def)

text \<open>\<^verbatim>\<open>Validate\<close> does not look at the rate limit: without a quota, which then is zero, every connection is
  refused.\<close>

lemma unset_quota_admits_nobody:
  assumes "services_New c cfg = Inr hub" "IsEnabled cfg" "cfg_rl_quota cfg = 0"
  shows "f_admitted (front_run fc c hub es) = []"
proof -
  have hub: "\<exists>rl. hub_rateLimiter hub = Some rl \<and> rl_quota rl = 0"
    using assms by (auto simp: services_New_def Let_def NewHub_def ratelimit_New_def split: option.splits)
  have no: "\<exists>l. Allow c now key rl = (rl\<lparr>rl_lru := l\<rparr>, False)" if "rl_quota rl = 0" for now key and rl
    using that by (auto simp: Allow_def Let_def split: prod.splits)
  let ?I = "\<lambda>f. f_admitted f = [] \<and> (\<exists>rl. hub_rateLimiter (r_hub (f_relay f)) = Some rl \<and> rl_quota rl = 0)"
  have admit: "?I (admit c ch now now' key f)" if I: "?I f" for ch now now' key f
  proof -
    obtain rl where rl: "hub_rateLimiter (r_hub (f_relay f)) = Some rl" "rl_quota rl = 0" using I by blast
    obtain l where "Allow c now key rl = (rl\<lparr>rl_lru := l\<rparr>, False)" using no [OF rl(2)] by blast
    with I rl show ?thesis by (simp add: admit_def Let_def set_limiter_def)
  qed
  have "?I f \<Longrightarrow> ?I (foldl (front_step fc c) f es)" for f
  proof (induction es arbitrary: f)
    case (Cons e es)
    have "?I (front_step fc c f e)"
      using Cons.prems admit [OF Cons.prems]
      by (cases e) (auto simp: acceptLoop_def WebSocketHandler_def Let_def simp del: relay_step.simps split: option.splits)
    from Cons.IH [OF this] show ?case by simp
  qed simp
  with hub show ?thesis by (simp add: front_run_def front_start_def relay_start_def)
qed

subsection \<open>The handshake timeout\<close>

text \<open>Handlers exist only for admitted connections. Until the registration is answered the connection has
  the timeout it was given; from then on it has none.\<close>

definition settled_phase :: "phase \<Rightarrow> bool" where
  "settled_phase p = (case p of Pumping \<Rightarrow> True | Forwarding _ _ \<Rightarrow> True | Ponging \<Rightarrow> True | Closing \<Rightarrow> True | Leaving \<Rightarrow> True | _ \<Rightarrow> False)"




text \<open>The moves of a handler between its phases.\<close>

definition phase_moves :: "phase option \<Rightarrow> phase option \<Rightarrow> bool" where
  "phase_moves p p' \<longleftrightarrow> p' = p \<or>
     (case p of
        None \<Rightarrow> p' = Some Greeting
      | Some q \<Rightarrow>
          (case p' of
             None \<Rightarrow> False
           | Some q' \<Rightarrow> q \<noteq> Finished \<and> (settled_phase q \<longrightarrow> settled_phase q' \<or> q' = Finished) \<and>
               (settled_phase q' \<and> \<not> settled_phase q \<longrightarrow> (\<exists>a b d. q = Replying a b d) \<and> q' = Pumping)))"

lemma moves_refl [simp]: "phase_moves p p"
  by (simp add: phase_moves_def)





lemma handlers_kept [simp]:
  "r_handlers (close_chans chs r) = r_handlers r" "r_handlers (set_sessions sm r) = r_handlers r"
  by (simp_all add: close_chans_def set_sessions_def)


lemma phase_of_kept [simp]: "phase_of (close_chans chs r) = phase_of r" "phase_of (set_sessions sm r) = phase_of r"
  by (simp_all add: phase_of_def fun_eq_iff)



lemma moves_phases [simp]:
  "phase_moves (Some Greeting) (Some Acking)" "phase_moves (Some Acking) (Some Authenticated)"
  "phase_moves (Some (Replying a b d)) (Some Pumping)" "phase_moves (Some Pumping) (Some (Forwarding p x))"
  "phase_moves (Some (Forwarding p x)) (Some Pumping)" "phase_moves (Some Pumping) (Some Ponging)" "phase_moves (Some Ponging) (Some Pumping)"
  "phase_moves (Some Pumping) (Some Closing)" "phase_moves (Some Closing) (Some Leaving)"
  by (simp_all add: phase_moves_def settled_phase_def)


















subsection \<open>Instances\<close>

definition demo_config :: relay_config where
  "demo_config = \<lparr>cfg_password = [], cfg_diagnose = False, cfg_ws = True, cfg_tcp = True, cfg_tls = False,
     cfg_tls_cert = [], cfg_tls_key = [], cfg_wss = False, cfg_wss_cert = [], cfg_wss_key = [], cfg_broker = False,
     cfg_broker_ttl = 0, cfg_token_ttl = 60 * second, cfg_session_ttl = 0, cfg_handshake_timeout = 0,
     cfg_max_sessions = 10, cfg_max_message = 65536, cfg_rl_disabled = False, cfg_rl_window = 60 * second,
     cfg_rl_quota = 1, cfg_rl_entries = 0\<rparr>"

definition demo_front_hub :: "((bytes \<times> gotime list \<times> gotime) list \<times> duration) hub" where
  "demo_front_hub = NewHub (NewSessionManager (60 * second) 10 0) [] 65536 (Some (ratelimit_New demo_lru 1 (60 * second) 0)) (30 * second)"

lemma demo_services: "services_New demo_lru demo_config = Inr demo_front_hub"
  by (simp add: services_New_def config_Validate_def demo_config_def IsEnabled_def handshake_timeout_def demo_front_hub_def second_def)

lemma demo_rate: "IsEnabled demo_config" "cfg_rl_entries demo_config = 0" "0 < cfg_rl_window demo_config"
    "sint (cfg_rl_quota demo_config) = 1"
  by (simp_all add: IsEnabled_def demo_config_def second_def)


theorem forged_headers_admit_all_witness:
  "length (f_admitted (front_run demo_frames demo_lru demo_front_hub
     (flood (lit ''192.0.2.1:4000'') 1 0 [[10, 0, 0, 1], [10, 0, 0, 2], [10, 0, 0, 3]]))) = 3"
proof -
  have "distinct [[10, 0, 0, 1], [10, 0, 0, 2], [10, 0, 0, 3] :: ip]"
    "list_all (\<lambda>ip. length ip = 4) [[10, 0, 0, 1], [10, 0, 0, 2], [10, 0, 0, 3] :: ip]" "0 < sint (cfg_rl_quota demo_config)"
    by (simp_all add: demo_rate(4))
  from forged_headers_admit_all [OF demo_lru_law demo_services demo_rate(1-3) this(3,1,2)] show ?thesis by simp
qed


end
