(* ===== verification/Relayconn.thy ===== *)
theory Relayconn
  imports Relay
begin

text \<open>
  The clients of the relay, pkg/relayconn: the registration of a dialer and of a listener (dial.go,
  listener.go, auth.go, options.go), the connection a client reads from and writes to (conn.go) and the
  listener that hands out such connections (listener.go). The registration is a protocol function over
  the tunnel; the connection and the listener are shared by several goroutines, and their state changes
  in the steps that these take under their locks and at their channels.
\<close>

subsection \<open>Registration\<close>

record rc_options =
  o_password :: bytes
  o_token :: bytes



definition WithToken :: "bytes \<Rightarrow> rc_options \<Rightarrow> rc_options" where
  "WithToken t opt = opt\<lparr>o_token := t\<rparr>"

datatype rc_error = RcErr kerror | RcUnexpectedFrame | RcEmptyToken

text \<open>A frame is marshalled and written; a frame is read and unmarshalled.\<close>

definition send_frame :: "crypto \<Rightarrow> relay_frame codec \<Rightarrow> link \<Rightarrow> relay_frame \<Rightarrow> (rc_error + link) io" where
  "send_frame cr fc ch f =
     (case enc fc f of
        None \<Rightarrow> Return (Inl (RcErr ErrMarshal))
      | Some b \<Rightarrow>
          io_bind (link_WriteBytes cr ch b) (\<lambda>(ch', r).
            Return (case r of Inl e \<Rightarrow> Inl (RcErr e) | Inr _ \<Rightarrow> Inr ch')))"

definition recv_frame :: "crypto \<Rightarrow> relay_frame codec \<Rightarrow> link \<Rightarrow> (rc_error + link \<times> relay_frame) io" where
  "recv_frame cr fc ch =
     io_bind (link_ReadBytes cr ch) (\<lambda>(ch', r).
       Return (case r of
           Inl e \<Rightarrow> Inl (RcErr e)
         | Inr b \<Rightarrow> (case dec fc b of None \<Rightarrow> Inl (RcErr ErrUnmarshal) | Some f \<Rightarrow> Inr (ch', f))))"

definition sendAuth :: "crypto \<Rightarrow> relay_frame codec \<Rightarrow> link \<Rightarrow> bytes \<Rightarrow> (rc_error + link) io" where
  "sendAuth cr fc ch password =
     io_try (send_frame cr fc ch (Auth password)) (\<lambda>ch1.
       io_try (recv_frame cr fc ch1) (\<lambda>(ch2, f).
         Return (case f of Auth _ \<Rightarrow> Inr ch2 | _ \<Rightarrow> Inl RcUnexpectedFrame)))"

definition auth_if :: "crypto \<Rightarrow> relay_frame codec \<Rightarrow> link \<Rightarrow> rc_options \<Rightarrow> (rc_error + link) io" where
  "auth_if cr fc ch opt = (if o_password opt \<noteq> [] then sendAuth cr fc ch (o_password opt) else Return (Inr ch))"

text \<open>The part of \<^verbatim>\<open>relayHandshake\<close> and of \<^verbatim>\<open>listenHandshake\<close> after the key exchange: the times to live of
  the token and of the session, and for the listener the token.\<close>

definition dial_register :: "crypto \<Rightarrow> relay_frame codec \<Rightarrow> bytes \<Rightarrow> rc_options \<Rightarrow> link \<Rightarrow> (rc_error + link \<times> duration \<times> duration) io" where
  "dial_register cr fc token opt ch =
     io_try (auth_if cr fc ch opt) (\<lambda>ch1.
       io_try (send_frame cr fc ch1 (Register token MODE_JOIN)) (\<lambda>ch2.
         io_try (recv_frame cr fc ch2) (\<lambda>(ch3, f).
           Return (case f of
               Registered _ ttl sessionTTL \<Rightarrow> Inr (ch3, int (unat ttl) * second, int (unat sessionTTL) * second)
             | _ \<Rightarrow> Inl RcUnexpectedFrame))))"

definition listen_register :: "crypto \<Rightarrow> relay_frame codec \<Rightarrow> rc_options \<Rightarrow> link \<Rightarrow> (rc_error + link \<times> bytes \<times> duration \<times> duration) io" where
  "listen_register cr fc opt ch =
     io_try (auth_if cr fc ch opt) (\<lambda>ch1.
       io_try (send_frame cr fc ch1 (Register (o_token opt) MODE_CREATE)) (\<lambda>ch2.
         io_try (recv_frame cr fc ch2) (\<lambda>(ch3, f).
           Return (case f of
               Registered token ttl sessionTTL \<Rightarrow>
                 if token = [] then Inl RcEmptyToken
                 else Inr (ch3, token, int (unat ttl) * second, int (unat sessionTTL) * second)
             | _ \<Rightarrow> Inl RcEmptyToken))))"

text \<open>A failed registration closes the channel; a failed key exchange runs \<^verbatim>\<open>closeFn\<close>, which closes the
  connection too.\<close>

definition closing_on_error :: "(rc_error + 'a) io \<Rightarrow> (rc_error + 'a) io" where
  "closing_on_error p = io_bind p (\<lambda>r. case r of Inl e \<Rightarrow> CloseConn (\<lambda>_. Return (Inl e)) | Inr x \<Rightarrow> Return (Inr x))"

definition hpke_initiate :: "crypto \<Rightarrow> (rc_error + link) io" where
  "hpke_initiate cr = io_bind (Initiate cr) (\<lambda>r. Return (case r of Inl e \<Rightarrow> Inl (RcErr e) | Inr ch \<Rightarrow> Inr (Tunnelled ch)))"

definition relayHandshake :: "crypto \<Rightarrow> relay_frame codec \<Rightarrow> bytes \<Rightarrow> rc_options \<Rightarrow> (rc_error + link \<times> duration \<times> duration) io" where
  "relayHandshake cr fc token opt =
     closing_on_error (io_try (hpke_initiate cr) (\<lambda>ch. dial_register cr fc token opt ch))"

definition listenHandshake :: "crypto \<Rightarrow> relay_frame codec \<Rightarrow> rc_options \<Rightarrow> (rc_error + link \<times> bytes \<times> duration \<times> duration) io" where
  "listenHandshake cr fc opt =
     closing_on_error (io_try (hpke_initiate cr) (\<lambda>ch. listen_register cr fc opt ch))"

subsection \<open>A client talking to the relay\<close>



subsection \<open>The connection\<close>

text \<open>\<^verbatim>\<open>RelayConn\<close>. \<open>rc_recv\<close> is the channel \<^verbatim>\<open>recv\<close> of capacity one, \<open>rc_done\<close> its own context. A reader is
  at the top of the loop of \<^verbatim>\<open>ReadBytes\<close> or waits in its \<^verbatim>\<open>select\<close>, with a timer when there was a
  deadline. \<open>rc_results\<close> are the results it has returned, \<open>rc_pushed\<close> the messages it has been handed.\<close>

datatype read_error = EDeadlineExceeded | EEOF

datatype reader = Idle | Looking | Waiting bool

record relay_conn =
  rc_buf :: "bytes list"
  rc_recv :: bool
  rc_done :: bool
  rc_deadline :: gotime
  rc_reader :: reader
  rc_results :: "(read_error + bytes) list"
  rc_pushed :: "bytes list"

definition newRelayConn :: relay_conn where
  "newRelayConn = \<lparr>rc_buf = [], rc_recv = False, rc_done = False, rc_deadline = zero_time, rc_reader = Idle,
     rc_results = [], rc_pushed = []\<rparr>"

definition pushData :: "bytes \<Rightarrow> relay_conn \<Rightarrow> relay_conn" where
  "pushData d rc = rc\<lparr>rc_buf := rc_buf rc @ [d], rc_recv := True, rc_pushed := rc_pushed rc @ [d]\<rparr>"

definition rc_SetDeadline :: "gotime \<Rightarrow> relay_conn \<Rightarrow> relay_conn" where
  "rc_SetDeadline t rc = rc\<lparr>rc_deadline := t\<rparr>"

definition returns :: "read_error + bytes \<Rightarrow> relay_conn \<Rightarrow> relay_conn" where
  "returns x rc = rc\<lparr>rc_reader := Idle, rc_results := rc_results rc @ [x]\<rparr>"

definition rc_look :: "gotime \<Rightarrow> relay_conn \<Rightarrow> relay_conn" where
  "rc_look now rc =
     (if rc_reader rc \<noteq> Looking then rc
      else case rc_buf rc of
        d # ds \<Rightarrow> returns (Inr d) (rc\<lparr>rc_buf := ds\<rparr>)
      | [] \<Rightarrow>
          if rc_deadline rc = zero_time then rc\<lparr>rc_reader := Waiting False\<rparr>
          else if rc_deadline rc - now \<le> 0 then returns (Inl EDeadlineExceeded) rc
          else rc\<lparr>rc_reader := Waiting True\<rparr>)"

datatype wake = Signal | Timer | Cancelled

text \<open>The ready cases of the \<^verbatim>\<open>select\<close>; \<open>cancelled\<close> is the state of the context of the listener, which
  ends that of the connection too.\<close>

definition rc_wake :: "wake \<Rightarrow> bool \<Rightarrow> relay_conn \<Rightarrow> relay_conn" where
  "rc_wake w cancelled rc =
     (case rc_reader rc of
        Waiting timed \<Rightarrow>
          (case w of
             Signal \<Rightarrow> if rc_recv rc then rc\<lparr>rc_recv := False, rc_reader := Looking\<rparr> else rc
           | Timer \<Rightarrow> if timed then returns (Inl EDeadlineExceeded) rc else rc
           | Cancelled \<Rightarrow> if cancelled \<or> rc_done rc then returns (Inl EEOF) rc else rc)
      | _ \<Rightarrow> rc)"

text \<open>\<^verbatim>\<open>WriteBytes\<close>, and what the two functions \<^verbatim>\<open>readPump\<close> do with the bytes of a frame: the message they pass
  on and the frame they answer with.\<close>

definition rc_WriteBytes :: "crypto \<Rightarrow> relay_frame codec \<Rightarrow> link \<Rightarrow> bytes \<Rightarrow> (rc_error + link) io" where
  "rc_WriteBytes cr fc ch d = send_frame cr fc ch (Msg d)"

definition pump_frame :: "relay_frame codec \<Rightarrow> bytes \<Rightarrow> bytes option \<times> relay_frame option" where
  "pump_frame fc b =
     (case dec fc b of
        None \<Rightarrow> (None, None)
      | Some (Msg d) \<Rightarrow> (Some d, None)
      | Some Ping \<Rightarrow> (None, Some Pong)
      | Some _ \<Rightarrow> (None, None))"

subsection \<open>The listener\<close>

text \<open>\<^verbatim>\<open>RelayListener\<close> with the connections it has made; a connection is known by its number. \<open>l_offering\<close>
  is the connection that \<^verbatim>\<open>deliver\<close> has made and not yet put into the channel \<^verbatim>\<open>accept\<close>, of capacity one.
  \<open>l_accepted\<close> are the connections handed out by \<^verbatim>\<open>Accept\<close>, \<open>l_received\<close> the messages that \<^verbatim>\<open>readPump\<close>, which
  runs while \<open>l_pump\<close>, has read.\<close>

record relay_listener =
  l_conns :: "relay_conn list"
  l_conn :: "nat option"
  l_accept :: "nat option"
  l_offering :: "nat option"
  l_stopped :: bool
  l_cancelled :: bool
  l_closed :: bool
  l_accepted :: "nat list"
  l_pump :: bool
  l_received :: "bytes list"

definition new_listener :: relay_listener where
  "new_listener = \<lparr>l_conns = [], l_conn = None, l_accept = None, l_offering = None, l_stopped = False,
     l_cancelled = False, l_closed = False, l_accepted = [], l_pump = True, l_received = []\<rparr>"

definition on_conn :: "nat \<Rightarrow> (relay_conn \<Rightarrow> relay_conn) \<Rightarrow> relay_listener \<Rightarrow> relay_listener" where
  "on_conn i g l = (if i < length (l_conns l) then l\<lparr>l_conns := (l_conns l)[i := g (l_conns l ! i)]\<rparr> else l)"

definition deliver :: "bytes \<Rightarrow> relay_listener \<Rightarrow> relay_listener" where
  "deliver d l =
     (case l_conn l of
        Some i \<Rightarrow> on_conn i (pushData d) l
      | None \<Rightarrow>
          if l_stopped l then l
          else l\<lparr>l_conns := l_conns l @ [pushData d newRelayConn], l_conn := Some (length (l_conns l)),
                 l_offering := Some (length (l_conns l))\<rparr>)"

definition offer :: "relay_listener \<Rightarrow> relay_listener" where
  "offer l =
     (case l_offering l of
        None \<Rightarrow> l
      | Some i \<Rightarrow>
          if l_accept l = None then l\<lparr>l_accept := Some i, l_offering := None\<rparr>
          else l\<lparr>l_conn := None, l_offering := None\<rparr>)"

text \<open>\<^verbatim>\<open>RelayConn.Close\<close> of a connection of the listener, with its \<^verbatim>\<open>closeFn\<close>.\<close>

definition close_conn :: "nat \<Rightarrow> relay_listener \<Rightarrow> relay_listener" where
  "close_conn i l =
     (let l1 = (on_conn i (\<lambda>rc. rc\<lparr>rc_done := True\<rparr>) l)\<lparr>l_conn := None\<rparr> in
      if l_stopped l1 then l1\<lparr>l_cancelled := True, l_closed := True\<rparr> else l1)"

definition listener_Close :: "relay_listener \<Rightarrow> relay_listener" where
  "listener_Close l =
     (let l1 = (case l_conn l of Some i \<Rightarrow> close_conn i l | None \<Rightarrow> l)
      in l1\<lparr>l_cancelled := True, l_closed := True\<rparr>)"

definition listener_Stop :: "relay_listener \<Rightarrow> relay_listener" where
  "listener_Stop l =
     (let l1 = l\<lparr>l_stopped := True\<rparr> in
      case l_accept l1 of Some i \<Rightarrow> close_conn i (l1\<lparr>l_accept := None\<rparr>) | None \<Rightarrow> l1)"

text \<open>\<^verbatim>\<open>Accept\<close> when it hands out a connection; its error returns change nothing.\<close>

definition rl_Accept :: "relay_listener \<Rightarrow> relay_listener" where
  "rl_Accept l =
     (if l_stopped l then l
      else case l_accept l of None \<Rightarrow> l | Some i \<Rightarrow> l\<lparr>l_accept := None, l_accepted := l_accepted l @ [i]\<rparr>)"

datatype listener_event =
    Delivers bytes
  | Offers
  | PumpEnds
  | Accepting
  | Closes nat
  | ClosesAll
  | Stops
  | Calls nat
  | Looks nat gotime
  | Wakes nat wake
  | SetsDeadline nat gotime

text \<open>A message is delivered by the one goroutine of \<^verbatim>\<open>readPump\<close>, after it has offered the connection made
  for the one before, and until a read of it fails.\<close>

fun listener_step :: "relay_listener \<Rightarrow> listener_event \<Rightarrow> relay_listener" where
  "listener_step l (Delivers d) =
     (if l_offering l = None \<and> l_pump l then deliver d (l\<lparr>l_received := l_received l @ [d]\<rparr>) else l)"
| "listener_step l Offers = offer l"
| "listener_step l PumpEnds = l\<lparr>l_cancelled := True, l_pump := False\<rparr>"
| "listener_step l Accepting = rl_Accept l"
| "listener_step l (Closes i) = (if i < length (l_conns l) then close_conn i l else l)"
| "listener_step l ClosesAll = listener_Close l"
| "listener_step l Stops = listener_Stop l"
| "listener_step l (Calls i) = on_conn i (\<lambda>rc. if rc_reader rc = Idle then rc\<lparr>rc_reader := Looking\<rparr> else rc) l"
| "listener_step l (Looks i now) = on_conn i (rc_look now) l"
| "listener_step l (Wakes i w) = on_conn i (rc_wake w (l_cancelled l)) l"
| "listener_step l (SetsDeadline i t) = on_conn i (rc_SetDeadline t) l"

definition listener_run :: "listener_event list \<Rightarrow> relay_listener" where
  "listener_run es = foldl listener_step new_listener es"

subsection \<open>Registering with the relay\<close>

lemma written_is_pumped:
  assumes "codec_ok relay_frame_ok fc" "relay_frame_ok (Msg d)"
  obtains b k where "rc_WriteBytes cr fc Plain d = Write b k" "k None = Return (Inr Plain)" "pump_frame fc b = (Some d, None)"
proof -
  obtain b where "enc fc (Msg d) = Some b" using assms unfolding codec_ok_def by blast
  moreover have "dec fc (the (enc fc (Msg d))) = Some (Msg d)" by (rule dec_enc [OF assms])
  ultimately show thesis
    by (intro that [of b "\<lambda>e. Return (case (case e of None \<Rightarrow> Inr () | Some e \<Rightarrow> Inl (ConnErr e)) of
          Inl e \<Rightarrow> Inl (RcErr e) | Inr _ \<Rightarrow> Inr Plain)"])
      (auto simp: rc_WriteBytes_def send_frame_def pump_frame_def link_WriteBytes_def)
qed













subsection \<open>Messages in order\<close>

definition read_data :: "(read_error + bytes) list \<Rightarrow> bytes list" where
  "read_data xs = concat (map (\<lambda>x. case x of Inr d \<Rightarrow> [d] | Inl _ \<Rightarrow> []) xs)"

definition conn_ok :: "relay_conn \<Rightarrow> bool" where
  "conn_ok rc \<longleftrightarrow> rc_pushed rc = read_data (rc_results rc) @ rc_buf rc"

text \<open>The current connection is the newest one, and what has been read went to the connections in order.\<close>

definition listener_ok :: "relay_listener \<Rightarrow> bool" where
  "listener_ok l \<longleftrightarrow> list_all conn_ok (l_conns l) \<and>
     (\<forall>i. l_conn l = Some i \<longrightarrow> Suc i = length (l_conns l)) \<and>
     (\<exists>lost. l_received l = concat (map rc_pushed (l_conns l)) @ lost \<and>
        (lost \<noteq> [] \<longrightarrow> l_stopped l \<and> l_conn l = None))"

lemma read_data_append [simp]: "read_data (xs @ ys) = read_data xs @ read_data ys"
  by (simp add: read_data_def)

lemma conn_ok_steps:
  assumes "conn_ok rc"
  shows "conn_ok (rc\<lparr>rc_done := x\<rparr>)" "conn_ok (rc\<lparr>rc_reader := y\<rparr>)" "conn_ok (rc_look now rc)" "conn_ok (rc_wake w c rc)"
    "conn_ok (rc_SetDeadline t rc)" "conn_ok (pushData d rc)"
  using assms
  by (auto simp: conn_ok_def rc_look_def rc_wake_def rc_SetDeadline_def pushData_def returns_def read_data_def
      split: list.splits reader.splits wake.splits)

lemma pushed_kept [simp]:
  "rc_pushed (rc_look now rc) = rc_pushed rc" "rc_pushed (rc_wake w c rc) = rc_pushed rc" "rc_pushed (rc_SetDeadline t rc) = rc_pushed rc"
  by (auto simp: rc_look_def rc_wake_def rc_SetDeadline_def returns_def split: list.splits reader.splits wake.splits)

lemma on_conn_quiet:
  assumes "listener_ok l" "\<And>rc. conn_ok rc \<Longrightarrow> conn_ok (g rc)" "\<And>rc. rc_pushed (g rc) = rc_pushed rc"
  shows "listener_ok (on_conn i g l)"
proof -
  have "map rc_pushed ((l_conns l)[i := g (l_conns l ! i)]) = map rc_pushed (l_conns l)" if "i < length (l_conns l)"
    using that by (intro nth_equalityI) (auto simp: nth_list_update assms(3))
  moreover have "list_all conn_ok ((l_conns l)[i := g (l_conns l ! i)])" if "i < length (l_conns l)"
    using assms(1,2) that by (auto simp: listener_ok_def list_all_length nth_list_update)
  ultimately show ?thesis using assms(1) by (auto simp: on_conn_def listener_ok_def)
qed

lemma listener_ok_flags:
  assumes "listener_ok l"
  shows "listener_ok (l\<lparr>l_conn := None\<rparr>)" "listener_ok (l\<lparr>l_accept := a\<rparr>)" "listener_ok (l\<lparr>l_offering := a\<rparr>)"
    "listener_ok (l\<lparr>l_cancelled := b\<rparr>)" "listener_ok (l\<lparr>l_closed := b\<rparr>)" "listener_ok (l\<lparr>l_stopped := True\<rparr>)"
    "listener_ok (l\<lparr>l_accepted := xs\<rparr>)" "listener_ok (l\<lparr>l_pump := b\<rparr>)"
  using assms by (auto simp: listener_ok_def)

lemma close_conn_ok: "listener_ok l \<Longrightarrow> listener_ok (close_conn i l)"
  unfolding close_conn_def Let_def
  by (simp add: listener_ok_flags on_conn_quiet conn_ok_steps)

lemma deliver_ok:
  assumes "listener_ok l"
  shows "listener_ok (deliver d (l\<lparr>l_received := l_received l @ [d]\<rparr>))"
proof (cases "l_conn l")
  case None
  with assms show ?thesis
    by (auto simp: deliver_def listener_ok_def pushData_def newRelayConn_def conn_ok_def read_data_def)
next
  case (Some i)
  then have i: "length (l_conns l) = Suc i" using assms by (auto simp: listener_ok_def)
  then obtain cs c where cs: "l_conns l = cs @ [c]" "length cs = i" by (cases "l_conns l" rule: rev_cases) auto
  have "conn_ok c" using assms cs by (simp add: listener_ok_def)
  then have "conn_ok (pushData d c)" by (rule conn_ok_steps)
  with assms Some cs show ?thesis
    by (auto simp: deliver_def on_conn_def listener_ok_def list_update_append nth_append) (simp add: pushData_def)
qed

lemma offer_ok: "listener_ok l \<Longrightarrow> listener_ok (offer l)"
  by (auto simp: offer_def listener_ok_def split: option.splits)

lemma Accept_ok: "listener_ok l \<Longrightarrow> listener_ok (rl_Accept l)"
  by (auto simp: rl_Accept_def listener_ok_def split: option.splits)

lemma Close_ok: "listener_ok l \<Longrightarrow> listener_ok (listener_Close l)"
  unfolding listener_Close_def Let_def
  by (rule listener_ok_flags(5), rule listener_ok_flags(4)) (simp add: close_conn_ok split: option.splits)

lemma Stop_ok:
  assumes "listener_ok l"
  shows "listener_ok (listener_Stop l)"
proof -
  have "listener_ok (l\<lparr>l_stopped := True\<rparr>)" by (rule listener_ok_flags(6) [OF assms])
  then show ?thesis
    unfolding listener_Stop_def Let_def
    using close_conn_ok listener_ok_flags(2) [of "l\<lparr>l_stopped := True\<rparr>" None] by (auto split: option.splits)
qed

interpretation lst: machine listener_step listener_ok
proof
  fix l e
  assume ok: "listener_ok l"
  show "listener_ok (listener_step l e)"
  proof (cases e)
    case (Delivers d)
    with ok deliver_ok [OF ok] show ?thesis by simp
  next
    case (Calls i)
    have "listener_ok (on_conn i (\<lambda>rc. if rc_reader rc = Idle then rc\<lparr>rc_reader := Looking\<rparr> else rc) l)"
      by (rule on_conn_quiet [OF ok]) (simp_all add: conn_ok_steps)
    with Calls show ?thesis by simp
  next
    case PumpEnds
    from listener_ok_flags(8) [OF listener_ok_flags(4) [OF ok, of True], of False] PumpEnds show ?thesis by simp
  qed (simp_all add: ok on_conn_quiet conn_ok_steps offer_ok Accept_ok Close_ok Stop_ok close_conn_ok)
qed

text \<open>C25. A listener neither reorders, repeats nor makes up messages: whatever connections are
  accepted, closed, read and timed out, the messages handed to its connections, one connection after the
  other, are the messages read from the relay in order; after \<^verbatim>\<open>Stop\<close> they are a prefix of them. And of each connection the messages its reader has got, in order, followed by those
  still buffered, are the messages handed to it.\<close>

theorem listener_keeps_order:
  "let l = listener_run es in
     (\<exists>lost. l_received l = concat (map rc_pushed (l_conns l)) @ lost \<and> (\<not> l_stopped l \<longrightarrow> lost = [])) \<and>
     list_all (\<lambda>rc. rc_pushed rc = read_data (rc_results rc) @ rc_buf rc) (l_conns l)"
proof -
  have "listener_ok new_listener" by (simp add: listener_ok_def new_listener_def)
  then have "listener_ok (listener_run es)" unfolding listener_run_def by (rule lst.run)
  then show ?thesis by (auto simp: Let_def listener_ok_def conn_ok_def list_all_iff)
qed

theorem listener_keeps_order_witness:
  "let l = listener_run [Delivers [1], Offers, Accepting, Calls 0, Looks 0 0, Closes 0, Delivers [2]] in
     l_received l = [[1], [2]] \<and> map rc_pushed (l_conns l) = [[[1]], [[2]]] \<and>
     (\<not> l_stopped l \<longrightarrow> l_received l = concat (map rc_pushed (l_conns l)))"
  using listener_keeps_order [of "[Delivers [1], Offers, Accepting, Calls 0, Looks 0 0, Closes 0, Delivers [2]]"]
  by (simp add: listener_run_def new_listener_def deliver_def offer_def rl_Accept_def on_conn_def
      pushData_def newRelayConn_def rc_look_def returns_def close_conn_def read_data_def)

text \<open>C38. Closing a connection twice cuts off its successor: \<^verbatim>\<open>Close\<close> of a connection clears the listener's
  current connection even when that is another one. So if an earlier connection is closed again while a
  later one is in use, the next message goes to a new connection, which is offered to \<^verbatim>\<open>Accept\<close>, and the
  later one gets nothing any more although it is neither closed nor cancelled.\<close>

theorem second_close_detaches_live_connection:
  assumes "l_conn l = Some j" "j < length (l_conns l)" "i < length (l_conns l)" "i \<noteq> j"
    and "\<not> l_stopped l" "l_pump l" "l_offering l = None"
  shows "let l' = listener_step (listener_step l (Closes i)) (Delivers d) in
     l_conns l' ! j = l_conns l ! j \<and> length (l_conns l') = Suc (length (l_conns l)) \<and>
     rc_buf (last (l_conns l')) = [d] \<and> l_offering l' = Some (length (l_conns l))"
  using assms
  by (simp add: Let_def close_conn_def on_conn_def deliver_def nth_append pushData_def newRelayConn_def)

theorem second_close_detaches_live_connection_witness:
  "let l = listener_run [Delivers [1], Offers, Accepting, Closes 0, Delivers [2], Offers, Accepting];
       l' = listener_step (listener_step l (Closes 0)) (Delivers [3]) in
     l_conn l = Some 1 \<and> l_accepted l = [0, 1] \<and> rc_buf (l_conns l' ! 1) = [[2]] \<and> rc_buf (last (l_conns l')) = [[3]]"
proof -
  let ?l = "listener_run [Delivers [1], Offers, Accepting, Closes 0, Delivers [2], Offers, Accepting]"
  have l: "l_conn ?l = Some 1" "1 < length (l_conns ?l)" "0 < length (l_conns ?l)" "\<not> l_stopped ?l" "l_pump ?l" "l_offering ?l = None"
      "l_accepted ?l = [0, 1]" "rc_buf (l_conns ?l ! 1) = [[2]]"
    by (simp_all add: listener_run_def new_listener_def deliver_def offer_def rl_Accept_def on_conn_def
        pushData_def newRelayConn_def close_conn_def)
  from second_close_detaches_live_connection [OF l(1-3) zero_neq_one l(4-6), of "[3]"] l(1,7,8) show ?thesis
    by (simp add: Let_def)
qed

text \<open>The last message can be lost at the end of a connection: a reader that waits when a message arrives
  and the relay connection ends right after it may be woken by the end, and returns \<^verbatim>\<open>io.EOF\<close> with the
  message still in the buffer.\<close>

theorem end_overtakes_message:
  assumes "l_conn l = Some i" "i < length (l_conns l)" "rc_reader (l_conns l ! i) = Waiting timed" "rc_buf (l_conns l ! i) = []"
    and "l_pump l" "l_offering l = None"
  shows "let rc = l_conns (foldl listener_step l [Delivers d, PumpEnds, Wakes i Cancelled]) ! i in
     rc_results rc = rc_results (l_conns l ! i) @ [Inl EEOF] \<and> rc_buf rc = [d]"
  using assms by (simp add: Let_def deliver_def on_conn_def pushData_def rc_wake_def returns_def)

theorem end_overtakes_message_witness:
  "let rc = l_conns (listener_run [Delivers [1], Offers, Accepting, Calls 0, Looks 0 0, Calls 0, Looks 0 0,
         Delivers [2], PumpEnds, Wakes 0 Cancelled]) ! 0 in
     rc_results rc = [Inr [1], Inl EEOF] \<and> rc_buf rc = [[2]]"
proof -
  let ?l = "listener_run [Delivers [1], Offers, Accepting, Calls 0, Looks 0 0, Calls 0, Looks 0 0]"
  have l: "l_conn ?l = Some 0" "0 < length (l_conns ?l)" "rc_reader (l_conns ?l ! 0) = Waiting False" "rc_buf (l_conns ?l ! 0) = []"
      "l_pump ?l" "l_offering ?l = None" "rc_results (l_conns ?l ! 0) = [Inr [1]]"
    by (simp_all add: listener_run_def new_listener_def deliver_def offer_def rl_Accept_def on_conn_def
        pushData_def newRelayConn_def rc_look_def returns_def)
  from end_overtakes_message [OF l(1-6), of "[2]"] l(7) show ?thesis
    by (simp add: Let_def listener_run_def)
qed

end
