(* ===== verification/Messaging.thy ===== *)
theory Messaging
  imports Chats Handshake
begin

text \<open>
  The sessions of the daemon, cmd/daemon/messaging.go: sending a message, the loop that receives, answers
  pings and keeps the history, the keep-alive loop with its pings, and the reconnection with its
  back-off.
\<close>

subsection \<open>Messages\<close>

text \<open>\<^verbatim>\<open>Metadata.Timestamp\<close>: a missing timestamp is the epoch.\<close>

definition Timestamp :: "metadata \<Rightarrow> gotime" where
  "Timestamp md = (case md_Timestamp md of Some t \<Rightarrow> t | None \<Rightarrow> 0)"

record message_info =
  mi_Text :: bytes
  mi_Timestamp :: gotime
  mi_IsLocal :: bool

datatype daemon_event =
    EvtMessageSent bytes gotime
  | EvtMessageReceived bytes bytes gotime
  | EvtSessionUpdated bytes

text \<open>A live session with what its goroutines use of the daemon: the open store, if there is one, the
  incognito switch and the events emitted. \<open>ls_pongCh\<close> is the channel of capacity one.\<close>

record 'd live_session =
  ls_ID :: bytes
  ls_Transport :: transport
  ls_Messages :: "message_info list"
  ls_LastActivity :: gotime
  ls_pongCh :: "bytes option"
  ls_store :: "'d storage option"
  ls_incognito :: bool
  ls_emitted :: "daemon_event list"

definition emit :: "daemon_event \<Rightarrow> 'd live_session \<Rightarrow> 'd live_session" where
  "emit e s = s\<lparr>ls_emitted := ls_emitted s @ [e]\<rparr>"

text \<open>A message is appended to the session, with the time of the last activity, and to the history; an
  error of the store is ignored.\<close>

definition keep_message :: "crypto \<Rightarrow> 'd bolt \<Rightarrow> message_info \<Rightarrow> 'd live_session \<Rightarrow> 'd live_session io" where
  "keep_message cr bd m s =
     Now (\<lambda>now.
       let s1 = s\<lparr>ls_Messages := ls_Messages s @ [m], ls_LastActivity := now\<rparr> in
       case ls_store s1 of
         Some store \<Rightarrow>
           if ls_incognito s1 then Return s1
           else io_bind (AddChatEntry cr bd store (ls_ID s1) (mi_Text m) (mi_Timestamp m)
                  (if mi_IsLocal m then SenderLocal else SenderPeer)) (\<lambda>(store', _).
                Return (s1\<lparr>ls_store := Some store'\<rparr>))
       | None \<Rightarrow> Return s1)"

text \<open>\<^verbatim>\<open>handleSendMessage\<close> on a session that exists and data that has been decoded.\<close>

definition send_message :: "crypto \<Rightarrow> wire \<Rightarrow> 'd bolt \<Rightarrow> bytes \<Rightarrow> 'd live_session \<Rightarrow> ('d live_session \<times> kerror option) io" where
  "send_message cr w bd data s =
     io_bind (Send cr w (w_bytes w) (ls_Transport s) data RouteExchangeMessages) (\<lambda>(t, r).
       let s1 = s\<lparr>ls_Transport := t\<rparr> in
       case r of
         Inl e \<Rightarrow> Return (s1, Some e)
       | Inr md \<Rightarrow>
           io_bind (keep_message cr bd \<lparr>mi_Text = data, mi_Timestamp = Timestamp md, mi_IsLocal = True\<rparr> s1) (\<lambda>s2.
             Return (emit (EvtSessionUpdated (ls_ID s2)) (emit (EvtMessageSent (ls_ID s2) (Timestamp md)) s2), None)))"

text \<open>One turn of the loop of \<^verbatim>\<open>receiveMessagesBlocking\<close>: go on, or stop with an error.\<close>

definition receive_turn :: "crypto \<Rightarrow> wire \<Rightarrow> 'd bolt \<Rightarrow> 'd live_session \<Rightarrow> ('d live_session \<times> kerror option) io" where
  "receive_turn cr w bd s =
     io_bind (Receive cr w (w_bytes w) (ls_Transport s)) (\<lambda>(t, r).
       let s1 = s\<lparr>ls_Transport := t\<rparr> in
       case r of
         Inl e \<Rightarrow> Return (s1, if e = ErrReceiveTimeout then None else Some e)
       | Inr (md, b) \<Rightarrow>
           if md_route md = RoutePing then
             io_bind (Send cr w (w_bytes w) t b RoutePong) (\<lambda>(t', _). Return (s1\<lparr>ls_Transport := t'\<rparr>, None))
           else if md_route md = RoutePong then
             Return (if ls_pongCh s1 = None then s1\<lparr>ls_pongCh := Some b\<rparr> else s1, None)
           else
             io_bind (keep_message cr bd \<lparr>mi_Text = b, mi_Timestamp = Timestamp md, mi_IsLocal = False\<rparr> s1) (\<lambda>s2.
               Return (emit (EvtSessionUpdated (ls_ID s2))
                 (emit (EvtMessageReceived (ls_ID s2) b (Timestamp md)) s2), None)))"

text \<open>The loop, for at most the given number of turns; the result is the error that ended it.\<close>

fun receiveMessagesBlocking ::
  "crypto \<Rightarrow> wire \<Rightarrow> 'd bolt \<Rightarrow> nat \<Rightarrow> 'd live_session \<Rightarrow> ('d live_session \<times> kerror option) io" where
  "receiveMessagesBlocking cr w bd 0 s = Return (s, None)"
| "receiveMessagesBlocking cr w bd (Suc n) s =
     io_bind (receive_turn cr w bd s) (\<lambda>(s', r).
       case r of Some e \<Rightarrow> Return (s', Some e) | None \<Rightarrow> receiveMessagesBlocking cr w bd n s')"

text \<open>The ping of \<^verbatim>\<open>sendPing\<close>: eight random bytes.\<close>

definition send_ping :: "crypto \<Rightarrow> wire \<Rightarrow> 'd live_session \<Rightarrow> ('d live_session \<times> (kerror + bytes)) io" where
  "send_ping cr w s =
     Random 8 (\<lambda>tok.
       io_bind (Send cr w (w_bytes w) (ls_Transport s) tok RoutePing) (\<lambda>(t, r).
         Return (s\<lparr>ls_Transport := t\<rparr>, case r of Inl e \<Rightarrow> Inl e | Inr _ \<Rightarrow> Inr tok)))"

fun send_messages :: "crypto \<Rightarrow> wire \<Rightarrow> 'd bolt \<Rightarrow> bytes list \<Rightarrow> 'd live_session \<Rightarrow> ('d live_session \<times> kerror option) io" where
  "send_messages cr w bd [] s = Return (s, None)"
| "send_messages cr w bd (m # ms) s =
     io_bind (send_message cr w bd m s) (\<lambda>(s', r).
       case r of Some e \<Rightarrow> Return (s', Some e) | None \<Rightarrow> send_messages cr w bd ms s')"

subsection \<open>The history\<close>

lemma emit_simps [simp]:
  "ls_Transport (emit e s) = ls_Transport s" "ls_Messages (emit e s) = ls_Messages s"
  by (simp_all add: emit_def)

text \<open>A session whose messages can be recorded, or that has none recorded.\<close>

definition recording :: "crypto \<Rightarrow> 'd bolt \<Rightarrow> 'd live_session \<Rightarrow> bool" where
  "recording cr bd s \<longleftrightarrow>
     (case ls_store s of
        None \<Rightarrow> True
      | Some st \<Rightarrow> ls_incognito s \<or> store_ok cr bd st \<and> bk_exists bd (sto_db st) [SessionsNamespace, ls_ID s])"

lemma recording_upd [simp]:
  "recording cr bd (s\<lparr>ls_Transport := t\<rparr>) = recording cr bd s" "recording cr bd (emit e s) = recording cr bd s"
  by (simp_all add: recording_def emit_def split: option.splits)

lemma AddChatEntry_yields:
  assumes "store_ok cr bd s" "bk_exists bd (sto_db s) [SessionsNamespace, sid]"
  shows "yields (AddChatEntry cr bd s sid payload ts who)
     (\<lambda>(s', r). r = Inr () \<and> store_ok cr bd s' \<and> bk_exists bd (sto_db s') [SessionsNamespace, sid])"
proof -
  have "key_ok (chat_key now who suffix)" if "length suffix = 4" for now suffix
    using length_chat_key [OF that, of now who] by (auto simp: key_ok_def)
  then show ?thesis
    by (auto simp: AddChatEntry_def assms(2) intro!: yields_mono [OF add_chat_yields [OF assms]])
qed

lemma keep_message_yields:
  assumes "recording cr bd s"
  shows "yields (keep_message cr bd m s)
     (\<lambda>s'. recording cr bd s' \<and> ls_Messages s' = ls_Messages s @ [m] \<and> ls_Transport s' = ls_Transport s)"
proof (cases "ls_store s")
  case (Some st)
  show ?thesis
  proof (cases "ls_incognito s")
    case False
    then have st: "store_ok cr bd st" "bk_exists bd (sto_db st) [SessionsNamespace, ls_ID s]"
      using assms Some by (simp_all add: recording_def)
    from Some False show ?thesis
      by (auto simp: keep_message_def recording_def Let_def intro!: yields_bind [OF AddChatEntry_yields [OF st]])
  qed (use assms Some in \<open>simp add: keep_message_def recording_def Let_def\<close>)
qed (simp add: keep_message_def recording_def Let_def)

text \<open>One message, sent on one side and received on the other.\<close>

definition histories :: "crypto \<Rightarrow> 'd bolt \<Rightarrow> 'd live_session \<Rightarrow> 'd live_session \<Rightarrow> bytes list \<Rightarrow> 'd live_session \<Rightarrow> 'd live_session \<Rightarrow> bool" where
  "histories cr bd a b msgs a' b' \<longleftrightarrow> recording cr bd a' \<and> recording cr bd b' \<and>
     flows cr (ls_Transport a') (ls_Transport b') \<and>
     (\<exists>ms. map mi_Text ms = msgs \<and> list_all (\<lambda>m. \<not> mi_IsLocal m) ms \<and> ls_Messages b' = ls_Messages b @ ms \<and>
        ls_Messages a' = ls_Messages a @ map (mi_IsLocal_update (\<lambda>_. True)) ms)"

lemma message_settles:
  assumes "good_laws cr w" "enc (w_bytes w) m = Some e" "dec (w_bytes w) e = Some m" "length e \<le> maxTransportSize"
    and "flows cr (ls_Transport a) (ls_Transport b)" "linked n k (t_conn (ls_Transport a)) (t_conn (ls_Transport b))" "n < 2 ^ 64"
    and "recording cr bd a" "recording cr bd b"
    and "\<And>a' b'. histories cr bd a b [m] a' b' \<Longrightarrow> linked (Suc n) k (t_conn (ls_Transport a')) (t_conn (ls_Transport b')) \<Longrightarrow>
       settles Q ((f (a', None), []), (g (b', None), []))"
  shows "settles Q ((io_bind (send_message cr w bd m a) f, []), (io_bind (receive_turn cr w bd b) g, []))"
  unfolding send_message_def receive_turn_def io_bind_assoc
proof (rule message_left [OF assms(1-4) _ _ assms(5-7)])
  fix la lb md
  assume l: "linked (Suc n) k la lb" "md_route md = RouteExchangeMessages"
  let ?ta = "(sent_from (ls_Transport a))\<lparr>t_conn := la\<rparr>" and ?tb = "(received_at (ls_Transport b))\<lparr>t_conn := lb\<rparr>"
  let ?ma = "\<lparr>mi_Text = m, mi_Timestamp = Timestamp md, mi_IsLocal = True\<rparr>"
    and ?mb = "\<lparr>mi_Text = m, mi_Timestamp = Timestamp md, mi_IsLocal = False\<rparr>"
  have r: "recording cr bd (a\<lparr>ls_Transport := ?ta\<rparr>)" "recording cr bd (b\<lparr>ls_Transport := ?tb\<rparr>)"
    using assms(8,9) by simp_all
  have "flows cr ?ta ?tb" using assms(5) by simp
  then have "histories cr bd a b [m] (emit e1 (emit e2 x)) (emit e3 (emit e4 y))"
    if "recording cr bd x \<and> ls_Messages x = ls_Messages a @ [?ma] \<and> ls_Transport x = ?ta"
      "recording cr bd y \<and> ls_Messages y = ls_Messages b @ [?mb] \<and> ls_Transport y = ?tb" for x y e1 e2 e3 e4
    using that by (auto simp: histories_def intro!: exI [of _ "[?mb]"])
  then show "settles Q ((io_bind (case (?ta, Inr md) of (t, r) \<Rightarrow> let s1 = a\<lparr>ls_Transport := t\<rparr> in case r of
        Inl e \<Rightarrow> Return (s1, Some e)
      | Inr md \<Rightarrow> io_bind (keep_message cr bd \<lparr>mi_Text = m, mi_Timestamp = Timestamp md, mi_IsLocal = True\<rparr> s1) (\<lambda>s2.
          Return (emit (EvtSessionUpdated (ls_ID s2)) (emit (EvtMessageSent (ls_ID s2) (Timestamp md)) s2), None))) f, []),
     (io_bind (case (?tb, Inr (md, m)) of (t, r) \<Rightarrow> let s1 = b\<lparr>ls_Transport := t\<rparr> in case r of
        Inl e \<Rightarrow> Return (s1, if e = ErrReceiveTimeout then None else Some e)
      | Inr (md, b) \<Rightarrow>
          if md_route md = RoutePing then
            io_bind (Send cr w (w_bytes w) t b RoutePong) (\<lambda>(t', _). Return (s1\<lparr>ls_Transport := t'\<rparr>, None))
          else if md_route md = RoutePong then
            Return (if ls_pongCh s1 = None then s1\<lparr>ls_pongCh := Some b\<rparr> else s1, None)
          else io_bind (keep_message cr bd \<lparr>mi_Text = b, mi_Timestamp = Timestamp md, mi_IsLocal = False\<rparr> s1) (\<lambda>s2.
            Return (emit (EvtSessionUpdated (ls_ID s2))
              (emit (EvtMessageReceived (ls_ID s2) b (Timestamp md)) s2), None))) g, []))"
    using l by (auto simp: io_bind_assoc intro!: yields_left [OF keep_message_yields [OF r(1)]]
        yields_right [OF keep_message_yields [OF r(2)]] assms(10))
qed (simp_all add: IsValid_def)

lemma conversation_settles:
  assumes "good_laws cr w"
    and "\<forall>m \<in> set msgs. \<exists>b. enc (w_bytes w) m = Some b \<and> dec (w_bytes w) b = Some m \<and> length b \<le> maxTransportSize"
    and "flows cr (ls_Transport a) (ls_Transport b)" "linked n k (t_conn (ls_Transport a)) (t_conn (ls_Transport b))"
    and "n + length msgs \<le> 2 ^ 64" "recording cr bd a" "recording cr bd b"
    and "\<And>a' b'. histories cr bd a b msgs a' b' \<Longrightarrow> settles Q ((f (a', None), []), (g (b', None), []))"
  shows "settles Q ((io_bind (send_messages cr w bd msgs a) f, []),
     (io_bind (receiveMessagesBlocking cr w bd (length msgs) b) g, []))"
  using assms(2-)
proof (induction msgs arbitrary: a b n)
  case Nil
  then show ?case by (simp add: histories_def)
next
  case (Cons m ms)
  from Cons.prems(1) obtain e where e: "enc (w_bytes w) m = Some e" "dec (w_bytes w) e = Some m" "length e \<le> maxTransportSize"
    by auto
  have n: "n < 2 ^ 64" using Cons.prems(4) by simp
  show ?case
    unfolding send_messages.simps receiveMessagesBlocking.simps length_Cons io_bind_assoc
  proof (rule message_settles [OF assms(1) e Cons.prems(2,3) n Cons.prems(5,6)], goal_cases)
    case (1 a' b')
    have "histories cr bd a b (m # ms) a'' b''" if "histories cr bd a' b' ms a'' b''" for a'' b''
    proof -
      from 1(1) obtain x where x: "map mi_Text x = [m]" "list_all (\<lambda>m. \<not> mi_IsLocal m) x" "ls_Messages b' = ls_Messages b @ x"
          "ls_Messages a' = ls_Messages a @ map (mi_IsLocal_update (\<lambda>_. True)) x"
        unfolding histories_def by (elim exE conjE) (rule that)
      from that obtain y where "map mi_Text y = ms" "list_all (\<lambda>m. \<not> mi_IsLocal m) y" "ls_Messages b'' = ls_Messages b' @ y"
          "ls_Messages a'' = ls_Messages a' @ map (mi_IsLocal_update (\<lambda>_. True)) y"
        unfolding histories_def by (elim exE conjE) (rule that)
      with that x show ?thesis by (auto simp: histories_def intro!: exI [of _ "x @ y"])
    qed
    then have "settles Q ((io_bind (send_messages cr w bd ms a') f, []),
        (io_bind (receiveMessagesBlocking cr w bd (length ms) b') g, []))"
      using 1 Cons.prems(1,4,7) by (intro Cons.IH [where n = "Suc n"]) (auto simp: histories_def)
    then show ?case by simp
  qed
qed

lemma pong_settles:
  assumes "good_laws cr w" "instep cr n k ta tb" "k < 2 ^ 64"
    and "enc (w_bytes w) tok = Some e" "dec (w_bytes w) e = Some tok" "length e \<le> maxTransportSize"
    and "ls_Transport a = ta" "ls_pongCh a = None"
    and "\<And>ta' tb'. instep cr n (Suc k) ta' tb' \<Longrightarrow>
       Q (h (a\<lparr>ls_Transport := ta', ls_pongCh := Some tok\<rparr>)) (b\<lparr>ls_Transport := tb'\<rparr>, None)"
  shows "settles Q ((io_bind (receive_turn cr w bd a) (\<lambda>(s', _). Return (h s')), []),
     (io_bind (Send cr w (w_bytes w) tb tok RoutePong) (\<lambda>(t', _). Return (b\<lparr>ls_Transport := t'\<rparr>, None)), []))"
proof -
  have i: "flows cr ta tb" "flows cr tb ta" "linked n k (t_conn ta) (t_conn tb)"
    using assms(2) by (simp_all add: instep_def)
  show ?thesis
    unfolding receive_turn_def io_bind_assoc assms(7)
    by (rule message_right [OF assms(1,4-6) _ _ i(2,3) assms(3)])
      (auto simp: IsValid_def assms(8) intro!: settles.finish assms(9) instep_step(2) [OF i(1,2)])
qed

subsection \<open>Properties of the sessions\<close>

text \<open>C21. The two histories of a conversation agree: when one daemon sends messages on a session and the
  other runs its receive loop, then under every schedule every message ends in both sessions, once and in
  order, with the same text and the same time, marked as local on the side that sent it only; and the
  transports are still in step.\<close>

theorem conversation_kept:
  assumes "good_laws cr w"
    and "\<forall>m \<in> set msgs. \<exists>b. enc (w_bytes w) m = Some b \<and> dec (w_bytes w) b = Some m \<and> length b \<le> maxTransportSize"
    and "flows cr (ls_Transport a) (ls_Transport b)" "linked n k (t_conn (ls_Transport a)) (t_conn (ls_Transport b))"
    and "n + length msgs \<le> 2 ^ 64" "recording cr bd a" "recording cr bd b"
  shows "completes (\<lambda>(a', r) (b', r'). r = None \<and> r' = None \<and> histories cr bd a b msgs a' b')
     ((send_messages cr w bd msgs a, []), (receiveMessagesBlocking cr w bd (length msgs) b, []))"
  using conversation_settles [OF assms, of _ Return Return]
  by (intro settles_completes) (simp add: settles.finish)

definition demo_live :: "demo_db live_session" where
  "demo_live = \<lparr>ls_ID = demo_session, ls_Transport = demo_transport, ls_Messages = [], ls_LastActivity = 0, ls_pongCh = None,
     ls_store = Some demo_storage, ls_incognito = False, ls_emitted = []\<rparr>"

lemma demo_live_ok:
  "recording demo_crypto demo_bolt demo_live" "ls_Transport demo_live = demo_transport" "ls_pongCh demo_live = None"
  "linked 0 0 (t_conn demo_transport) (t_conn demo_transport)"
  using demo_store_ok
  by (simp_all add: recording_def demo_live_def demo_bolt_def demo_storage_def path_defs demo_transport_def newTransport_def)

theorem conversation_kept_witness:
  "completes (\<lambda>(a', r) (b', r'). r = None \<and> r' = None \<and>
       histories demo_crypto demo_bolt demo_live demo_live [lit ''one'', lit ''two''] a' b')
     ((send_messages demo_crypto demo_wire demo_bolt [lit ''one'', lit ''two''] demo_live, []),
      (receiveMessagesBlocking demo_crypto demo_wire demo_bolt 2 demo_live, []))"
proof -
  have "\<forall>m \<in> set [lit ''one'', lit ''two'']. \<exists>b. enc (w_bytes demo_wire) m = Some b \<and>
      dec (w_bytes demo_wire) b = Some m \<and> length b \<le> maxTransportSize"
    by (simp add: demo_wire_def size_consts)
  moreover have "0 + length [lit ''one'', lit ''two''] \<le> 2 ^ 64" by simp
  ultimately show ?thesis
    using conversation_kept [OF demo_good_laws _ _ _ _ demo_live_ok(1,1), of "[lit ''one'', lit ''two'']" 0 0] demo_flows demo_live_ok(4)
    by (simp only: demo_live_ok(2) length_Cons list.size numeral_2_eq_2)
qed

text \<open>A ping is answered: when one daemon pings and then takes a turn of its receive loop while the other
  takes a turn of its own, under every schedule the eight random bytes of the ping come back into the
  empty pong channel, and the transports are in step again.\<close>

theorem ping_answered:
  assumes "good_laws cr w" "instep cr n k (ls_Transport a) (ls_Transport b)" "n < 2 ^ 64" "k < 2 ^ 64"
    and "ls_pongCh a = None"
  shows "completes (\<lambda>(a', tok) (b', r). \<exists>x. tok = Inr x \<and> r = None \<and> length x = 8 \<and> ls_pongCh a' = Some x \<and>
       instep cr (Suc n) (Suc k) (ls_Transport a') (ls_Transport b'))
     ((io_bind (send_ping cr w a) (\<lambda>(s, tok). io_bind (receive_turn cr w bd s) (\<lambda>(s', _). Return (s', tok))), []),
      (receive_turn cr w bd b, []))"
proof (rule settles_completes)
  have i: "flows cr (ls_Transport a) (ls_Transport b)" "flows cr (ls_Transport b) (ls_Transport a)"
      "linked n k (t_conn (ls_Transport a)) (t_conn (ls_Transport b))"
    using assms(2) by (simp_all add: instep_def)
  have route: "IsValid RoutePing" "RoutePing \<noteq> RouteCloseTransport" "IsValid RoutePong" "RoutePong \<noteq> RouteCloseTransport"
    by (simp_all add: IsValid_def)
  let ?Q = "\<lambda>(a', tok) (b', r). \<exists>x. tok = Inr x \<and> r = None \<and> length x = 8 \<and> ls_pongCh a' = Some x \<and>
       instep cr (Suc n) (Suc k) (ls_Transport a') (ls_Transport b')"
  show "settles ?Q ((io_bind (send_ping cr w a) (\<lambda>(s, tok). io_bind (receive_turn cr w bd s) (\<lambda>(s', _). Return (s', tok))), []),
      (receive_turn cr w bd b, []))"
    unfolding send_ping_def io_bind.simps io_bind_assoc
  proof (rule settles_left_Random, goal_cases)
    case (1 tok)
    from bytes_message [OF assms(1), of tok] 1 obtain e
      where e: "enc (w_bytes w) tok = Some e" "dec (w_bytes w) e = Some tok" "length e \<le> maxTransportSize" by auto
    show ?case
      unfolding receive_turn_def [of cr w bd b]
    proof (rule message_left [OF assms(1) e route(1,2) i(1,3) assms(3)], goal_cases)
      case l: (1 la lb md)
      have "instep cr (Suc n) k ((sent_from (ls_Transport a))\<lparr>t_conn := la\<rparr>) ((received_at (ls_Transport b))\<lparr>t_conn := lb\<rparr>)"
        by (rule instep_step(1) [OF i(1,2) l(1)])
      from pong_settles [OF assms(1) this assms(4) e, where Q = ?Q and h = "\<lambda>s'. (s', Inr tok)" and b = b
          and a = "a\<lparr>ls_Transport := (sent_from (ls_Transport a))\<lparr>t_conn := la\<rparr>\<rparr>"] 1 l(2) assms(5)
      show ?case by simp
    qed
  qed
qed

theorem ping_answered_witness:
  "completes (\<lambda>(a', tok) (b', r). \<exists>x. tok = Inr x \<and> r = None \<and> length x = 8 \<and> ls_pongCh a' = Some x \<and>
       instep demo_crypto 1 1 (ls_Transport a') (ls_Transport b'))
     ((io_bind (send_ping demo_crypto demo_wire demo_live) (\<lambda>(s, tok).
         io_bind (receive_turn demo_crypto demo_wire demo_bolt s) (\<lambda>(s', _). Return (s', tok))), []),
      (receive_turn demo_crypto demo_wire demo_bolt demo_live, []))"
proof -
  have "instep demo_crypto 0 0 (ls_Transport demo_live) (ls_Transport demo_live)"
    by (simp add: instep_def demo_live_ok demo_flows)
  from ping_answered [OF demo_good_laws this, of demo_bolt] show ?thesis by (simp add: demo_live_ok)
qed

subsection \<open>The keep-alive loop\<close>

text \<open>The keep-alive loops of a session. Each reconnection replaces the transport, the pong channel and
  \<^verbatim>\<open>keepAliveDone\<close> together, the old one of the last being closed; they are counted by \<open>k_gen\<close>. A loop waits
  in its \<^verbatim>\<open>select\<close> with the channel it has read, or it is in \<^verbatim>\<open>sendPing\<close>, on the pong channel it was
  called with: it has sent its ping, or it has also emptied the channel and waits for the answer.\<close>

datatype loop = AtSelect nat | Pinged nat bytes | Awaiting nat bytes | Exited

record keepalive =
  k_gen :: nat
  k_pongs :: "nat \<Rightarrow> bytes option"
  k_failures :: nat
  k_receiveDone :: bool
  k_loops :: "loop list"
  k_closed :: "nat list"
  k_pings :: "(nat \<times> bytes) list"

definition keepalive_start :: keepalive where
  "keepalive_start = \<lparr>k_gen = 0, k_pongs = \<lambda>_. None, k_failures = 0, k_receiveDone = False, k_loops = [AtSelect 0],
     k_closed = [], k_pings = []\<rparr>"

definition set_loop :: "nat \<Rightarrow> loop \<Rightarrow> keepalive \<Rightarrow> keepalive" where
  "set_loop i l k = k\<lparr>k_loops := (k_loops k)[i := l]\<rparr>"

definition loop_at :: "keepalive \<Rightarrow> nat \<Rightarrow> loop" where
  "loop_at k i = (if i < length (k_loops k) then k_loops k ! i else Exited)"

text \<open>The two outcomes of a ping; the third failure in a row closes the transport.\<close>

definition ping_ok :: "nat \<Rightarrow> keepalive \<Rightarrow> keepalive" where
  "ping_ok i k = set_loop i (AtSelect (k_gen k)) (k\<lparr>k_failures := 0\<rparr>)"

definition ping_failed :: "nat \<Rightarrow> keepalive \<Rightarrow> keepalive" where
  "ping_failed i k =
     (let k1 = k\<lparr>k_failures := k_failures k + 1\<rparr> in
      if 3 \<le> k_failures k1 then set_loop i Exited (k1\<lparr>k_closed := k_closed k1 @ [k_gen k1]\<rparr>)
      else set_loop i (AtSelect (k_gen k1)) k1)"

datatype keepalive_event =
    Ticks nat bytes bool
  | Drains nat
  | Compares nat
  | TimesOut nat
  | SeesDone nat
  | PongArrives bytes
  | Reconnected
  | ReceiveEnds

fun keepalive_step :: "keepalive \<Rightarrow> keepalive_event \<Rightarrow> keepalive" where
  "keepalive_step k (Ticks i tok sent) =
     (case loop_at k i of
        AtSelect _ \<Rightarrow>
          if sent then set_loop i (Pinged (k_gen k) tok) (k\<lparr>k_pings := k_pings k @ [(k_gen k, tok)]\<rparr>)
          else ping_failed i k
      | _ \<Rightarrow> k)"
| "keepalive_step k (Drains i) =
     (case loop_at k i of
        Pinged g tok \<Rightarrow> set_loop i (Awaiting g tok) (k\<lparr>k_pongs := (k_pongs k)(g := None)\<rparr>)
      | _ \<Rightarrow> k)"
| "keepalive_step k (Compares i) =
     (case loop_at k i of
        Awaiting g tok \<Rightarrow>
          (case k_pongs k g of
             None \<Rightarrow> k
           | Some d \<Rightarrow>
               let k1 = k\<lparr>k_pongs := (k_pongs k)(g := None)\<rparr> in
               if d = tok then ping_ok i k1 else ping_failed i k1)
      | _ \<Rightarrow> k)"
| "keepalive_step k (TimesOut i) = (case loop_at k i of Awaiting _ _ \<Rightarrow> ping_failed i k | _ \<Rightarrow> k)"
| "keepalive_step k (SeesDone i) =
     (case loop_at k i of
        AtSelect g \<Rightarrow> if g < k_gen k \<or> k_receiveDone k then set_loop i Exited k else k
      | _ \<Rightarrow> k)"
| "keepalive_step k (PongArrives d) =
     (if k_pongs k (k_gen k) = None then k\<lparr>k_pongs := (k_pongs k)(k_gen k \<mapsto> d)\<rparr> else k)"
| "keepalive_step k Reconnected =
     k\<lparr>k_gen := k_gen k + 1, k_failures := 0, k_loops := k_loops k @ [AtSelect (k_gen k + 1)]\<rparr>"
| "keepalive_step k ReceiveEnds = k\<lparr>k_receiveDone := True\<rparr>"

definition keepalive_run :: "keepalive_event list \<Rightarrow> keepalive" where
  "keepalive_run es = foldl keepalive_step keepalive_start es"

lemmas keepalive_defs = loop_at_def set_loop_def ping_failed_def ping_ok_def

lemma awaited_pongs:
  "k_gen k = 0 \<Longrightarrow> k_failures k = 0 \<Longrightarrow> k_closed k = [] \<Longrightarrow> k_loops k = [AtSelect 0] \<Longrightarrow>
   k' = foldl keepalive_step k (concat (map (\<lambda>tok. [Ticks 0 tok True, Drains 0, PongArrives tok, Compares 0]) toks)) \<Longrightarrow>
   k_failures k' = 0 \<and> k_closed k' = [] \<and> k_loops k' = [AtSelect 0]"
  by (induction toks arbitrary: k) (simp_all add: keepalive_defs)

text \<open>C39. A session whose every ping is answered at once is closed as unresponsive: \<^verbatim>\<open>sendPing\<close> empties the
  pong channel only after it has sent the ping, so that an answer that comes before is thrown away and
  the ping fails by its timeout; three such pings in a row close the transport. When the answers come
  after that, however many pings there are, none fails.\<close>

theorem prompt_pongs_close_session:
  "let k = keepalive_run (concat (map (\<lambda>tok. [Ticks 0 tok True, PongArrives tok, Drains 0, TimesOut 0]) [t1, t2, t3]));
       k' = keepalive_run (concat (map (\<lambda>tok. [Ticks 0 tok True, Drains 0, PongArrives tok, Compares 0]) toks)) in
     k_pings k = [(0, t1), (0, t2), (0, t3)] \<and> k_closed k = [0] \<and> k_loops k = [Exited] \<and>
     k_failures k' = 0 \<and> k_closed k' = [] \<and> k_loops k' = [AtSelect 0]"
proof -
  let ?k = "keepalive_run (concat (map (\<lambda>tok. [Ticks 0 tok True, PongArrives tok, Drains 0, TimesOut 0]) [t1, t2, t3]))"
  have "k_pings ?k = [(0, t1), (0, t2), (0, t3)] \<and> k_closed ?k = [0] \<and> k_loops ?k = [Exited]"
    by (simp add: keepalive_run_def keepalive_start_def keepalive_defs Let_def)
  moreover have "k_gen keepalive_start = 0" "k_failures keepalive_start = 0" "k_closed keepalive_start = []"
      "k_loops keepalive_start = [AtSelect 0]"
    by (simp_all add: keepalive_start_def)
  from awaited_pongs [OF this refl, of toks] have "k_failures k' = 0 \<and> k_closed k' = [] \<and> k_loops k' = [AtSelect 0]"
    if "k' = keepalive_run (concat (map (\<lambda>tok. [Ticks 0 tok True, Drains 0, PongArrives tok, Compares 0]) toks))" for k'
    using that by (simp only: keepalive_run_def)
  ultimately show ?thesis unfolding Let_def by blast
qed

text \<open>A keep-alive loop that is waiting for its pong while the session reconnects survives the
  reconnection: it goes back to its \<^verbatim>\<open>select\<close> with the new \<^verbatim>\<open>keepAliveDone\<close>, next to the loop started for
  the new transport. From then on the two take each other's pongs, so that both count failures on a
  session whose peer answers every ping.\<close>

theorem stale_loop_survives:
  "let k = keepalive_run ([Ticks 0 t True, Drains 0, Reconnected, TimesOut 0]) in
     k_loops k = [AtSelect (k_gen k), AtSelect (k_gen k)] \<and> k_failures k = 1 \<and>
     (t0 \<noteq> t1 \<longrightarrow>
       k_closed (foldl keepalive_step k
         [Ticks 0 t0 True, Drains 0, Ticks 1 t1 True, Drains 1, PongArrives t0, Compares 1, PongArrives t1, Compares 0])
         = [k_gen k])"
proof -
  let ?k = "\<lparr>k_gen = 1, k_pongs = \<lambda>_. None, k_failures = 1, k_receiveDone = False, k_loops = [AtSelect 1, AtSelect 1],
       k_closed = [], k_pings = [(0, t)]\<rparr>"
  have k: "keepalive_run [Ticks 0 t True, Drains 0, Reconnected, TimesOut 0] = ?k"
    by (simp add: keepalive_run_def keepalive_start_def keepalive_defs fun_eq_iff)
  have "k_closed (foldl keepalive_step ?k
      [Ticks 0 t0 True, Drains 0, Ticks 1 t1 True, Drains 1, PongArrives t0, Compares 1, PongArrives t1, Compares 0]) = [1]"
    if "t0 \<noteq> t1"
    using that by (simp add: keepalive_defs)
  then show ?thesis unfolding k Let_def by (simp only: keepalive.simps) blast
qed

theorem stale_loop_survives_witness:
  "let k = keepalive_run ([Ticks 0 [9] True, Drains 0, Reconnected, TimesOut 0]) in
     k_closed (foldl keepalive_step k
         [Ticks 0 [0] True, Drains 0, Ticks 1 [1] True, Drains 1, PongArrives [0], Compares 1, PongArrives [1], Compares 0])
         = [k_gen k]"
proof -
  have "[0 :: byte] \<noteq> [1]" by simp
  with stale_loop_survives [of "[9]" "[0]" "[1]"] show ?thesis unfolding Let_def by blast
qed

subsection \<open>Reconnection\<close>



















end
