(* ===== verification/Approval.thy ===== *)
theory Approval
  imports Chats Fingerprint Netaddr
begin

text \<open>
  The verification of peers by the user of the daemon, cmd/daemon/verifier.go: the three remote verifiers,
  the wait for the user's answer, and the two commands that answer and that set the mode. A verifier runs
  in the goroutine of its handshake and the commands in that of the daemon, so that the state changes in
  the steps these take, in any order.
\<close>

subsection \<open>State\<close>

datatype status = StatusDisconnected | StatusConnecting | StatusConnected | StatusVerifying | StatusError

datatype verdict = Accepted | Rejected | TimedOut

text \<open>A request with its result channel of capacity one. A call of a verifier waits for the answer to its
  request, with the status it found and whether the peer was known, or it has returned; then \<open>None\<close> says
  that the user was not asked. \<open>v_verifiers\<close> are the verifiers handed out to servers and dialers, each known
  by the mode it was made for.\<close>

record pending =
  p_result :: "verdict option"
  p_peerID :: bytes
  p_hex :: bytes

datatype call = Asking int peer status bytes bool | Returned peer "int option" verdict

record 'd approval =
  v_mode :: int
  v_status :: status
  v_statusMsg :: bytes
  v_requests :: "int \<rightharpoonup> pending"
  v_counter :: int
  v_incognito :: bool
  v_store :: "'d storage"
  v_verifiers :: "int list"
  v_calls :: "call list"

definition VerificationModeStrict :: int where "VerificationModeStrict = 0"
definition VerificationModeQuick :: int where "VerificationModeQuick = 1"
definition VerificationModeAutoAccept :: int where "VerificationModeAutoAccept = 2"

definition set_status :: "status \<Rightarrow> bytes \<Rightarrow> 'd approval \<Rightarrow> 'd approval" where
  "set_status s msg d = d\<lparr>v_status := s, v_statusMsg := msg\<rparr>"

subsection \<open>Operations\<close>

text \<open>A peer that is accepted for the first time is stored, an error of which is only logged.\<close>

definition save_peer :: "crypto \<Rightarrow> wire \<Rightarrow> 'd bolt \<Rightarrow> peer \<Rightarrow> 'd storage \<Rightarrow> 'd storage io" where
  "save_peer cr wr bd p store =
     Now (\<lambda>now. io_bind (StorePeer cr wr bd store (p\<lparr>FirstSeen := now\<rparr>)) (\<lambda>(store', _). Return store'))"

text \<open>The question to the user, the same in the strict and in the quick verifier.\<close>

definition ask_user :: "peer \<Rightarrow> bool \<Rightarrow> 'd approval \<Rightarrow> 'd approval" where
  "ask_user p known d =
     (let reqID = v_counter d + 1;
          d1 = d\<lparr>v_counter := reqID,
                 v_requests := (v_requests d)(reqID \<mapsto> \<lparr>p_result = None, p_peerID = Name p, p_hex = Hex (PublicKey p)\<rparr>),
                 v_calls := v_calls d @ [Asking reqID p (v_status d) (v_statusMsg d) known]\<rparr>
      in set_status StatusVerifying (lit ''Verifying fingerprint of '' @ Name p @ lit ''...'') d1)"

definition return_call :: "peer \<Rightarrow> 'd approval \<Rightarrow> 'd approval" where
  "return_call p d = d\<lparr>v_calls := v_calls d @ [Returned p None Accepted]\<rparr>"

text \<open>The verifiers up to their question. The draws and clock readings of the store are \<open>es\<close>.\<close>

definition createStrictVerifier :: "crypto \<Rightarrow> wire \<Rightarrow> 'd bolt \<Rightarrow> event list \<Rightarrow> peer \<Rightarrow> 'd approval \<Rightarrow> 'd approval" where
  "createStrictVerifier cr wr bd es p d =
     (case run (FindPeer cr wr bd (v_store d) (PublicKey p)) es of
        None \<Rightarrow> d
      | Some ((store, r), _) \<Rightarrow> ask_user p (case r of Inr _ \<Rightarrow> True | Inl _ \<Rightarrow> False) (d\<lparr>v_store := store\<rparr>))"

definition createQuickVerifier :: "crypto \<Rightarrow> wire \<Rightarrow> 'd bolt \<Rightarrow> event list \<Rightarrow> peer \<Rightarrow> 'd approval \<Rightarrow> 'd approval" where
  "createQuickVerifier cr wr bd es p d =
     (case run (FindPeer cr wr bd (v_store d) (PublicKey p)) es of
        None \<Rightarrow> d
      | Some ((store, r), _) \<Rightarrow>
          (case r of
             Inr _ \<Rightarrow> return_call p (d\<lparr>v_store := store\<rparr>)
           | Inl _ \<Rightarrow> ask_user p False (d\<lparr>v_store := store\<rparr>)))"

definition createAutoAcceptVerifier :: "crypto \<Rightarrow> wire \<Rightarrow> 'd bolt \<Rightarrow> event list \<Rightarrow> peer \<Rightarrow> 'd approval \<Rightarrow> 'd approval" where
  "createAutoAcceptVerifier cr wr bd es p d =
     (case run (io_bind (FindPeer cr wr bd (v_store d) (PublicKey p)) (\<lambda>(store, r).
          case r of
            Inl _ \<Rightarrow> if v_incognito d then Return store else save_peer cr wr bd p store
          | Inr _ \<Rightarrow> Return store)) es of
        None \<Rightarrow> d
      | Some (store, _) \<Rightarrow> return_call p (d\<lparr>v_store := store\<rparr>))"

definition getVerifier :: "'d approval \<Rightarrow> 'd approval" where
  "getVerifier d = d\<lparr>v_verifiers := v_verifiers d @ [v_mode d]\<rparr>"

definition verify_with :: "crypto \<Rightarrow> wire \<Rightarrow> 'd bolt \<Rightarrow> int \<Rightarrow> event list \<Rightarrow> peer \<Rightarrow> 'd approval \<Rightarrow> 'd approval" where
  "verify_with cr wr bd mode es p d =
     (if mode = VerificationModeStrict then createStrictVerifier cr wr bd es p d
      else if mode = VerificationModeQuick then createQuickVerifier cr wr bd es p d
      else createAutoAcceptVerifier cr wr bd es p d)"

text \<open>The two cases of \<^verbatim>\<open>awaitVerification\<close> with the end of the verifier that waits in it.\<close>

definition forget :: "int \<Rightarrow> 'd approval \<Rightarrow> 'd approval" where
  "forget reqID d = d\<lparr>v_requests := (v_requests d)(reqID := None)\<rparr>"

definition end_call :: "nat \<Rightarrow> peer \<Rightarrow> int \<Rightarrow> verdict \<Rightarrow> 'd approval \<Rightarrow> 'd approval" where
  "end_call i p reqID v d = d\<lparr>v_calls := (v_calls d)[i := Returned p (Some reqID) v]\<rparr>"

definition take_verdict :: "crypto \<Rightarrow> wire \<Rightarrow> 'd bolt \<Rightarrow> event list \<Rightarrow> nat \<Rightarrow> 'd approval \<Rightarrow> 'd approval" where
  "take_verdict cr wr bd es i d =
     (case v_calls d ! i of
        Asking reqID p prevStatus prevMsg known \<Rightarrow>
          (case Option.bind (v_requests d reqID) p_result of
             None \<Rightarrow> d
           | Some Accepted \<Rightarrow>
               (let d1 = set_status prevStatus prevMsg (forget reqID d) in
                if known \<or> v_incognito d1 then end_call i p reqID Accepted d1
                else case run (save_peer cr wr bd p (v_store d1)) es of
                  None \<Rightarrow> d
                | Some (store, _) \<Rightarrow> end_call i p reqID Accepted (d1\<lparr>v_store := store\<rparr>))
           | Some v \<Rightarrow> end_call i p reqID v (forget reqID d))
      | Returned _ _ _ \<Rightarrow> d)"

definition time_out :: "nat \<Rightarrow> 'd approval \<Rightarrow> 'd approval" where
  "time_out i d =
     (case v_calls d ! i of
        Asking reqID p _ _ _ \<Rightarrow>
          end_call i p reqID TimedOut (set_status StatusError (lit ''Verification timed out'') (forget reqID d))
      | Returned _ _ _ \<Rightarrow> d)"

definition handleVerifyResponse :: "int \<Rightarrow> bool \<Rightarrow> 'd approval \<Rightarrow> 'd approval" where
  "handleVerifyResponse reqID yes d =
     (case v_requests d reqID of
        None \<Rightarrow> d
      | Some pending \<Rightarrow>
          if p_result pending = None
          then d\<lparr>v_requests := (v_requests d)(reqID \<mapsto> pending\<lparr>p_result := Some (if yes then Accepted else Rejected)\<rparr>)\<rparr>
          else d)"

text \<open>The mode is kept in the settings, an error of which is ignored. The restart of a running server,
  which follows, is not part of the model.\<close>

definition handleSetVerificationMode :: "crypto \<Rightarrow> 'd bolt \<Rightarrow> event list \<Rightarrow> int \<Rightarrow> 'd approval \<Rightarrow> 'd approval" where
  "handleSetVerificationMode cr bd es m d =
     (if m < VerificationModeStrict \<or> VerificationModeAutoAccept < m then d
      else
        let d1 = d\<lparr>v_mode := m\<rparr> in
        case run (SetSettings cr bd (v_store d1) (lit ''daemon'') (lit ''verification_mode'') (dec_text (nat m))) es of
          None \<Rightarrow> d
        | Some ((store, _), _) \<Rightarrow> d1\<lparr>v_store := store\<rparr>)"

datatype approval_event =
    GetsVerifier
  | Verifies nat "event list" peer
  | Answers int bool
  | TakesVerdict "event list" nat
  | Expires nat
  | SetsMode "event list" int

fun approval_step :: "crypto \<Rightarrow> wire \<Rightarrow> 'd bolt \<Rightarrow> 'd approval \<Rightarrow> approval_event \<Rightarrow> 'd approval" where
  "approval_step cr wr bd d GetsVerifier = getVerifier d"
| "approval_step cr wr bd d (Verifies j es p) =
     (if j < length (v_verifiers d) then verify_with cr wr bd (v_verifiers d ! j) es p d else d)"
| "approval_step cr wr bd d (Answers reqID yes) = handleVerifyResponse reqID yes d"
| "approval_step cr wr bd d (TakesVerdict es i) = (if i < length (v_calls d) then take_verdict cr wr bd es i d else d)"
| "approval_step cr wr bd d (Expires i) = (if i < length (v_calls d) then time_out i d else d)"
| "approval_step cr wr bd d (SetsMode es m) = handleSetVerificationMode cr bd es m d"

definition approval_run :: "crypto \<Rightarrow> wire \<Rightarrow> 'd bolt \<Rightarrow> 'd approval \<Rightarrow> approval_event list \<Rightarrow> 'd approval" where
  "approval_run cr wr bd d es = foldl (approval_step cr wr bd) d es"

lemma approval_run_snoc [simp]: "approval_run cr wr bd d (es @ [e]) = approval_step cr wr bd (approval_run cr wr bd d es) e"
  "approval_run cr wr bd d [] = d"
  by (simp_all add: approval_run_def)

subsection \<open>Who was asked\<close>







definition asking :: "call list \<Rightarrow> int list" where
  "asking cs = concat (map (\<lambda>c. case c of Asking reqID _ _ _ _ \<Rightarrow> [reqID] | Returned _ _ _ \<Rightarrow> []) cs)"


lemma asking_simps [simp]:
  "asking [] = []" "asking (cs @ cs') = asking cs @ asking cs'" "asking (Returned p r v # cs) = asking cs"
  "asking (Asking reqID p s m k # cs) = reqID # asking cs"
  by (simp_all add: asking_def)













subsection \<open>Properties\<close>








end
