(* ===== verification/Rekey.thy ===== *)
theory Rekey
  imports Engine "HOL-Library.Sublist"
begin

text \<open>
  \<^verbatim>\<open>RotateDataKey\<close> of internal/engine/bolt_store.go: a new data key, under which every encrypted value of every
  bucket is written again in one transaction, together with the new cipher metadata.
\<close>

subsection \<open>Paths\<close>

definition slash :: byte where "slash = 47"

text \<open>\<^verbatim>\<open>bytes.Split(path, "/")\<close>.\<close>

fun split_slash :: "bytes \<Rightarrow> bytes list" where
  "split_slash [] = [[]]"
| "split_slash (c # s) =
     (if c = slash then [] # split_slash s else case split_slash s of p # ps \<Rightarrow> (c # p) # ps | [] \<Rightarrow> [[c]])"

text \<open>The walk of \<^verbatim>\<open>navigateBucket\<close> from the bucket \<open>p\<close> along the remaining parts.\<close>

fun navigate :: "'d bolt \<Rightarrow> 'd \<Rightarrow> bytes list \<Rightarrow> bytes list \<Rightarrow> bytes list option" where
  "navigate bd d p [] = Some p"
| "navigate bd d p (part # parts) = (if bk_exists bd d (p @ [part]) then navigate bd d (p @ [part]) parts else None)"

definition navigateBucket :: "'d bolt \<Rightarrow> 'd \<Rightarrow> bytes \<Rightarrow> bytes list option" where
  "navigateBucket bd d path = navigate bd d [] (split_slash path)"

definition find_bucket :: "'d bolt \<Rightarrow> 'd \<Rightarrow> bytes \<Rightarrow> bytes list option" where
  "find_bucket bd d path = (if bk_exists bd d [path] then Some [path] else navigateBucket bd d path)"

subsection \<open>Rotation\<close>

text \<open>\<^verbatim>\<open>collect\<close>: the entries of a bucket and of the buckets below it, down to the given depth, each with the
  joined path of its bucket.\<close>

fun collect :: "'d bolt \<Rightarrow> 'd \<Rightarrow> nat \<Rightarrow> bytes list \<Rightarrow> bytes \<Rightarrow> (bytes \<times> bytes \<times> bytes) list" where
  "collect bd d 0 p path = []"
| "collect bd d (Suc n) p path =
     concat (map (\<lambda>(k, v).
       if bk_exists bd d (p @ [k]) then collect bd d n (p @ [k]) (path @ [slash] @ k)
       else [(path, k, case v of Some x \<Rightarrow> x | None \<Rightarrow> [])]) (bk_cursor bd d p))"

definition collect_all :: "'d bolt \<Rightarrow> 'd \<Rightarrow> nat \<Rightarrow> (bytes \<times> bytes \<times> bytes) list" where
  "collect_all bd d n = concat (map (\<lambda>(name, _). collect bd d n [name] name) (bk_cursor bd d []))"

text \<open>The write phase: a value that does not decrypt and an entry whose bucket is not found are skipped.\<close>

fun rewrite_entries ::
  "crypto \<Rightarrow> 'd bolt \<Rightarrow> enigma \<Rightarrow> enigma \<Rightarrow> (bytes \<times> bytes \<times> bytes) list \<Rightarrow> 'd \<Rightarrow> ('d \<times> (serr + unit)) io" where
  "rewrite_entries cr bd oldCipher newCipher [] d = Return (d, Inr ())"
| "rewrite_entries cr bd oldCipher newCipher ((path, key, v) # es) d =
     (case Decrypt cr oldCipher v of
        Inl _ \<Rightarrow> rewrite_entries cr bd oldCipher newCipher es d
      | Inr plaintext \<Rightarrow>
          io_bind (Encrypt cr newCipher plaintext) (\<lambda>reencrypted.
            case find_bucket bd d path of
              None \<Rightarrow> rewrite_entries cr bd oldCipher newCipher es d
            | Some p \<Rightarrow>
                (case bk_put bd d p key reencrypted of
                   None \<Rightarrow> Return (d, Inl ErrBolt)
                 | Some d' \<Rightarrow> rewrite_entries cr bd oldCipher newCipher es d')))"

definition RotateDataKey ::
  "crypto \<Rightarrow> 'd bolt \<Rightarrow> nat \<Rightarrow> 'd bolt_store \<Rightarrow> bytes \<Rightarrow> bytes \<Rightarrow> ('d bolt_store \<times> (serr + unit)) io" where
  "RotateDataKey cr bd depth s old new =
     (case extractCipher cr bd (bs_db s) old of
        Inl e \<Rightarrow> Return (s, Inl e)
      | Inr (oldCipher, _) \<Rightarrow>
          Random 32 (\<lambda>newSecret. Random 32 (\<lambda>newSecretSalt.
          case data_cipher cr newSecret newSecretSalt of
            Inl e \<Rightarrow> Return (s, Inl e)
          | Inr newCipher \<Rightarrow>
              Random 32 (\<lambda>newDeriveSalt. Random 32 (\<lambda>newWrappedSalt.
              case passphrase_cipher cr new newDeriveSalt newWrappedSalt of
                Inl e \<Rightarrow> Return (s, Inl e)
              | Inr newKeyCipher \<Rightarrow>
                  io_bind (Encrypt cr newKeyCipher newSecret) (\<lambda>newWrapped.
                  io_bind (rewrite_entries cr bd oldCipher newCipher (collect_all bd (bs_db s) depth) (bs_db s)) (\<lambda>(d, r).
                  case r of
                    Inl e \<Rightarrow> Return (s, Inl e)
                  | Inr _ \<Rightarrow>
                      (case write_meta bd d [(secretSaltKey, newSecretSalt), (wrappedKey, newWrapped),
                              (wrappedSaltKey, newWrappedSalt), (deriveSaltKey, newDeriveSalt)] of
                         None \<Rightarrow> Return (s, Inl ErrBolt)
                       | Some d' \<Rightarrow> Return (\<lparr>bs_db = d', bs_cipher = newCipher\<rparr>, Inr ())))))))))"

subsection \<open>Facts\<close>

text \<open>A database whose buckets form a tree of a bounded depth with names free of slashes. Its root holds no
  values, and its values have keys bbolt accepts, which are not names of buckets.\<close>

definition tree_ok :: "'d bolt \<Rightarrow> 'd \<Rightarrow> nat \<Rightarrow> bool" where
  "tree_ok bd d n \<longleftrightarrow> bk_exists bd d [] \<and> (\<forall>k. bk_get bd d [] k = None) \<and>
     (\<forall>p k. bk_exists bd d (p @ [k]) \<longrightarrow> bk_exists bd d p \<and> bk_get bd d p k = None) \<and>
     (\<forall>p. bk_exists bd d p \<longrightarrow> length p \<le> n \<and> list_all (\<lambda>x. slash \<notin> set x) p) \<and>
     (\<forall>p k v. bk_get bd d p k = Some v \<longrightarrow> key_ok k)"

fun join_slash :: "bytes list \<Rightarrow> bytes" where
  "join_slash [] = []"
| "join_slash [x] = x"
| "join_slash (x # y # ys) = x @ [slash] @ join_slash (y # ys)"

lemma join_snoc: "p \<noteq> [] \<Longrightarrow> join_slash (p @ [k]) = join_slash p @ [slash] @ k"
proof (induction p rule: join_slash.induct)
  case (3 x y ys)
  then show ?case by (cases ys) simp_all
qed simp_all

lemma split_slash_free: "slash \<notin> set x \<Longrightarrow> split_slash x = [x]"
  by (induction x) auto

lemma split_slash_append: "slash \<notin> set x \<Longrightarrow> split_slash (x @ slash # s) = x # split_slash s"
  by (induction x) auto

lemma split_join: "p \<noteq> [] \<Longrightarrow> list_all (\<lambda>x. slash \<notin> set x) p \<Longrightarrow> split_slash (join_slash p) = p"
  by (induction p rule: join_slash.induct) (auto simp: split_slash_free split_slash_append)

lemma navigate_ok:
  assumes "\<And>q. prefix q parts \<Longrightarrow> q \<noteq> [] \<Longrightarrow> bk_exists bd d (p @ q)"
  shows "navigate bd d p parts = Some (p @ parts)"
  using assms
proof (induction parts arbitrary: p)
  case (Cons x xs)
  have "bk_exists bd d (p @ [x])" using Cons.prems [of "[x]"] by simp
  moreover have "navigate bd d (p @ [x]) xs = Some ((p @ [x]) @ xs)"
  proof (rule Cons.IH)
    fix q assume "prefix q xs" "q \<noteq> []"
    then show "bk_exists bd d ((p @ [x]) @ q)" using Cons.prems [of "x # q"] by simp
  qed
  ultimately show ?case by simp
qed simp

lemma tree_prefix:
  assumes "tree_ok bd d n" "bk_exists bd d (p @ q)"
  shows "bk_exists bd d p"
  using assms(2)
proof (induction q rule: rev_induct)
  case (snoc x xs)
  then show ?case using assms(1) unfolding tree_ok_def by (metis append_assoc)
qed simp

lemma find_bucket_ok:
  assumes "tree_ok bd d n" "bk_exists bd d p" "p \<noteq> []"
  shows "find_bucket bd d (join_slash p) = Some p"
proof -
  have free: "list_all (\<lambda>x. slash \<notin> set x) q" if "bk_exists bd d q" for q
    using that assms(1) by (simp add: tree_ok_def)
  have nav: "navigateBucket bd d (join_slash p) = Some p"
    unfolding navigateBucket_def split_join [OF assms(3) free [OF assms(2)]]
    using navigate_ok [of p bd d "[]"] tree_prefix [OF assms(1)] assms(2) by (auto elim!: prefixE)
  moreover have "[join_slash p] = p" if "bk_exists bd d [join_slash p]"
    using free [OF that] split_join [OF assms(3) free [OF assms(2)]] split_slash_free by auto
  ultimately show ?thesis by (simp add: find_bucket_def)
qed

text \<open>A bucket below the top whose path has a name with a slash is never found.\<close>

lemma split_slash_parts: "x \<in> set (split_slash s) \<Longrightarrow> slash \<notin> set x"
  by (induction s arbitrary: x) (auto split: if_splits list.splits)

lemma navigate_parts: "navigate bd d p parts = Some q \<Longrightarrow> q = p @ parts"
  by (induction parts arbitrary: p) (fastforce split: if_splits)+

lemma slash_bucket_lost:
  assumes "2 \<le> length p" "x \<in> set p" "slash \<in> set x"
  shows "find_bucket bd d path \<noteq> Some p"
  using assms split_slash_parts [of x path]
  by (auto simp: find_bucket_def navigateBucket_def dest!: navigate_parts split: if_splits)

lemma cursor_ok:
  assumes "bolt_laws bd" "tree_ok bd d n" "bk_exists bd d p"
  shows "(k, Some v) \<in> set (bk_cursor bd d p) \<longleftrightarrow> bk_get bd d p k = Some v"
    "(k, None) \<in> set (bk_cursor bd d p) \<longleftrightarrow> bk_exists bd d (p @ [k])"
  using assms by (simp_all add: bolt_laws_def cursor_law_def tree_ok_def)

text \<open>What is collected: every value of the database, once its bucket is not deeper than the bound, and
  nothing else.\<close>

definition entry_of_value :: "'d bolt \<Rightarrow> 'd \<Rightarrow> bytes list \<Rightarrow> bytes \<times> bytes \<times> bytes \<Rightarrow> bool" where
  "entry_of_value bd d q e \<longleftrightarrow> (case e of (path, k, v) \<Rightarrow> path = join_slash q \<and> q \<noteq> [] \<and> bk_exists bd d q \<and> bk_get bd d q k = Some v)"

lemma collect_sound:
  assumes "bolt_laws bd" "tree_ok bd d m" "bk_exists bd d p" "p \<noteq> []" "e \<in> set (collect bd d n p (join_slash p))"
  shows "\<exists>q. entry_of_value bd d q e"
  using assms(3-)
proof (induction n arbitrary: p)
  case (Suc n)
  then obtain k v where kv: "(k, v) \<in> set (bk_cursor bd d p)"
    and e': "e \<in> set (if bk_exists bd d (p @ [k]) then collect bd d n (p @ [k]) (join_slash p @ [slash] @ k)
       else [(join_slash p, k, case v of Some x \<Rightarrow> x | None \<Rightarrow> [])])"
    by fastforce
  note e = e' [folded join_snoc [OF Suc.prems(2)]]
  show ?case
  proof (cases "bk_exists bd d (p @ [k])")
    case True
    with e show ?thesis by (intro Suc.IH [of "p @ [k]"]) simp_all
  next
    case False
    with kv cursor_ok [OF assms(1,2) Suc.prems(1)] obtain x where "v = Some x" "bk_get bd d p k = Some x"
      by (cases v) auto
    with False e Suc.prems show ?thesis by (auto simp: entry_of_value_def)
  qed
qed simp

lemma collect_complete:
  assumes "bolt_laws bd" "tree_ok bd d m" "p \<noteq> []" "bk_exists bd d (p @ q)" "bk_get bd d (p @ q) k = Some v" "length q < n"
  shows "(join_slash (p @ q), k, v) \<in> set (collect bd d n p (join_slash p))"
  using assms(3-)
proof (induction n arbitrary: p q)
  case (Suc n)
  have p: "bk_exists bd d p" by (rule tree_prefix [OF assms(2) Suc.prems(2)])
  note cursor = cursor_ok [OF assms(1,2) p]
  show ?case
  proof (cases q)
    case Nil
    with Suc.prems have "(k, Some v) \<in> set (bk_cursor bd d p)" "\<not> bk_exists bd d (p @ [k])"
      using assms(2) by (auto simp: cursor tree_ok_def)
    then show ?thesis using Nil by force
  next
    case (Cons x xs)
    have x: "bk_exists bd d (p @ [x])" using tree_prefix [OF assms(2), of "p @ [x]" xs] Suc.prems(2) Cons by simp
    have "(join_slash ((p @ [x]) @ xs), k, v) \<in> set (collect bd d n (p @ [x]) (join_slash (p @ [x])))"
      using Suc.prems Cons by (intro Suc.IH) simp_all
    then have "(join_slash (p @ q), k, v) \<in> set (collect bd d n (p @ [x]) (join_slash p @ [slash] @ x))"
      using Cons join_snoc [OF Suc.prems(1), of x] by simp
    moreover have "(x, None) \<in> set (bk_cursor bd d p)" using x by (simp add: cursor)
    ultimately show ?thesis using x by force
  qed
qed simp

lemma collect_all_set:
  assumes "bolt_laws bd" "tree_ok bd d n"
  shows "e \<in> set (collect_all bd d n) \<longleftrightarrow> (\<exists>q. entry_of_value bd d q e)"
proof
  have root: "bk_exists bd d []" using assms(2) by (simp add: tree_ok_def)
  note cursor = cursor_ok [OF assms root]
  have names: "(\<exists>v. (x, v) \<in> set (bk_cursor bd d [])) \<longleftrightarrow> bk_exists bd d [x]" for x
    using cursor [of x] assms(2) by (auto simp: tree_ok_def) (metis not_None_eq option.distinct(1))
  { assume "e \<in> set (collect_all bd d n)"
    then obtain x v where "(x, v) \<in> set (bk_cursor bd d [])" "e \<in> set (collect bd d n [x] (join_slash [x]))"
      by (auto simp: collect_all_def)
    with names collect_sound [OF assms, of "[x]" e n] show "\<exists>q. entry_of_value bd d q e" by blast }
  { assume "\<exists>q. entry_of_value bd d q e"
    then obtain x xs k v where e: "e = (join_slash ([x] @ xs), k, v)" "bk_exists bd d ([x] @ xs)" "bk_get bd d ([x] @ xs) k = Some v"
      by (auto simp: entry_of_value_def neq_Nil_conv)
    moreover from this assms(2) have "length xs < n" unfolding tree_ok_def by fastforce
    ultimately have "e \<in> set (collect bd d n [x] x)" using collect_complete [OF assms, of "[x]" xs k v n] by simp
    moreover have "bk_exists bd d [x]" using tree_prefix [OF assms(2), of "[x]" xs] e(2) by simp
    ultimately show "e \<in> set (collect_all bd d n)" using names unfolding collect_all_def by fastforce }
qed

lemma join_inj:
  assumes "tree_ok bd d n" "bk_exists bd d p" "p \<noteq> []" "bk_exists bd d q" "q \<noteq> []" "join_slash p = join_slash q"
  shows "p = q"
proof -
  have "list_all (\<lambda>x. slash \<notin> set x) p" "list_all (\<lambda>x. slash \<notin> set x) q" using assms(1,2,4) by (simp_all add: tree_ok_def)
  with assms(3,5) have "split_slash (join_slash p) = p" "split_slash (join_slash q) = q" by (simp_all add: split_join)
  then show ?thesis unfolding assms(6) by (rule trans [OF sym])
qed

lemma find_bucket_cong: "bk_exists bd d = bk_exists bd d' \<Longrightarrow> find_bucket bd d = find_bucket bd d'"
proof -
  assume e: "bk_exists bd d = bk_exists bd d'"
  have "navigate bd d p parts = navigate bd d' p parts" for p parts
    by (induction parts arbitrary: p) (simp_all add: e)
  then show ?thesis by (simp add: fun_eq_iff find_bucket_def navigateBucket_def e)
qed

text \<open>The write phase: every value that decrypts under the old cipher has the same plain text under the new
  one, and no other value changes.\<close>

definition reads :: "crypto \<Rightarrow> 'd bolt \<Rightarrow> enigma \<Rightarrow> 'd \<Rightarrow> bytes list \<Rightarrow> bytes \<Rightarrow> bytes \<Rightarrow> bool" where
  "reads cr bd c d q k x \<longleftrightarrow> (\<exists>v. bk_get bd d q k = Some v \<and> Decrypt cr c v = Inr x)"

definition recoded :: "crypto \<Rightarrow> 'd bolt \<Rightarrow> enigma \<Rightarrow> enigma \<Rightarrow> 'd \<Rightarrow> (bytes \<times> bytes \<times> bytes) list \<Rightarrow> 'd \<Rightarrow> 'd \<Rightarrow> bool" where
  "recoded cr bd c c' d0 es d d' \<longleftrightarrow> bk_exists bd d' = bk_exists bd d0 \<and>
     (\<forall>q k. bk_get bd d' q k = bk_get bd d q k \<or> (\<exists>x. reads cr bd c d0 q k x \<and> reads cr bd c' d' q k x)) \<and>
     (\<forall>q k v x. (join_slash q, k, v) \<in> set es \<and> entry_of_value bd d0 q (join_slash q, k, v) \<and> Decrypt cr c v = Inr x \<longrightarrow>
        reads cr bd c' d' q k x)"

lemma rewrite_yields:
  assumes "bolt_laws bd" "aead_law cr" "tree_ok bd d0 n"
    and "\<forall>e \<in> set es. \<exists>q. entry_of_value bd d0 q e" "bk_exists bd d = bk_exists bd d0"
  shows "yields (rewrite_entries cr bd c c' es d) (\<lambda>(d', r). r = Inr () \<and> recoded cr bd c c' d0 es d d')"
  using assms(4,5)
proof (induction es arbitrary: d)
  case Nil
  then show ?case by (simp add: recoded_def)
next
  case (Cons e es)
  obtain path k v where e: "e = (path, k, v)" by (cases e)
  obtain q where "entry_of_value bd d0 q e" using Cons.prems(1) by auto
  then have q: "path = join_slash q" "q \<noteq> []" "bk_exists bd d0 q" "bk_get bd d0 q k = Some v"
    by (auto simp: e entry_of_value_def)
  have same: "q' = q" if "join_slash q' = path" "entry_of_value bd d0 q' (join_slash q', k', v')" for q' k' v'
    using that q join_inj [OF assms(3)] by (auto simp: entry_of_value_def)
  show ?case
  proof (cases "Decrypt cr c v")
    case (Inl err)
    have "recoded cr bd c c' d0 (e # es) d d'" if "recoded cr bd c c' d0 es d d'" for d'
      using that Inl unfolding recoded_def e by auto
    moreover have "yields (rewrite_entries cr bd c c' es d) (\<lambda>(d', r). r = Inr () \<and> recoded cr bd c c' d0 es d d')"
      using Cons.prems by (intro Cons.IH) simp_all
    ultimately show ?thesis by (auto simp: e Inl elim!: yields_mono)
  next
    case (Inr x)
    have b: "find_bucket bd d path = Some q"
      using find_bucket_ok [OF assms(3) q(3,2)] find_bucket_cong [OF Cons.prems(2)] by (simp add: q(1))
    have k: "key_ok k" "\<not> bk_exists bd d (q @ [k])" "bk_exists bd d q"
      using assms(3) q Cons.prems(2) unfolding tree_ok_def by (metis, metis option.distinct(1), simp)
    have "yields (case bk_put bd d q k ct of None \<Rightarrow> Return (d, Inl ErrBolt) | Some d1 \<Rightarrow> rewrite_entries cr bd c c' es d1)
        (\<lambda>(d', r). r = Inr () \<and> recoded cr bd c c' d0 (e # es) d d')" if ct: "Decrypt cr c' ct = Inr x" for ct
    proof -
      obtain d1 where d1: "bk_put bd d q k ct = Some d1" "bk_exists bd d1 = bk_exists bd d"
          "bk_get bd d1 = (bk_get bd d)(q := (bk_get bd d q)(k \<mapsto> ct))"
        using put_ok [OF assms(1) q(2) k(3,1,2)] by blast
      have here: "reads cr bd c d0 q k y \<longleftrightarrow> y = x" for y using q(4) Inr by (auto simp: reads_def)
      have "recoded cr bd c c' d0 (e # es) d d'" if r: "recoded cr bd c c' d0 es d1 d'" for d'
      proof -
        from r have "bk_get bd d' q k = bk_get bd d1 q k \<or> (\<exists>y. reads cr bd c d0 q k y \<and> reads cr bd c' d' q k y)"
          unfolding recoded_def by blast
        with here ct have x: "reads cr bd c' d' q k x" by (auto simp: d1(3) reads_def [of cr bd c'])
        have "bk_get bd d' q' k' = bk_get bd d q' k' \<or> (\<exists>y. reads cr bd c d0 q' k' y \<and> reads cr bd c' d' q' k' y)" for q' k'
        proof (cases "q' = q \<and> k' = k")
          case True
          with x here show ?thesis by blast
        next
          case False
          then have "bk_get bd d1 q' k' = bk_get bd d q' k'" by (auto simp: d1(3))
          with r show ?thesis unfolding recoded_def by metis
        qed
        moreover have "reads cr bd c' d' q' k' y" if "(join_slash q', k', v') \<in> set (e # es)"
          "entry_of_value bd d0 q' (join_slash q', k', v')" "Decrypt cr c v' = Inr y" for q' k' v' y
        proof (cases "(join_slash q', k', v') = e")
          case True
          with that same have "q' = q" "k' = k" "v' = v" by (auto simp: e)
          with that x Inr show ?thesis by simp
        next
          case False
          with that r show ?thesis unfolding recoded_def by auto
        qed
        ultimately show ?thesis using r unfolding recoded_def by blast
      qed
      moreover have "yields (rewrite_entries cr bd c c' es d1) (\<lambda>(d', r). r = Inr () \<and> recoded cr bd c c' d0 es d1 d')"
        using Cons.prems d1(2) by (intro Cons.IH) simp_all
      ultimately show ?thesis by (auto simp: d1(1) elim!: yields_mono)
    qed
    then show ?thesis by (simp add: e Inr b Encrypt_def Decrypt_seal [OF assms(2)])
  qed
qed

definition cipher_entry :: "bytes list \<Rightarrow> bytes \<Rightarrow> bool" where
  "cipher_entry p k \<longleftrightarrow> p = [DefaultNamespace] \<and> k \<in> {wrappedKey, wrappedSaltKey, deriveSaltKey, secretSaltKey}"

text \<open>The last part of the write phase: the metadata under which the new cipher is found again.\<close>

lemma new_metadata:
  assumes "bolt_laws bd" "aead_law cr" "meta_ready bd d" "data_cipher cr secret ss = Inr c"
    and "passphrase_cipher cr new ds ws = Inr kc" "length nonce = nonceSize"
  obtains d' meta where "write_meta bd d [(secretSaltKey, ss), (wrappedKey, nonce @ xchacha_seal cr (aead_key kc) nonce secret),
        (wrappedSaltKey, ws), (deriveSaltKey, ds)] = Some d'"
    "extractCipher cr bd d' new = Inr (c, meta)" "bk_exists bd d' = bk_exists bd d"
    "\<forall>p k. \<not> cipher_entry p k \<longrightarrow> bk_get bd d' p k = bk_get bd d p k"
proof -
  let ?w = "nonce @ xchacha_seal cr (aead_key kc) nonce secret"
  let ?kvs = "[(secretSaltKey, ss), (wrappedKey, ?w), (wrappedSaltKey, ws), (deriveSaltKey, ds)]"
  let ?m = "\<lparr>cm_secretSalt = ss, cm_deriveSalt = ds, cm_wrappedSalt = ws, cm_wrappedKey = ?w\<rparr>"
  obtain d' where d': "write_meta bd d ?kvs = Some d'" "bk_exists bd d' = bk_exists bd d"
      "bk_get bd d' = (bk_get bd d)([DefaultNamespace] := bk_get bd d [DefaultNamespace] ++ map_of (rev ?kvs))"
    using write_meta_ok [OF assms(1,3), of ?kvs] by auto
  have "read_meta bd d' = Some ?m" using meta_keys_distinct by (auto simp: read_meta_def d'(3))
  moreover have "unwrap_secret cr new ?m = Inr secret"
    using unwrap_wrapped [OF assms(2), of new ?m kc nonce secret] assms(5,6) by simp
  ultimately have "extractCipher cr bd d' new = Inr (c, ?m)" using assms(4) by (simp add: extractCipher_def)
  moreover have "bk_get bd d' p k = bk_get bd d p k" if "\<not> cipher_entry p k" for p k
    using that by (auto simp: cipher_entry_def d'(3))
  ultimately show thesis using d'(1,2) by (intro that) blast+
qed

definition rekeyed :: "crypto \<Rightarrow> 'd bolt \<Rightarrow> 'd bolt_store \<Rightarrow> bytes \<Rightarrow> 'd bolt_store \<Rightarrow> bool" where
  "rekeyed cr bd s new s' \<longleftrightarrow> (\<exists>meta. extractCipher cr bd (bs_db s') new = Inr (bs_cipher s', meta)) \<and>
     bk_exists bd (bs_db s') = bk_exists bd (bs_db s) \<and>
     (\<forall>p k x. \<not> cipher_entry p k \<and> reads cr bd (bs_cipher s) (bs_db s) p k x \<longrightarrow> reads cr bd (bs_cipher s') (bs_db s') p k x) \<and>
     (\<forall>p k. \<not> cipher_entry p k \<and> (\<forall>x. \<not> reads cr bd (bs_cipher s) (bs_db s) p k x) \<longrightarrow>
        bk_get bd (bs_db s') p k = bk_get bd (bs_db s) p k)"

lemma recoded_reads:
  assumes "bolt_laws bd" "tree_ok bd d n" "recoded cr bd c c' d (collect_all bd d n) d d'" "reads cr bd c d q k x"
  shows "reads cr bd c' d' q k x"
proof -
  obtain v where v: "bk_get bd d q k = Some v" "Decrypt cr c v = Inr x" using assms(4) by (auto simp: reads_def)
  have "bk_exists bd d q" using v(1) assms(1) unfolding bolt_laws_def get_law_def by (metis option.distinct(1))
  moreover have "q \<noteq> []" using v(1) assms(2) by (auto simp: tree_ok_def)
  ultimately have "entry_of_value bd d q (join_slash q, k, v)" using v(1) by (simp add: entry_of_value_def)
  with v(2) assms(3) collect_all_set [OF assms(1,2)] show ?thesis unfolding recoded_def by blast
qed

abbreviation store_metadata where
  "store_metadata bd s c ss ds ws w \<equiv> (\<lambda>(d, r). case r of Inl e \<Rightarrow> Return (s, Inl e) | Inr _ \<Rightarrow>
      (case write_meta bd d [(secretSaltKey, ss), (wrappedKey, w), (wrappedSaltKey, ws), (deriveSaltKey, ds)] of
         None \<Rightarrow> Return (s, Inl ErrBolt) | Some d' \<Rightarrow> Return (\<lparr>bs_db = d', bs_cipher = c\<rparr>, Inr ())))"

lemma rewrite_and_store_yields:
  assumes "bolt_laws bd" "hkdf_law cr" "aead_law cr" "meta_ready bd (bs_db s)" "tree_ok bd (bs_db s) n"
    and c: "data_cipher cr secret ss = Inr c" and kc: "passphrase_cipher cr new ds ws = Inr kc" and nonce: "length nonce = nonceSize"
  shows "yields (io_bind (rewrite_entries cr bd (bs_cipher s) c (collect_all bd (bs_db s) n) (bs_db s))
      (store_metadata bd s c ss ds ws (nonce @ xchacha_seal cr (aead_key kc) nonce secret)))
    (\<lambda>(s', r). r = Inr () \<and> rekeyed cr bd s new s')"
proof -
  let ?d = "bs_db s"
  let ?es = "collect_all bd ?d n"
  have es: "\<forall>e \<in> set ?es. \<exists>q. entry_of_value bd ?d q e" using collect_all_set [OF assms(1,5)] by blast
  show ?thesis
  proof (rule yields_bind [OF rewrite_yields [OF assms(1,3,5) es refl]])
    fix z :: "'a \<times> (serr + unit)"
    assume "case z of (d', r) \<Rightarrow> r = Inr () \<and> recoded cr bd (bs_cipher s) c ?d ?es ?d d'"
    then obtain d1 where z: "z = (d1, Inr ())" "recoded cr bd (bs_cipher s) c ?d ?es ?d d1" by auto
    have e: "bk_exists bd d1 = bk_exists bd ?d" using z(2) by (simp add: recoded_def)
    then have ready: "meta_ready bd d1" using assms(4) by (simp add: meta_ready_def)
    obtain d' meta' where d': "write_meta bd d1 [(secretSaltKey, ss), (wrappedKey, nonce @ xchacha_seal cr (aead_key kc) nonce secret),
          (wrappedSaltKey, ws), (deriveSaltKey, ds)] = Some d'"
        "extractCipher cr bd d' new = Inr (c, meta')" "bk_exists bd d' = bk_exists bd d1"
        "\<forall>p k. \<not> cipher_entry p k \<longrightarrow> bk_get bd d' p k = bk_get bd d1 p k"
      by (rule new_metadata [OF assms(1,3) ready c kc nonce]) (rule that; assumption)
    have "reads cr bd c d' p k x" if "\<not> cipher_entry p k" "reads cr bd (bs_cipher s) ?d p k x" for p k x
      using recoded_reads [OF assms(1,5) z(2) that(2)] d'(4) that(1) by (simp add: reads_def)
    moreover have "bk_get bd d' p k = bk_get bd ?d p k" if "\<not> cipher_entry p k" "\<forall>x. \<not> reads cr bd (bs_cipher s) ?d p k x" for p k
      using z(2) that d'(4) unfolding recoded_def by metis
    ultimately have "rekeyed cr bd s new \<lparr>bs_db = d', bs_cipher = c\<rparr>" using d'(2,3) e by (simp add: rekeyed_def)
    then show "yields (store_metadata bd s c ss ds ws (nonce @ xchacha_seal cr (aead_key kc) nonce secret) z) (\<lambda>(s', r). r = Inr () \<and> rekeyed cr bd s new s')" by (simp add: z(1) d'(1))
  qed
qed

lemma rotate_data_key_yields:
  assumes "bolt_laws bd" "hkdf_law cr" "aead_law cr" "meta_ready bd (bs_db s)" "tree_ok bd (bs_db s) n"
    and "extractCipher cr bd (bs_db s) old = Inr (bs_cipher s, meta)"
  shows "yields (RotateDataKey cr bd n s old new) (\<lambda>(s', r). r = Inr () \<and> rekeyed cr bd s new s')"
proof -
  let ?es = "collect_all bd (bs_db s) n"
  let ?P = "\<lambda>(s', r). r = Inr () \<and> rekeyed cr bd s new s'"
  note core = rewrite_and_store_yields [OF assms(1-5)]
  show ?thesis
    unfolding RotateDataKey_def assms(6) sum.case prod.case yields.simps
  proof (intro allI impI)
    fix secret ss :: bytes
    obtain c where c: "data_cipher cr secret ss = Inr c" using data_cipher_ok [OF assms(2)] by blast
    have "yields (case passphrase_cipher cr new ds ws of Inl e \<Rightarrow> Return (s, Inl e)
        | Inr kc \<Rightarrow> io_bind (Encrypt cr kc secret) (\<lambda>w. io_bind (rewrite_entries cr bd (bs_cipher s) c ?es (bs_db s)) (store_metadata bd s c ss ds ws w))) ?P"
      for ds ws
    proof -
      obtain kc where kc: "passphrase_cipher cr new ds ws = Inr kc" using passphrase_cipher_ok [OF assms(2)] by blast
      show ?thesis using core [OF c kc] by (simp add: kc Encrypt_def)
    qed
    then show "yields (case data_cipher cr secret ss of Inl e \<Rightarrow> Return (s, Inl e)
        | Inr c \<Rightarrow> Random 32 (\<lambda>ds. Random 32 (\<lambda>ws. case passphrase_cipher cr new ds ws of Inl e \<Rightarrow> Return (s, Inl e)
          | Inr kc \<Rightarrow> io_bind (Encrypt cr kc secret) (\<lambda>w.
              io_bind (rewrite_entries cr bd (bs_cipher s) c ?es (bs_db s)) (store_metadata bd s c ss ds ws w))))) ?P"
      by (simp add: c)
  qed
qed

subsection \<open>Properties\<close>

text \<open>C15. Rotating the data key loses nothing: on a store opened with the old passphrase, whose bucket names
  are free of slashes, \<^verbatim>\<open>RotateDataKey\<close> succeeds whatever it draws; afterwards the new passphrase opens the
  store to its new cipher, every value that could be read before reads the same under the new cipher, and no
  other value changes but the cipher metadata.\<close>

theorem data_key_rotation_keeps_data:
  assumes "bolt_laws bd" "hkdf_law cr" "aead_law cr" "meta_ready bd (bs_db s)" "tree_ok bd (bs_db s) n"
    and "extractCipher cr bd (bs_db s) old = Inr (bs_cipher s, meta)"
  shows "(\<exists>es s'. run (RotateDataKey cr bd n s old new) es = Some ((s', Inr ()), [])) \<and>
     (\<forall>es s' r es'. run (RotateDataKey cr bd n s old new) es = Some ((s', r), es') \<longrightarrow>
        r = Inr () \<and> (\<exists>meta'. extractCipher cr bd (bs_db s') new = Inr (bs_cipher s', meta')) \<and>
        (\<forall>p k x. p \<noteq> [] \<and> \<not> cipher_entry p k \<and> ns_GetEncrypted cr bd (bs_cipher s) (bs_db s) (Namespace p) k = Inr x \<longrightarrow>
           ns_GetEncrypted cr bd (bs_cipher s') (bs_db s') (Namespace p) k = Inr x) \<and>
        (\<forall>p k. p \<noteq> [] \<and> \<not> cipher_entry p k \<and> (\<forall>x. ns_GetEncrypted cr bd (bs_cipher s) (bs_db s) (Namespace p) k \<noteq> Inr x) \<longrightarrow>
           bk_get bd (bs_db s') p k = bk_get bd (bs_db s) p k))"
proof -
  note y = rotate_data_key_yields [OF assms, of new]
  have get: "ns_GetEncrypted cr bd c d (Namespace p) k = Inr x \<longleftrightarrow> reads cr bd c d p k x" if "p \<noteq> []" for c d p k x
    using that by (auto simp: GetEncrypted_plain plain_def reads_def split: option.splits sum.splits)
  show ?thesis
  proof (intro conjI allI impI)
    show "\<exists>es s'. run (RotateDataKey cr bd n s old new) es = Some ((s', Inr ()), [])"
      using yields_ex [OF y] by force
  qed (use yields_run [OF _ y] in \<open>fastforce simp: rekeyed_def get\<close>)+
qed

lemma demo_tree:
  assumes "bk_exists demo_bolt d = bk_exists demo_bolt [([], []), ([DefaultNamespace], [])]"
    and "user_data demo_bolt d = user_data demo_bolt [([], []), ([DefaultNamespace], [])]"
  shows "tree_ok demo_bolt d 1"
proof -
  have e: "bk_exists demo_bolt d p \<longleftrightarrow> p = [] \<or> p = [DefaultNamespace]" for p
    by (auto simp: assms(1)) (auto simp: demo_bolt_def split: if_splits)
  have g: "p = [DefaultNamespace] \<and> key_ok k" if "bk_get demo_bolt d p k = Some v" for p k v
  proof -
    have "user_data demo_bolt d p k = None" by (simp add: assms(2)) (simp add: user_data_def demo_bolt_def)
    with that meta_keys show ?thesis by (auto simp: user_data_def split: if_splits)
  qed
  have "slash \<notin> set DefaultNamespace" by (simp add: slash_def DefaultNamespace_def lit_def of_char_def)
  moreover have "bk_get demo_bolt d [] k = None" for k using g [of "[]" k] by fastforce
  moreover have "key_ok k" if "bk_get demo_bolt d p k = Some v" for p k v using g [OF that] by simp
  ultimately show ?thesis unfolding tree_ok_def e by (auto simp: append_eq_Cons_conv)
qed

theorem data_key_rotation_keeps_data_witness:
  "\<exists>s meta es s' meta'. extractCipher demo_crypto demo_bolt (bs_db s) (lit ''old'') = Inr (bs_cipher s, meta) \<and>
     run (RotateDataKey demo_crypto demo_bolt 1 s (lit ''old'') (lit ''new'')) es = Some ((s', Inr ()), []) \<and>
     extractCipher demo_crypto demo_bolt (bs_db s') (lit ''new'') = Inr (bs_cipher s', meta')"
proof -
  let ?d = "[([], []), ([DefaultNamespace], [])] :: demo_db"
  have h: "hkdf_law demo_crypto" "aead_law demo_crypto" using demo_crypto_laws by (simp_all add: crypto_laws_def)
  have ready: "meta_ready demo_bolt ?d" by (simp add: meta_ready_def demo_bolt_def)
  obtain es d1 c meta where c: "extractCipher demo_crypto demo_bolt d1 (lit ''old'') = Inr (c, meta)"
      "bk_exists demo_bolt d1 = bk_exists demo_bolt ?d" "user_data demo_bolt d1 = user_data demo_bolt ?d"
    using yields_ex [OF createCipher_yields [OF demo_bolt_laws h ready, of "lit ''old''"]] by auto
  let ?s = "\<lparr>bs_db = d1, bs_cipher = c\<rparr>"
  have s: "meta_ready demo_bolt (bs_db ?s)" "tree_ok demo_bolt (bs_db ?s) 1"
      "extractCipher demo_crypto demo_bolt (bs_db ?s) (lit ''old'') = Inr (bs_cipher ?s, meta)"
    using c ready demo_tree [OF c(2,3)] by (simp_all add: meta_ready_def)
  note t = data_key_rotation_keeps_data [OF demo_bolt_laws h s, of "lit ''new''"]
  from t [THEN conjunct1] obtain es' s' where r:
      "run (RotateDataKey demo_crypto demo_bolt 1 ?s (lit ''old'') (lit ''new'')) es' = Some ((s', Inr ()), [])" by blast
  from t [THEN conjunct2] r have "\<exists>meta'. extractCipher demo_crypto demo_bolt (bs_db s') (lit ''new'') = Inr (bs_cipher s', meta')"
    by blast
  with r s(3) show ?thesis by blast
qed

end
