(* ===== verification/Spec2Isabelle.thy ===== *)
theory Spec2Isabelle
  imports Framing Routes Version Padding Handshake Engine Chats Fingerprint Resumption Broker Admission Relayconn Messaging Approval Rekey
begin

text \<open>
  Verification of kamune, an end-to-end encrypted messaging protocol in Go: the protocol library, its store, its
  relay with the clients of it, and the part of the daemon that keeps sessions and asks its user about peers.

  \<^bold>\<open>The program.\<close> A dialer and a server (dial.go, server.go) open an HPKE tunnel over a framed connection
  (conn.go, pkg/exchange), introduce themselves or resume a session (intro.go, resume.go), run a handshake with
  ML-KEM and a challenge in each direction (handshake.go), and then exchange signed, padded and encrypted
  envelopes with sequence numbers (serde.go, transport.go). Identities, peers, session records and chats lie
  in an encrypted bbolt database (internal/engine, pkg/storage). Peers that cannot reach each other meet at a
  relay under a common token (cmd/relay, pkg/relayconn), or are introduced by its UDP broker. The daemon
  (cmd/daemon) runs sessions for a user interface.

  \<^bold>\<open>The theories\<close>, each with the sources it models and what it shows:

  \<^item> Prelude: bytes, Go strings, integers and times of the standard library; the locale \<open>machine\<close>.
  \<^item> Framing: \<^verbatim>\<open>conn\<close> of conn.go with its deadlines and pkg/relayconn/framing.go, over the model of a socket.
    Frames come back in order, from both (locale \<open>frame_stream\<close>, interpreted for both); a failed write leaves a
    prefix; nothing works after a close; a length above 65535 wraps in the relay's framing.
  \<^item> Routes, Version, Padding: routes.go, version.go and the bucketed padding of serde.go. The conversions of
    routes are inverse; the padded envelope reaches its bucket except at four gaps; the draws have the
    distribution of the table.
  \<^item> Process: protocol functions as trees of calls. \<open>run\<close> replays one against any environment, \<open>settles\<close> is total
    correctness of two of them under every schedule and all draws, \<open>yields\<close> that of a local computation.
  \<^item> Platform, Instances: the interfaces of code outside the repository with their laws, and instances that
    satisfy the laws; errors.go.
  \<^item> Primitives, Tunnel: pkg/attest, internal/enigma and pkg/exchange.
  \<^item> Serde, Transport: the signed envelope and the established session. A message comes out as it went in; what is
    accepted was signed as that pair of metadata and message, comes in sequence and never twice; two transports in
    step deliver every message.
  \<^item> Handshake: handshake.go. Honest parties agree on session ID, ciphers and resumption root; against an arbitrary
    peer either side gets a transport only when a signed message of the peer verified and the echo of its own
    challenge, bound to the transcript, came back.
  \<^item> Sessions, Resumption: intro.go, resume.go, dial.go and server.go. A session from dialing to the last
    message; what a dialer and a server require of an arbitrary peer; how a resumption ends on both sides.
  \<^item> Engine, Rekey: internal/engine. A store opens again; rotating the passphrase or the data key loses
    nothing.
  \<^item> Refinement, Storage, Chats: pkg/storage. Session metadata behaves as plain maps (locale \<open>implements\<close>,
    interpreted for the metadata operations); tokens are used once; peers and chats come back as they were stored.
  \<^item> Fingerprint: pkg/fingerprint.
  \<^item> Tokens: pkg/relayconn/token.go and pkg/exchange/ecdh.go. The entropy test is an exact integer test; two peers
    derive the same pool.
  \<^item> Ratelimit, Relay, Admission: cmd/relay/internal with its configuration. The limiter is a sliding
    window; the table of sessions keeps its invariant, pairs listener and dialer and forwards in order, only under a
    common token; quota and handshake timeout hold under every interleaving. \<open>machine\<close> is interpreted for the relay.
  \<^item> Netaddr, Broker: addresses in text; the packets, server and client of the broker.
  \<^item> Relayconn: dial.go, listener.go, conn.go, auth.go and options.go of pkg/relayconn. Clients meet at the relay;
    a listener hands out messages in order. \<open>machine\<close> is interpreted for the listener.
  \<^item> Messaging, Approval: messaging.go and verifier.go of cmd/daemon. Both ends keep the same conversation;
    reconnecting ends; a peer is accepted only on its user's answer.

  Several properties state what the code does where it is surprising: a refused send that desynchronises a session,
  resumption tokens that are never stored, a late join that removes a live session, forged headers that defeat
  the quota, a second close, pongs that come too early, a status that stays.

  \<^bold>\<open>Conventions.\<close> A record or datatype stands for each struct or enumeration and a definition for each function,
  under its name unless that is taken, then with the name of its package or type in front. Errors are values of sum
  types, one constructor per class that \<^verbatim>\<open>errors.Is\<close> tells apart; a panic is a value too. Code under a mutex
  and an operation on a channel is one step; goroutines interleave these steps. Times are integers
  of nanoseconds; the reals of \<^const>\<open>ValidateUserToken\<close> stand for \<^verbatim>\<open>float64\<close>.

  \<^bold>\<open>Assumptions.\<close> Code outside the repository is a parameter with documented laws: \<open>crypto_laws\<close> and \<open>dh_law\<close> (what is
  encrypted decrypts, what is signed verifies, both sides of an exchange agree), \<open>wire_laws\<close> (protobuf round
  trips and sizes), \<open>bolt_laws\<close> (bbolt), \<open>lru_law\<close> (the expiring cache) and \<open>sort_law\<close> (\<^verbatim>\<open>slices.SortFunc\<close>).
  Unforgeability is an explicit hypothesis of the one property that needs it. Each has a witness with a
  concrete instance.

  \<^bold>\<open>Bounds.\<close> Recursions over data end by themselves. \<^const>\<open>receiveMessagesBlocking\<close> takes a number of turns,
  as its loop ends only with the connection; the property about it lets it take one per message. \<^const>\<open>collect\<close> takes a
  depth, and the property about it assumes that no bucket lies deeper. \<^const>\<open>accept_loop\<close> consumes the
  listener's answers. The step relations of the relay, the listener and the daemon run on lists of events of
  any length.

  \<^bold>\<open>Not modelled.\<close> The desktop application (cmd/bus) and the terminal interface (cmd/tui), which are user interfaces;
  the commands, servers, KCP sockets and JSON of the daemon beside the two files above; the client-side receive loop
  of the daemon; the entry point, certificates, health handlers and socket adapters of the relay; generated
  protobuf code, which is a parameter; logging; the text of errors. The purge and the insertion of the relay's
  \<^verbatim>\<open>Create\<close> and \<^verbatim>\<open>CreateWith\<close> are one step, as are the read and the write transaction of \<^const>\<open>RotateDataKey\<close>: a write of another
  goroutine between the two is outside the model.
\<close>

end
